(* ===== verification/Prelude.thy ===== *)
theory Prelude
  imports Complex_Main "HOL-Library.AList"
begin

text \<open>
  Shared vocabulary of the development: the exceptions the Python code raises, the
  numeric conventions (Python's \<open>round\<close>, \<open>int\<close>, \<open>timedelta\<close>), strings, and the few
  generic facts on lists and dictionaries that more than one component uses.

  Conventions. A Python \<open>float\<close> is a \<open>real\<close>: arithmetic is exact, so results about rounding
  of binary floating point are out of scope. A Python \<open>int\<close> is an \<open>int\<close>. An aware UTC
  \<open>datetime\<close> is the number of whole microseconds since the Unix epoch, which is the resolution
  the class has. A \<open>str\<close> is a list of characters with code points below 256. A \<open>dict\<close> keeps
  insertion order and is an association list with the operations of \<^theory_text>\<open>HOL-Library.AList\<close>:
  \<open>AList.update\<close> overwrites in place or appends, \<open>AList.delete\<close> removes, \<open>map_of\<close> looks up.
  A raised exception is \<open>Inl\<close> of a value of type \<open>py_exn\<close>; messages are not modelled.
\<close>

section \<open>Exceptions and results\<close>

datatype py_exn =
    ValueError
  | OverflowError
  | TypeError
  | DecoderParseError
  | DecoderUnavailableError
  | StructError
  | UnsupportedTrackEncoding
  | LookupError

type_synonym 'a result = "py_exn + 'a"

text \<open>Sequencing: the first exception wins, as in straight-line Python code.\<close>

definition bindE :: "'a result \<Rightarrow> ('a \<Rightarrow> 'b result) \<Rightarrow> 'b result" where
  "bindE m f = (case m of Inl e \<Rightarrow> Inl e | Inr x \<Rightarrow> f x)"

lemma bindE_simps [simp]:
  "bindE (Inl e) f = Inl e"
  "bindE (Inr x) f = f x"
  by (simp_all add: bindE_def)

lemma bindE_Inr_iff: "bindE m f = Inr y \<longleftrightarrow> (\<exists>x. m = Inr x \<and> f x = Inr y)"
  by (cases m) auto

lemma bindE_Inl_iff:
  "bindE m f = Inl e \<longleftrightarrow> m = Inl e \<or> (\<exists>x. m = Inr x \<and> f x = Inl e)"
  by (cases m) auto

section \<open>Numbers\<close>

text \<open>
  Instants. \<open>timedelta(seconds=s)\<close> rounds to whole microseconds, half to even, and so does
  \<open>datetime.fromtimestamp\<close>; Python's \<open>round\<close> on a float also rounds half to even, and
  \<open>int\<close> truncates towards zero.
\<close>

type_synonym datetime = int

definition py_round :: "real \<Rightarrow> int" where
  "py_round x =
     (let f = \<lfloor>x\<rfloor>; d = x - of_int f
      in if d < 1 / 2 then f
         else if 1 / 2 < d then f + 1
         else if even f then f else f + 1)"

definition py_trunc :: "real \<Rightarrow> int" where
  "py_trunc x = (if 0 \<le> x then \<lfloor>x\<rfloor> else \<lceil>x\<rceil>)"

definition timedelta_us :: "real \<Rightarrow> int" where
  "timedelta_us s = py_round (s * 1000000)"

lemma py_round_error: "\<bar>of_int (py_round x) - x\<bar> \<le> 1 / 2"
proof -
  have "of_int \<lfloor>x\<rfloor> \<le> x" "x < of_int \<lfloor>x\<rfloor> + 1"
    by linarith+
  then show ?thesis
    by (auto simp: py_round_def Let_def abs_le_iff)
qed

lemma py_round_of_int [simp]: "py_round (of_int n) = n"
  by (simp add: py_round_def)

lemma py_round_near:
  assumes "\<bar>x - of_int n\<bar> < 1 / 2"
  shows "py_round x = n"
proof -
  have "\<bar>of_int (py_round x) - x\<bar> \<le> 1 / 2" by (rule py_round_error)
  with assms have "\<bar>of_int (py_round x) - of_int n :: real\<bar> < 1" by linarith
  then have "\<bar>py_round x - n\<bar> < 1" by linarith
  then show ?thesis by simp
qed

lemma py_round_mono:
  assumes "x \<le> y"
  shows "py_round x \<le> py_round y"
proof (rule ccontr)
  assume "\<not> py_round x \<le> py_round y"
  then have less: "py_round y + 1 \<le> py_round x" by simp
  have ex: "\<bar>of_int (py_round x) - x\<bar> \<le> 1 / 2" and ey: "\<bar>of_int (py_round y) - y\<bar> \<le> 1 / 2"
    by (rule py_round_error)+
  from less have "of_int (py_round y) + 1 \<le> (of_int (py_round x) :: real)" by linarith
  with ex ey assms have "x = y" by linarith
  with less show False by simp
qed

lemma py_round_nonneg: "0 \<le> x \<Longrightarrow> 0 \<le> py_round x"
  using py_round_mono [of 0 x] py_round_of_int [of 0] by simp

lemma py_round_le_of_int: "x \<le> of_int n \<Longrightarrow> py_round x \<le> n"
  using py_round_mono [of x "of_int n"] by simp

lemma py_round_ge_of_int: "of_int n \<le> x \<Longrightarrow> n \<le> py_round x"
  using py_round_mono [of "of_int n" x] by simp

lemma timedelta_us_nonneg: "0 \<le> s \<Longrightarrow> 0 \<le> timedelta_us s"
  by (simp add: timedelta_us_def py_round_nonneg)

lemma timedelta_us_zero [simp]: "timedelta_us 0 = 0"
  using py_round_of_int [of 0] by (simp add: timedelta_us_def)

lemma timedelta_us_mono: "a \<le> b \<Longrightarrow> timedelta_us a \<le> timedelta_us b"
  by (simp add: timedelta_us_def py_round_mono)

section \<open>Strings\<close>

text \<open>
  \<open>str.strip\<close>, \<open>str.lower\<close> and \<open>str.upper\<close> for code points below 256: the white space is the
  characters \<open>str.isspace\<close> accepts there; case conversion changes the ASCII letters only, which
  is all that matters to the checks the code runs on the result.
\<close>

definition is_space :: "char \<Rightarrow> bool" where
  "is_space c \<longleftrightarrow>
     (let n = (of_char c :: nat)
      in 9 \<le> n \<and> n \<le> 13 \<or> 28 \<le> n \<and> n \<le> 32 \<or> n = 133 \<or> n = 160)"

definition py_strip :: "string \<Rightarrow> string" where
  "py_strip s = rev (dropWhile is_space (rev (dropWhile is_space s)))"

definition lower_char :: "char \<Rightarrow> char" where
  "lower_char c = (let n = (of_char c :: nat) in if 65 \<le> n \<and> n \<le> 90 then char_of (n + 32) else c)"

definition upper_char :: "char \<Rightarrow> char" where
  "upper_char c = (let n = (of_char c :: nat) in if 97 \<le> n \<and> n \<le> 122 then char_of (n - 32) else c)"

definition py_lower :: "string \<Rightarrow> string" where
  "py_lower s = map lower_char s"

definition py_upper :: "string \<Rightarrow> string" where
  "py_upper s = map upper_char s"

definition starts_with :: "string \<Rightarrow> string \<Rightarrow> bool" where
  "starts_with p s \<longleftrightarrow> take (length p) s = p"

section \<open>Options\<close>

text \<open>\<open>new if new is not None else old\<close>, the sticky merge of a partial report.\<close>

definition or_else :: "'a option \<Rightarrow> 'a option \<Rightarrow> 'a option" where
  "or_else new old = (case new of None \<Rightarrow> old | Some _ \<Rightarrow> new)"

lemma or_else_simps [simp]:
  "or_else None y = y"
  "or_else (Some a) y = Some a"
  "or_else y None = y"
  by (simp_all add: or_else_def split: option.split)

lemma or_else_absorb [simp]: "or_else x (or_else x y) = or_else x y"
  by (cases x) simp_all

lemma or_else_same [simp]: "or_else x x = x"
  by (cases x) simp_all

lemma or_else_assoc: "or_else x (or_else y z) = or_else (or_else x y) z"
  by (cases x) simp_all

lemma or_else_eq_None_iff [simp]: "or_else x y = None \<longleftrightarrow> x = None \<and> y = None"
  by (cases x) simp_all

definition opt_all :: "('a \<Rightarrow> bool) \<Rightarrow> 'a option \<Rightarrow> bool" where
  "opt_all P x = (case x of None \<Rightarrow> True | Some y \<Rightarrow> P y)"

lemma opt_all_simps [simp]:
  "opt_all P None"
  "opt_all P (Some y) = P y"
  by (simp_all add: opt_all_def)

lemma opt_all_or_else: "opt_all P x \<Longrightarrow> opt_all P y \<Longrightarrow> opt_all P (or_else x y)"
  by (cases x) simp_all

section \<open>Dictionaries\<close>

lemmas dict_simps = AList.update_conv' AList.delete_conv'

lemma dict_update_new:
  "k \<notin> fst ` set al \<Longrightarrow> AList.update k v al = al @ [(k, v)]"
  by (induction al) auto

lemma dict_set_update:
  "distinct (map fst al) \<Longrightarrow>
     set (AList.update k v al) = {p \<in> set al. fst p \<noteq> k} \<union> {(k, v)}"
  by (induction al) (auto simp: image_iff)

lemma dict_set_delete: "set (AList.delete k al) = {p \<in> set al. fst p \<noteq> k}"
  by (auto simp: AList.delete_eq)

lemma dict_length_update:
  "length (AList.update k v al) = (if k \<in> fst ` set al then length al else Suc (length al))"
  by (induction al) auto

section \<open>Lists\<close>

text \<open>The last \<open>n\<close> elements: what a bounded queue that sheds its oldest entry holds.\<close>

definition last_n :: "nat \<Rightarrow> 'a list \<Rightarrow> 'a list" where
  "last_n n xs = drop (length xs - n) xs"

lemma length_last_n [simp]: "length (last_n n xs) = min n (length xs)"
  by (simp add: last_n_def min_def)

lemma last_n_all [simp]: "length xs \<le> n \<Longrightarrow> last_n n xs = xs"
  by (simp add: last_n_def)

lemma last_n_snoc: "0 < n \<Longrightarrow> last_n n (xs @ [x]) = last_n (n - 1) xs @ [x]"
  by (simp add: last_n_def)

lemma last_n_snoc_last_n: "0 < n \<Longrightarrow> last_n n (last_n n xs @ [x]) = last_n n (xs @ [x])"
  by (cases "n \<le> length xs") (auto simp: last_n_def Suc_diff_le)

lemma last_n_append_last_n: "last_n n (last_n n xs @ ys) = last_n n (xs @ ys)"
proof -
  have "length xs - n + (min n (length xs) + length ys - n) = length xs + length ys - n
      \<or> length xs \<le> n" by linarith
  then show ?thesis
    by (auto simp: last_n_def drop_drop min_def not_le intro: arg_cong2 [where f = drop])
qed

lemma tl_last_n_full: "length xs = n \<Longrightarrow> 0 < n \<Longrightarrow> tl xs @ [x] = last_n n (xs @ [x])"
  by (cases xs) (simp_all add: last_n_def)

lemma suffix_last_n: "\<exists>ys. xs = ys @ last_n n xs"
  by (metis append_take_drop_id last_n_def)

end
