(* ===== verification/Bounds.thy ===== *)
theory Bounds
  imports Prelude
begin

text \<open>
  \<^verbatim>\<open>ingest/bounds.py\<close>: coercion and plausibility bounds for the values of a decoded JSON
  document. A JSON value is a \<open>json\<close>; \<open>JNonFinite\<close> stands for the floats \<open>nan\<close>, \<open>inf\<close> and
  \<open>-inf\<close>, which \<^verbatim>\<open>json.loads\<close> can produce. Every function returns a \<open>result\<close>, because
  \<^verbatim>\<open>float(n)\<close> raises \<open>OverflowError\<close> on an integer too large for a double.
\<close>

section \<open>JSON values\<close>

datatype json =
    JNull
  | JBool bool
  | JInt int
  | JFloat real
  | JNonFinite
  | JStr string
  | JArr "json list"
  | JObj "(string \<times> json) list"

type_synonym entry = "(string \<times> json) list"

text \<open>\<^verbatim>\<open>entry.get(key)\<close> and \<^verbatim>\<open>entry.get(key, default)\<close>; a missing key reads as
  \<^verbatim>\<open>None\<close>, which coerces like JSON \<^verbatim>\<open>null\<close>.\<close>

definition get_item :: "entry \<Rightarrow> string \<Rightarrow> json" where
  "get_item e k = (case map_of e k of None \<Rightarrow> JNull | Some v \<Rightarrow> v)"

definition get_item_default :: "entry \<Rightarrow> string \<Rightarrow> json \<Rightarrow> json" where
  "get_item_default e k d = (case map_of e k of None \<Rightarrow> d | Some v \<Rightarrow> v)"

section \<open>The bounds\<close>

definition MIN_LATITUDE_DEG :: real where "MIN_LATITUDE_DEG = - 90"
definition MAX_LATITUDE_DEG :: real where "MAX_LATITUDE_DEG = 90"
definition MIN_LONGITUDE_DEG :: real where "MIN_LONGITUDE_DEG = - 180"
definition MAX_LONGITUDE_DEG :: real where "MAX_LONGITUDE_DEG = 180"
definition MIN_ALTITUDE_FT :: real where "MIN_ALTITUDE_FT = - 2000"
definition MAX_ALTITUDE_FT :: real where "MAX_ALTITUDE_FT = 100000"
definition MIN_GROUND_SPEED_KT :: real where "MIN_GROUND_SPEED_KT = 0"
definition MAX_GROUND_SPEED_KT :: real where "MAX_GROUND_SPEED_KT = 2500"
definition MAX_ABS_VERTICAL_RATE_FPM :: real where "MAX_ABS_VERTICAL_RATE_FPM = 60000"
definition MIN_TRACK_DEG :: real where "MIN_TRACK_DEG = 0"
definition MAX_TRACK_DEG :: real where "MAX_TRACK_DEG = 360"
definition MIN_RSSI_DB :: real where "MIN_RSSI_DB = - 60"
definition MAX_RSSI_DB :: real where "MAX_RSSI_DB = 10"
definition MIN_MESSAGE_COUNT :: int where "MIN_MESSAGE_COUNT = 0"
definition MIN_AGE_S :: real where "MIN_AGE_S = 0"
definition MAX_AGE_S :: real where "MAX_AGE_S = 86400"
definition MIN_UNIX_TIME_S :: real where "MIN_UNIX_TIME_S = 1000000000"
definition MAX_UNIX_TIME_S :: real where "MAX_UNIX_TIME_S = 10000000000"

named_theorems bound_consts "the numeric limits of ingest/bounds.py"

declare
  MIN_LATITUDE_DEG_def [bound_consts] MAX_LATITUDE_DEG_def [bound_consts]
  MIN_LONGITUDE_DEG_def [bound_consts] MAX_LONGITUDE_DEG_def [bound_consts]
  MIN_ALTITUDE_FT_def [bound_consts] MAX_ALTITUDE_FT_def [bound_consts]
  MIN_GROUND_SPEED_KT_def [bound_consts] MAX_GROUND_SPEED_KT_def [bound_consts]
  MAX_ABS_VERTICAL_RATE_FPM_def [bound_consts]
  MIN_TRACK_DEG_def [bound_consts] MAX_TRACK_DEG_def [bound_consts]
  MIN_RSSI_DB_def [bound_consts] MAX_RSSI_DB_def [bound_consts]
  MIN_MESSAGE_COUNT_def [bound_consts]
  MIN_AGE_S_def [bound_consts] MAX_AGE_S_def [bound_consts]
  MIN_UNIX_TIME_S_def [bound_consts] MAX_UNIX_TIME_S_def [bound_consts]

section \<open>Coercion\<close>

text \<open>
  An integer rounds (half to even) to \<open>2 ^ 1024\<close> or beyond, and so does not fit a double,
  exactly when its magnitude reaches \<open>2 ^ 1024 - 2 ^ 970\<close>.
\<close>

definition float_overflows :: "int \<Rightarrow> bool" where
  "float_overflows n \<longleftrightarrow> 2 ^ 1024 - 2 ^ 970 \<le> \<bar>n\<bar>"

definition as_float :: "json \<Rightarrow> real option result" where
  "as_float v = (case v of
       JInt n \<Rightarrow> if float_overflows n then Inl OverflowError else Inr (Some (of_int n))
     | JFloat r \<Rightarrow> Inr (Some r)
     | _ \<Rightarrow> Inr None)"

definition as_int :: "json \<Rightarrow> int option result" where
  "as_int v = bindE (as_float v) (\<lambda>number. Inr (case number of
       None \<Rightarrow> None
     | Some x \<Rightarrow> if x \<noteq> of_int (py_trunc x) then None else Some (py_trunc x)))"

definition as_text :: "json \<Rightarrow> string option" where
  "as_text v = (case v of
       JStr s \<Rightarrow> (let stripped = py_strip s in if stripped = [] then None else Some stripped)
     | _ \<Rightarrow> None)"

definition as_bool :: "json \<Rightarrow> bool option" where
  "as_bool v = (case v of JBool b \<Rightarrow> Some b | _ \<Rightarrow> None)"

definition bounded :: "json \<Rightarrow> real \<Rightarrow> real \<Rightarrow> real option result" where
  "bounded v low high = bindE (as_float v) (\<lambda>number. Inr (case number of
       None \<Rightarrow> None
     | Some x \<Rightarrow> if \<not> (low \<le> x \<and> x \<le> high) then None else Some x))"

definition bounded_int :: "json \<Rightarrow> int \<Rightarrow> int option \<Rightarrow> int option result" where
  "bounded_int v low high = bindE (as_int v) (\<lambda>number. Inr (case number of
       None \<Rightarrow> None
     | Some n \<Rightarrow>
         if n < low then None
         else case high of
                Some h \<Rightarrow> if h < n then None else Some n
              | None \<Rightarrow> Some n))"

section \<open>The fields\<close>

definition latitude :: "json \<Rightarrow> real option result" where
  "latitude v = bounded v MIN_LATITUDE_DEG MAX_LATITUDE_DEG"

definition longitude :: "json \<Rightarrow> real option result" where
  "longitude v = bounded v MIN_LONGITUDE_DEG MAX_LONGITUDE_DEG"

definition altitude_ft :: "json \<Rightarrow> real option result" where
  "altitude_ft v = bounded v MIN_ALTITUDE_FT MAX_ALTITUDE_FT"

definition ground_speed_kt :: "json \<Rightarrow> real option result" where
  "ground_speed_kt v = bounded v MIN_GROUND_SPEED_KT MAX_GROUND_SPEED_KT"

definition vertical_rate_fpm :: "json \<Rightarrow> real option result" where
  "vertical_rate_fpm v = bounded v (- MAX_ABS_VERTICAL_RATE_FPM) MAX_ABS_VERTICAL_RATE_FPM"

definition track_deg :: "json \<Rightarrow> real option result" where
  "track_deg v = bindE (bounded v MIN_TRACK_DEG MAX_TRACK_DEG) (\<lambda>number. Inr (case number of
       None \<Rightarrow> None
     | Some x \<Rightarrow> Some (if x = MAX_TRACK_DEG then 0 else x)))"

definition rssi_db :: "json \<Rightarrow> real option result" where
  "rssi_db v = bounded v MIN_RSSI_DB MAX_RSSI_DB"

definition age_s :: "json \<Rightarrow> real option result" where
  "age_s v = bounded v MIN_AGE_S MAX_AGE_S"

definition message_count :: "json \<Rightarrow> int option result" where
  "message_count v = bounded_int v MIN_MESSAGE_COUNT None"

definition unix_time_s :: "json \<Rightarrow> real option result" where
  "unix_time_s v = bounded v MIN_UNIX_TIME_S MAX_UNIX_TIME_S"

lemmas bounded_field_defs =
  latitude_def longitude_def altitude_ft_def ground_speed_kt_def vertical_rate_fpm_def
  rssi_db_def age_s_def unix_time_s_def

section \<open>Lemmas\<close>

text \<open>The one way a coercion raises, and what an accepted number satisfies.\<close>

definition huge_int :: "json \<Rightarrow> bool" where
  "huge_int v \<longleftrightarrow> (\<exists>n. v = JInt n \<and> float_overflows n)"

lemma as_float_Inl_iff: "as_float v = Inl e \<longleftrightarrow> e = OverflowError \<and> huge_int v"
  by (cases v) (auto simp: as_float_def huge_int_def)

lemma as_int_Inl_iff: "as_int v = Inl e \<longleftrightarrow> e = OverflowError \<and> huge_int v"
  by (auto simp: as_int_def bindE_Inl_iff as_float_Inl_iff)

lemma bounded_Inl_iff: "bounded v low high = Inl e \<longleftrightarrow> e = OverflowError \<and> huge_int v"
  by (auto simp: bounded_def bindE_Inl_iff as_float_Inl_iff)

lemma bounded_int_Inl_iff: "bounded_int v low high = Inl e \<longleftrightarrow> e = OverflowError \<and> huge_int v"
  by (auto simp: bounded_int_def bindE_Inl_iff as_int_Inl_iff)

lemma track_deg_Inl_iff: "track_deg v = Inl e \<longleftrightarrow> e = OverflowError \<and> huge_int v"
  by (auto simp: track_deg_def bindE_Inl_iff bounded_Inl_iff)

lemma bounded_Some: "bounded v low high = Inr (Some x) \<Longrightarrow> low \<le> x \<and> x \<le> high"
  by (auto simp: bounded_def bindE_Inr_iff split: option.splits if_splits)

lemma bounded_opt_all: "bounded v low high = Inr y \<Longrightarrow> opt_all (\<lambda>x. low \<le> x \<and> x \<le> high) y"
  by (cases y) (auto dest: bounded_Some)

lemma bounded_int_opt_all:
  "bounded_int v low None = Inr y \<Longrightarrow> opt_all (\<lambda>n. low \<le> n) y"
  by (cases "as_int v") (auto simp: bounded_int_def not_less split: option.split_asm)

lemma track_deg_opt_all: "track_deg v = Inr y \<Longrightarrow> opt_all (\<lambda>x. 0 \<le> x \<and> x < 360) y"
  by (auto simp: track_deg_def bindE_Inr_iff bound_consts dest!: bounded_opt_all
      split: option.splits)

lemma as_text_nonempty: "as_text v = Some s \<Longrightarrow> s \<noteq> []"
  by (auto simp: as_text_def Let_def split: json.splits if_splits)

text \<open>A field that raises does so for any bounds: the exception depends on the value only.\<close>

lemmas field_Inl_iff =
  bounded_Inl_iff bounded_int_Inl_iff track_deg_Inl_iff

end
