(* ===== verification/IngestTypes.thy ===== *)
theory IngestTypes
  imports Bounds
begin

text \<open>
  \<^verbatim>\<open>ingest/types.py\<close>: the decoder-agnostic values every later component consumes, with the
  checks \<^verbatim>\<open>AircraftStateUpdate.__post_init__\<close> and \<^verbatim>\<open>AircraftStateBatch.__post_init__\<close> run on
  construction. The two regular expressions end in \<^verbatim>\<open>$\<close>, which \<^verbatim>\<open>re.match\<close> also lets match
  just before a final newline; \<open>re_end\<close> states that.
\<close>

section \<open>Vocabularies\<close>

datatype position_source = SrcAdsb | SrcMlat | SrcNone | SrcOther

datatype decoder_flavor = ReadsbFlavor | Dump1090FaFlavor | UnknownFlavor

definition DECODER_EMERGENCIES :: "string list" where
  "DECODER_EMERGENCIES =
     [''general'', ''lifeguard'', ''minfuel'', ''nordo'', ''unlawful'', ''downed'']"

record position =
  pos_lat :: real
  pos_lon :: real

record decoder_endpoint =
  ep_host :: string
  ep_port :: nat
  ep_path :: string
  ep_poll_interval_s :: real

text \<open>The observation: every field but the address, the instant and the source is optional.\<close>

record aircraft_update =
  au_icao :: string
  au_timestamp :: datetime
  au_position_source :: position_source
  au_callsign :: "string option"
  au_squawk :: "string option"
  au_position :: "position option"
  au_altitude_ft :: "real option"
  au_altitude_geometric_ft :: "real option"
  au_ground_speed_kt :: "real option"
  au_track_deg :: "real option"
  au_vertical_rate_fpm :: "real option"
  au_on_ground :: "bool option"
  au_rssi_db :: "real option"
  au_messages :: "int option"
  au_seen_s :: "real option"
  au_seen_pos_s :: "real option"
  au_emitter_category :: "string option"
  au_selected_altitude_ft :: "real option"
  au_decoder_emergency :: "string option"

record aircraft_batch =
  ab_timestamp :: datetime
  ab_updates :: "aircraft_update list"
  ab_skipped :: nat
  ab_skipped_non_icao :: nat

record decoder_probe =
  dp_aircraft_count :: nat
  dp_positioned_count :: nat
  dp_timestamp :: datetime
  dp_flavor :: decoder_flavor
  dp_markers :: "string list"

section \<open>The regular expressions\<close>

definition newline :: char where
  "newline = char_of (10 :: nat)"

text \<open>What may follow the last character class of a pattern that ends in \<^verbatim>\<open>$\<close>.\<close>

definition re_end :: "string \<Rightarrow> bool" where
  "re_end rest \<longleftrightarrow> rest = [] \<or> rest = [newline]"

definition is_hex_digit :: "char \<Rightarrow> bool" where
  "is_hex_digit c \<longleftrightarrow> c \<in> set ''0123456789abcdef''"

definition matches_icao_re :: "string \<Rightarrow> bool" where
  "matches_icao_re s \<longleftrightarrow>
     length (take 6 s) = 6 \<and> list_all is_hex_digit (take 6 s) \<and> re_end (drop 6 s)"

fun is_emitter_category :: "string \<Rightarrow> bool" where
  "is_emitter_category (a # b # rest) =
     (a \<in> set ''ABCD'' \<and> b \<in> set ''01234567'' \<and> re_end rest)"
| "is_emitter_category _ = False"

section \<open>Construction\<close>

text \<open>
  \<^verbatim>\<open>AircraftStateUpdate(...)\<close>: \<open>aware\<close> says whether the timestamp carries a time zone. An instant
  of the model is an aware one, so an update that exists has passed this check.
\<close>

definition make_update :: "bool \<Rightarrow> aircraft_update \<Rightarrow> aircraft_update result" where
  "make_update aware u =
     (if \<not> matches_icao_re (au_icao u) then Inl ValueError
      else if \<not> opt_all is_emitter_category (au_emitter_category u) then Inl ValueError
      else if \<not> opt_all (\<lambda>e. e \<in> set DECODER_EMERGENCIES) (au_decoder_emergency u)
        then Inl ValueError
      else if \<not> aware then Inl ValueError
      else if au_position u = None \<and> au_position_source u \<noteq> SrcNone then Inl ValueError
      else Inr u)"

definition make_batch :: "bool \<Rightarrow> aircraft_batch \<Rightarrow> aircraft_batch result" where
  "make_batch aware b = (if \<not> aware then Inl ValueError else Inr b)"

definition au_has_position :: "aircraft_update \<Rightarrow> bool" where
  "au_has_position u \<longleftrightarrow> au_position u \<noteq> None"

definition endpoint_path :: "decoder_endpoint \<Rightarrow> string" where
  "endpoint_path ep =
     (if starts_with ''/'' (ep_path ep) then ep_path ep else ''/'' @ ep_path ep)"

text \<open>What construction guarantees: the well-formedness the rest of the system relies on.\<close>

definition update_wf :: "aircraft_update \<Rightarrow> bool" where
  "update_wf u \<longleftrightarrow>
     matches_icao_re (au_icao u) \<and>
     opt_all is_emitter_category (au_emitter_category u) \<and>
     opt_all (\<lambda>e. e \<in> set DECODER_EMERGENCIES) (au_decoder_emergency u) \<and>
     (au_position u = None \<longrightarrow> au_position_source u = SrcNone)"

lemma make_update_Inr_iff: "make_update aware u = Inr v \<longleftrightarrow> v = u \<and> aware \<and> update_wf u"
  by (auto simp: make_update_def update_wf_def)

lemma make_update_Inl: "make_update aware u = Inl e \<Longrightarrow> e = ValueError"
  by (auto simp: make_update_def split: if_splits)

lemma matches_icao_re_lowercase_hex:
  assumes "length s = 6" "list_all is_hex_digit s"
  shows "matches_icao_re s"
  using assms by (simp add: matches_icao_re_def re_end_def)

lemma endpoint_path_absolute: "starts_with ''/'' (endpoint_path ep)"
  by (simp add: endpoint_path_def starts_with_def)

text \<open>
  The address check is not anchored at the end of the string: an address with a trailing newline
  passes it, although it is not a six-character one.
\<close>

lemma matches_icao_re_newline:
  "matches_icao_re s \<longleftrightarrow>
     list_all is_hex_digit (take 6 s) \<and> (length s = 6 \<or> length s = 7 \<and> last s = newline)"
proof -
  have "re_end (drop 6 s) \<and> length (take 6 s) = 6 \<longleftrightarrow>
      length s = 6 \<or> length s = 7 \<and> last s = newline"
  proof (cases "length s = 7")
    case True
    then have "length (drop 6 s) = 1" by simp
    then have "drop 6 s = [last s]" by (metis drop_eq_Nil2 last_drop last_ConsL length_0_conv
      length_Suc_conv One_nat_def not_less_eq_eq not_one_le_zero linorder_not_le)
    with True show ?thesis by (simp add: re_end_def)
  next
    case False
    then show ?thesis
      by (auto simp: re_end_def min_def dest!: arg_cong [where f = length] split: if_splits)
  qed
  then show ?thesis by (auto simp: matches_icao_re_def)
qed

end
