(* ===== verification/Readsb.thy ===== *)
theory Readsb
  imports IngestTypes "HOL-Library.List_Lexorder" "HOL-Library.Char_ord"
begin

text \<open>
  \<^verbatim>\<open>ingest/readsb.py\<close>, the pure part: from a decoded \<^verbatim>\<open>aircraft.json\<close> document to a batch of
  normalized updates (\<open>parse_document\<close>) or to a summary for the connection test
  (\<open>probe_document\<close>). The JSON decoder is Python's; the document it returns is a \<open>json\<close>.
\<close>

section \<open>Fields\<close>

definition GROUND_SENTINEL :: string where "GROUND_SENTINEL = ''ground''"

definition MLAT_TYPES :: "string list" where "MLAT_TYPES = [''mlat'']"

definition REBROADCAST_TYPE_PREFIXES :: "string list" where
  "REBROADCAST_TYPE_PREFIXES = [''tisb_'', ''adsr_'']"

definition NON_ICAO_ADDRESS_PREFIX :: string where "NON_ICAO_ADDRESS_PREFIX = ''~''"

definition DECODER_EMERGENCY_VALUES :: "(string \<times> string) list" where
  "DECODER_EMERGENCY_VALUES =
     [(''general'', ''general''), (''lifeguard'', ''lifeguard''), (''minfuel'', ''minfuel''),
      (''nordo'', ''nordo''), (''unlawful'', ''unlawful''), (''downed'', ''downed'')]"

definition READSB_MARKER_FIELDS :: "string list" where
  "READSB_MARKER_FIELDS =
     [''dbFlags'', ''calc_track'', ''rr_lat'', ''rr_lon'', ''gpsOkBefore'', ''lastPosition'',
      ''receiverCount'']"

definition DUMP1090_LEGACY_MARKER_FIELDS :: "string list" where
  "DUMP1090_LEGACY_MARKER_FIELDS = [''altitude'', ''speed'', ''vert_rate'', ''nucp'']"

definition octal_squawk :: "json \<Rightarrow> string option" where
  "octal_squawk v = (case as_text v of
       None \<Rightarrow> None
     | Some s \<Rightarrow>
         if length s \<noteq> 4 \<or> list_ex (\<lambda>c. c \<notin> set ''01234567'') s then None else Some s)"

definition emitter_category :: "json \<Rightarrow> string option" where
  "emitter_category v = (case as_text v of
       None \<Rightarrow> None
     | Some s \<Rightarrow> (let category = py_upper s in
         if is_emitter_category category then Some category else None))"

definition selected_altitude :: "entry \<Rightarrow> real option result" where
  "selected_altitude e =
     bindE (altitude_ft (get_item e ''nav_altitude_mcp'')) (\<lambda>mcp. case mcp of
       Some a \<Rightarrow> Inr (Some a)
     | None \<Rightarrow> altitude_ft (get_item e ''nav_altitude_fms''))"

definition decoder_emergency :: "json \<Rightarrow> string option" where
  "decoder_emergency v = (case as_text v of
       None \<Rightarrow> None
     | Some s \<Rightarrow> map_of DECODER_EMERGENCY_VALUES (py_lower s))"

definition address :: "json \<Rightarrow> string option \<times> bool" where
  "address v = (case as_text v of
       None \<Rightarrow> (None, False)
     | Some s \<Rightarrow>
         if starts_with NON_ICAO_ADDRESS_PREFIX s then (None, True)
         else (let lowered = py_lower s in
           if length lowered \<noteq> 6 \<or> list_ex (\<lambda>c. \<not> is_hex_digit c) lowered
           then (None, False) else (Some lowered, False)))"

fun string_members :: "json list \<Rightarrow> string list" where
  "string_members [] = []"
| "string_members (JStr s # vs) = s # string_members vs"
| "string_members (_ # vs) = string_members vs"

definition string_list :: "json \<Rightarrow> string list" where
  "string_list v = (case v of JArr vs \<Rightarrow> string_members vs | _ \<Rightarrow> [])"

definition classify_position_source :: "entry \<Rightarrow> bool \<Rightarrow> position_source" where
  "classify_position_source e has_position =
     (if \<not> has_position then SrcNone
      else
        let normalized_type = (case as_text (get_item e ''type'') of None \<Rightarrow> [] | Some s \<Rightarrow> py_lower s)
        in if normalized_type \<in> set MLAT_TYPES
              \<or> ''lat'' \<in> set (string_list (get_item e ''mlat'')) then SrcMlat
           else if list_ex (\<lambda>p. starts_with p normalized_type) REBROADCAST_TYPE_PREFIXES
              \<or> ''lat'' \<in> set (string_list (get_item e ''tisb'')) then SrcOther
           else SrcAdsb)"

definition altitude_and_ground :: "entry \<Rightarrow> (real option \<times> bool option) result" where
  "altitude_and_ground e =
     (let raw = get_item_default e ''alt_baro'' (get_item e ''altitude'')
      in case raw of
           JStr s \<Rightarrow>
             Inr (if py_lower (py_strip s) = GROUND_SENTINEL then (None, Some True) else (None, None))
         | _ \<Rightarrow> bindE (altitude_ft raw) (\<lambda>altitude. Inr (case altitude of
                  None \<Rightarrow> (None, None)
                | Some a \<Rightarrow> (Some a, Some False))))"

fun first_rate :: "entry \<Rightarrow> string list \<Rightarrow> real option result" where
  "first_rate e [] = Inr None"
| "first_rate e (k # ks) = (case map_of e k of
       None \<Rightarrow> first_rate e ks
     | Some v \<Rightarrow> bindE (vertical_rate_fpm v) (\<lambda>rate. case rate of
         Some r \<Rightarrow> Inr (Some r)
       | None \<Rightarrow> first_rate e ks))"

definition vertical_rate :: "entry \<Rightarrow> real option result" where
  "vertical_rate e = first_rate e [''baro_rate'', ''vert_rate'', ''geom_rate'']"

definition entry_position :: "entry \<Rightarrow> position option result" where
  "entry_position e =
     bindE (latitude (get_item e ''lat'')) (\<lambda>lat.
     bindE (longitude (get_item e ''lon'')) (\<lambda>lon.
     Inr (case (lat, lon) of
            (Some a, Some b) \<Rightarrow> Some \<lparr>pos_lat = a, pos_lon = b\<rparr>
          | _ \<Rightarrow> None)))"

text \<open>Subtracting from an instant leaves the range of \<^verbatim>\<open>datetime\<close> below the year 1.\<close>

definition DATETIME_MIN :: datetime where "DATETIME_MIN = - 62135596800000000"

definition observation_time :: "datetime \<Rightarrow> real option \<Rightarrow> datetime result" where
  "observation_time reference seen = (case seen of
       None \<Rightarrow> Inr reference
     | Some s \<Rightarrow>
         let t = reference - timedelta_us s
         in if t < DATETIME_MIN then Inl OverflowError else Inr t)"

section \<open>One entry\<close>

definition build_update :: "entry \<Rightarrow> string \<Rightarrow> datetime \<Rightarrow> aircraft_update result" where
  "build_update e icao reference =
     bindE (entry_position e) (\<lambda>position.
     bindE (altitude_and_ground e) (\<lambda>(altitude, on_ground).
     bindE (age_s (get_item e ''seen'')) (\<lambda>seen.
     bindE (observation_time reference seen) (\<lambda>timestamp.
     bindE (altitude_ft (get_item e ''alt_geom'')) (\<lambda>geometric.
     bindE (ground_speed_kt (get_item_default e ''gs'' (get_item e ''speed''))) (\<lambda>speed.
     bindE (track_deg (get_item e ''track'')) (\<lambda>track.
     bindE (vertical_rate e) (\<lambda>rate.
     bindE (rssi_db (get_item e ''rssi'')) (\<lambda>rssi.
     bindE (message_count (get_item e ''messages'')) (\<lambda>messages.
     bindE (age_s (get_item e ''seen_pos'')) (\<lambda>seen_pos.
     bindE (selected_altitude e) (\<lambda>selected.
     make_update True
       \<lparr>au_icao = icao,
        au_timestamp = timestamp,
        au_position_source = classify_position_source e (position \<noteq> None),
        au_callsign = as_text (get_item e ''flight''),
        au_squawk = octal_squawk (get_item e ''squawk''),
        au_position = position,
        au_altitude_ft = altitude,
        au_altitude_geometric_ft = geometric,
        au_ground_speed_kt = speed,
        au_track_deg = track,
        au_vertical_rate_fpm = rate,
        au_on_ground = on_ground,
        au_rssi_db = rssi,
        au_messages = messages,
        au_seen_s = seen,
        au_seen_pos_s = seen_pos,
        au_emitter_category = emitter_category (get_item e ''category''),
        au_selected_altitude_ft = selected,
        au_decoder_emergency = decoder_emergency (get_item e ''emergency'')\<rparr>))))))))))))"

section \<open>The document\<close>

definition document_parts :: "json \<Rightarrow> (entry \<times> json list) result" where
  "document_parts payload = (case payload of
       JObj document \<Rightarrow> (case get_item document ''aircraft'' of
           JNull \<Rightarrow> Inl DecoderParseError
         | JArr raw_aircraft \<Rightarrow> Inr (document, raw_aircraft)
         | _ \<Rightarrow> Inl DecoderParseError)
     | _ \<Rightarrow> Inl DecoderParseError)"

definition document_timestamp :: "entry \<Rightarrow> datetime \<Rightarrow> datetime result" where
  "document_timestamp document received_at =
     bindE (unix_time_s (get_item document ''now'')) (\<lambda>seconds. Inr (case seconds of
       None \<Rightarrow> received_at
     | Some s \<Rightarrow> timedelta_us s))"

text \<open>The loop over the entries, with its three accumulators.\<close>

type_synonym parse_acc = "aircraft_update list \<times> nat \<times> nat"

fun parse_loop :: "datetime \<Rightarrow> json list \<Rightarrow> parse_acc \<Rightarrow> parse_acc result" where
  "parse_loop ts [] acc = Inr acc"
| "parse_loop ts (JObj e # es) (updates, skipped, skipped_non_icao) =
     (case address (get_item e ''hex'') of
        (_, True) \<Rightarrow> parse_loop ts es (updates, skipped, Suc skipped_non_icao)
      | (None, False) \<Rightarrow> parse_loop ts es (updates, Suc skipped, skipped_non_icao)
      | (Some icao, False) \<Rightarrow> (case build_update e icao ts of
            Inr u \<Rightarrow> parse_loop ts es (updates @ [u], skipped, skipped_non_icao)
          | Inl x \<Rightarrow>
              if x = ValueError \<or> x = TypeError \<or> x = OverflowError
              then parse_loop ts es (updates, Suc skipped, skipped_non_icao)
              else Inl x))"
| "parse_loop ts (_ # es) (updates, skipped, skipped_non_icao) =
     parse_loop ts es (updates, Suc skipped, skipped_non_icao)"

definition parse_document :: "json \<Rightarrow> datetime \<Rightarrow> aircraft_batch result" where
  "parse_document payload received_at =
     bindE (document_parts payload) (\<lambda>(document, raw_aircraft).
     bindE (document_timestamp document received_at) (\<lambda>timestamp.
     bindE (parse_loop timestamp raw_aircraft ([], 0, 0)) (\<lambda>(updates, skipped, non_icao).
     make_batch True
       \<lparr>ab_timestamp = timestamp, ab_updates = updates, ab_skipped = skipped,
        ab_skipped_non_icao = non_icao\<rparr>)))"

fun object_entries :: "json list \<Rightarrow> entry list" where
  "object_entries [] = []"
| "object_entries (JObj e # vs) = e # object_entries vs"
| "object_entries (_ # vs) = object_entries vs"

definition present_markers :: "string list \<Rightarrow> entry list \<Rightarrow> string list" where
  "present_markers names entries =
     sort (filter (\<lambda>f. list_ex (\<lambda>e. map_of e f \<noteq> None) entries) names)"

fun count_positioned :: "entry list \<Rightarrow> nat result" where
  "count_positioned [] = Inr 0"
| "count_positioned (e # es) =
     bindE (entry_position e) (\<lambda>p.
     bindE (count_positioned es) (\<lambda>n. Inr (if p \<noteq> None then Suc n else n)))"

definition probe_document :: "json \<Rightarrow> datetime \<Rightarrow> decoder_probe result" where
  "probe_document payload received_at =
     bindE (document_parts payload) (\<lambda>(document, raw_aircraft).
     let entries = object_entries raw_aircraft;
         readsb = present_markers READSB_MARKER_FIELDS entries;
         legacy = present_markers DUMP1090_LEGACY_MARKER_FIELDS entries;
         markers = (if readsb = [] then legacy else readsb);
         flavor = (if readsb \<noteq> [] then ReadsbFlavor
                   else if legacy \<noteq> [] then Dump1090FaFlavor else UnknownFlavor)
     in bindE (count_positioned entries) (\<lambda>positioned.
        bindE (document_timestamp document received_at) (\<lambda>timestamp.
        Inr \<lparr>dp_aircraft_count = length raw_aircraft, dp_positioned_count = positioned,
             dp_timestamp = timestamp, dp_flavor = flavor, dp_markers = markers\<rparr>)))"

section \<open>What each field reader returns\<close>

definition has_huge_int :: "entry \<Rightarrow> bool" where
  "has_huge_int e \<longleftrightarrow> (\<exists>k v. map_of e k = Some v \<and> huge_int v)"

lemma huge_int_get_item: "huge_int (get_item e k) \<Longrightarrow> has_huge_int e"
  by (auto simp: has_huge_int_def get_item_def huge_int_def split: option.splits)

lemma huge_int_get_item_default:
  "huge_int (get_item_default e k (get_item e k')) \<Longrightarrow> has_huge_int e"
  by (auto simp: has_huge_int_def get_item_def get_item_default_def huge_int_def split: option.splits)

lemma first_rate_Inl: "first_rate e ks = Inl x \<Longrightarrow> x = OverflowError \<and> has_huge_int e"
proof (induction ks)
  case (Cons k ks)
  then show ?case
    by (auto simp: bindE_Inl_iff vertical_rate_fpm_def bounded_Inl_iff has_huge_int_def
        split: option.splits)
qed simp

lemma vertical_rate_Inl: "vertical_rate e = Inl x \<Longrightarrow> x = OverflowError \<and> has_huge_int e"
  unfolding vertical_rate_def by (rule first_rate_Inl)

lemma selected_altitude_Inl: "selected_altitude e = Inl x \<Longrightarrow> x = OverflowError \<and> has_huge_int e"
  by (auto simp: selected_altitude_def bindE_Inl_iff altitude_ft_def bounded_Inl_iff
      split: option.splits dest: huge_int_get_item)

lemma entry_position_Inl: "entry_position e = Inl x \<Longrightarrow> x = OverflowError \<and> has_huge_int e"
  by (auto simp: entry_position_def bindE_Inl_iff latitude_def longitude_def bounded_Inl_iff
      dest: huge_int_get_item)

lemma altitude_and_ground_Inl:
  "altitude_and_ground e = Inl x \<Longrightarrow> x = OverflowError \<and> has_huge_int e"
  using huge_int_get_item_default [of e "''alt_baro''" "''altitude''"]
  by (auto simp: altitude_and_ground_def Let_def bindE_Inl_iff altitude_ft_def bounded_Inl_iff
      split: json.splits)

definition position_ok :: "position \<Rightarrow> bool" where
  "position_ok p \<longleftrightarrow> - 90 \<le> pos_lat p \<and> pos_lat p \<le> 90 \<and> - 180 \<le> pos_lon p \<and> pos_lon p \<le> 180"

lemma entry_position_ok: "entry_position e = Inr p \<Longrightarrow> opt_all position_ok p"
  by (cases p) (auto simp: entry_position_def bindE_Inr_iff latitude_def longitude_def
      position_ok_def bound_consts split: option.split_asm dest!: bounded_Some)

lemma altitude_and_ground_ok:
  "altitude_and_ground e = Inr (a, g) \<Longrightarrow>
     opt_all (\<lambda>x. MIN_ALTITUDE_FT \<le> x \<and> x \<le> MAX_ALTITUDE_FT) a \<and>
     (a \<noteq> None \<longleftrightarrow> g = Some False)"
  by (auto simp: altitude_and_ground_def Let_def bindE_Inr_iff altitude_ft_def
      split: json.splits option.splits if_splits dest!: bounded_opt_all)

lemma selected_altitude_ok:
  "selected_altitude e = Inr a \<Longrightarrow> opt_all (\<lambda>x. MIN_ALTITUDE_FT \<le> x \<and> x \<le> MAX_ALTITUDE_FT) a"
  by (auto simp: selected_altitude_def bindE_Inr_iff altitude_ft_def
      split: option.splits dest!: bounded_opt_all)

lemma first_rate_ok:
  "first_rate e ks = Inr r \<Longrightarrow>
     opt_all (\<lambda>x. - MAX_ABS_VERTICAL_RATE_FPM \<le> x \<and> x \<le> MAX_ABS_VERTICAL_RATE_FPM) r"
proof (induction ks)
  case (Cons k ks)
  then show ?case
    by (auto simp: bindE_Inr_iff vertical_rate_fpm_def split: option.splits dest!: bounded_opt_all)
qed simp

lemma octal_squawk_ok:
  "opt_all (\<lambda>s. length s = 4 \<and> list_all (\<lambda>c. c \<in> set ''01234567'') s) (octal_squawk v)"
  by (auto simp: octal_squawk_def list_ex_iff list_all_iff split: option.split)

lemma emitter_category_ok: "opt_all is_emitter_category (emitter_category v)"
  by (auto simp: emitter_category_def Let_def split: option.split)

lemma decoder_emergency_ok: "opt_all (\<lambda>x. x \<in> set DECODER_EMERGENCIES) (decoder_emergency v)"
  by (auto simp: decoder_emergency_def DECODER_EMERGENCY_VALUES_def DECODER_EMERGENCIES_def
      split: option.split)

lemma address_ok:
  "address v = (Some icao, non) \<Longrightarrow> length icao = 6 \<and> list_all is_hex_digit icao \<and> \<not> non"
  by (auto simp: address_def Let_def list_ex_iff list_all_iff split: option.splits if_splits)

lemma address_non_icao: "address v = (a, True) \<Longrightarrow> a = None"
  by (auto simp: address_def Let_def split: option.splits if_splits)

lemma classify_none_iff: "classify_position_source e hp = SrcNone \<longleftrightarrow> \<not> hp"
  by (auto simp: classify_position_source_def Let_def)

lemma observation_time_le:
  assumes "observation_time r s = Inr t" "opt_all (\<lambda>x. 0 \<le> x) s"
  shows "t \<le> r"
  using assms timedelta_us_nonneg
  by (auto simp: observation_time_def Let_def split: option.splits if_splits)

section \<open>One entry\<close>

text \<open>The quality of an accepted update: identity, ranges, and the agreement between fields.\<close>

definition update_sane :: "datetime \<Rightarrow> aircraft_update \<Rightarrow> bool" where
  "update_sane ts u \<longleftrightarrow>
     update_wf u \<and> length (au_icao u) = 6 \<and> list_all is_hex_digit (au_icao u) \<and>
     au_timestamp u \<le> ts \<and>
     opt_all position_ok (au_position u) \<and>
     (au_position_source u = SrcNone \<longleftrightarrow> au_position u = None) \<and>
     opt_all (\<lambda>x. - 2000 \<le> x \<and> x \<le> 100000) (au_altitude_ft u) \<and>
     opt_all (\<lambda>x. - 2000 \<le> x \<and> x \<le> 100000) (au_altitude_geometric_ft u) \<and>
     opt_all (\<lambda>x. - 2000 \<le> x \<and> x \<le> 100000) (au_selected_altitude_ft u) \<and>
     opt_all (\<lambda>x. 0 \<le> x \<and> x \<le> 2500) (au_ground_speed_kt u) \<and>
     opt_all (\<lambda>x. 0 \<le> x \<and> x < 360) (au_track_deg u) \<and>
     opt_all (\<lambda>x. - 60000 \<le> x \<and> x \<le> 60000) (au_vertical_rate_fpm u) \<and>
     opt_all (\<lambda>x. - 60 \<le> x \<and> x \<le> 10) (au_rssi_db u) \<and>
     opt_all (\<lambda>n. 0 \<le> n) (au_messages u) \<and>
     opt_all (\<lambda>x. 0 \<le> x \<and> x \<le> 86400) (au_seen_s u) \<and>
     opt_all (\<lambda>x. 0 \<le> x \<and> x \<le> 86400) (au_seen_pos_s u) \<and>
     opt_all (\<lambda>s. length s = 4 \<and> list_all (\<lambda>c. c \<in> set ''01234567'') s) (au_squawk u) \<and>
     (au_altitude_ft u \<noteq> None \<longleftrightarrow> au_on_ground u = Some False)"

lemma build_update_sane:
  assumes "build_update e icao ts = Inr u" "length icao = 6" "list_all is_hex_digit icao"
  shows "update_sane ts u \<and> au_icao u = icao"
proof -
  from assms(1) obtain p a g seen t geo gs tr vr rssi msgs sp sel where
    parts: "entry_position e = Inr p" "altitude_and_ground e = Inr (a, g)"
      "age_s (get_item e ''seen'') = Inr seen" "observation_time ts seen = Inr t"
      "altitude_ft (get_item e ''alt_geom'') = Inr geo"
      "ground_speed_kt (get_item_default e ''gs'' (get_item e ''speed'')) = Inr gs"
      "track_deg (get_item e ''track'') = Inr tr" "vertical_rate e = Inr vr"
      "rssi_db (get_item e ''rssi'') = Inr rssi"
      "message_count (get_item e ''messages'') = Inr msgs"
      "age_s (get_item e ''seen_pos'') = Inr sp" "selected_altitude e = Inr sel"
    and u: "u = \<lparr>au_icao = icao, au_timestamp = t,
        au_position_source = classify_position_source e (p \<noteq> None),
        au_callsign = as_text (get_item e ''flight''),
        au_squawk = octal_squawk (get_item e ''squawk''), au_position = p, au_altitude_ft = a,
        au_altitude_geometric_ft = geo, au_ground_speed_kt = gs, au_track_deg = tr,
        au_vertical_rate_fpm = vr, au_on_ground = g, au_rssi_db = rssi, au_messages = msgs,
        au_seen_s = seen, au_seen_pos_s = sp,
        au_emitter_category = emitter_category (get_item e ''category''),
        au_selected_altitude_ft = sel,
        au_decoder_emergency = decoder_emergency (get_item e ''emergency'')\<rparr>"
    and wf: "update_wf u"
    unfolding build_update_def by (auto simp: bindE_Inr_iff make_update_Inr_iff)
  have ages: "opt_all (\<lambda>x. 0 \<le> x \<and> x \<le> 86400) seen" "opt_all (\<lambda>x. 0 \<le> x \<and> x \<le> 86400) sp"
    using parts(3,11) by (auto simp: age_s_def bound_consts dest!: bounded_opt_all)
  then have "t \<le> ts"
    using parts(4) by (auto intro!: observation_time_le simp: opt_all_def split: option.splits)
  moreover note parts(1)[THEN entry_position_ok] parts(2)[THEN altitude_and_ground_ok]
    parts(12)[THEN selected_altitude_ok] parts(7)[THEN track_deg_opt_all]
    parts(8)[unfolded vertical_rate_def, THEN first_rate_ok] octal_squawk_ok
    parts(5)[unfolded altitude_ft_def, THEN bounded_opt_all]
    parts(6)[unfolded ground_speed_kt_def, THEN bounded_opt_all]
    parts(9)[unfolded rssi_db_def, THEN bounded_opt_all]
    parts(10)[unfolded message_count_def, THEN bounded_int_opt_all]
  ultimately show ?thesis
    using wf ages assms(2,3) unfolding update_sane_def
    by (simp add: u classify_none_iff bound_consts)
qed

text \<open>
  Construction cannot fail for a validated address, so the only exception is the conversion of an
  integer too large for a double, when the reference instant is past the first day of the year 1.
\<close>

lemma build_update_Inl:
  assumes "build_update e icao ts = Inl x" "length icao = 6" "list_all is_hex_digit icao"
    and "DATETIME_MIN + 86400000000 \<le> ts"
  shows "x = OverflowError \<and> has_huge_int e"
proof -
  have time: "observation_time ts s \<noteq> Inl y"
    if "age_s (get_item e k) = Inr s" for s k y
  proof (cases s)
    case (Some r)
    with that have "r \<le> 86400" by (auto simp: age_s_def bound_consts dest!: bounded_opt_all)
    then have "timedelta_us r \<le> 86400000000"
      unfolding timedelta_us_def by (intro py_round_le_of_int) simp
    with assms(4) Some show ?thesis by (simp add: observation_time_def Let_def)
  qed (simp add: observation_time_def)
  have made: "make_update True u \<noteq> Inl y"
    if "update_wf u" for u y
    using that by (simp add: make_update_Inr_iff [of True u u, THEN iffD2])
  show ?thesis
    using assms(1-3) time made unfolding build_update_def
    by (auto simp: bindE_Inl_iff bounded_field_defs message_count_def field_Inl_iff
        update_wf_def classify_none_iff matches_icao_re_lowercase_hex
        emitter_category_ok decoder_emergency_ok
        dest: entry_position_Inl altitude_and_ground_Inl vertical_rate_Inl selected_altitude_Inl
          huge_int_get_item huge_int_get_item_default)
qed

section \<open>The document\<close>

lemma build_update_caught:
  "build_update e icao ts = Inl x \<Longrightarrow> x = ValueError \<or> x = OverflowError"
  unfolding build_update_def
  by (auto simp: bindE_Inl_iff bounded_field_defs message_count_def field_Inl_iff
      observation_time_def Let_def
      dest: entry_position_Inl altitude_and_ground_Inl vertical_rate_Inl selected_altitude_Inl
        make_update_Inl split: option.splits if_splits)

text \<open>What the loop decides for each entry on its own, and the batch those decisions make.\<close>

datatype entry_outcome = Accepted aircraft_update | Unusable | NonIcao

definition entry_outcome :: "datetime \<Rightarrow> json \<Rightarrow> entry_outcome" where
  "entry_outcome ts v = (case v of
       JObj e \<Rightarrow> (case address (get_item e ''hex'') of
           (_, True) \<Rightarrow> NonIcao
         | (None, False) \<Rightarrow> Unusable
         | (Some icao, False) \<Rightarrow> (case build_update e icao ts of
               Inr u \<Rightarrow> Accepted u
             | Inl _ \<Rightarrow> Unusable))
     | _ \<Rightarrow> Unusable)"

fun accepted :: "entry_outcome list \<Rightarrow> aircraft_update list" where
  "accepted [] = []"
| "accepted (Accepted u # os) = u # accepted os"
| "accepted (_ # os) = accepted os"

lemma accepted_append [simp]: "accepted (xs @ ys) = accepted xs @ accepted ys"
  by (induction xs rule: accepted.induct) simp_all

lemma accepted_mem: "u \<in> set (accepted os) \<longleftrightarrow> Accepted u \<in> set os"
  by (induction os rule: accepted.induct) auto

lemma accepted_count:
  "length (accepted os) + count_list os Unusable + count_list os NonIcao = length os"
  by (induction os rule: accepted.induct) auto

definition batch_of :: "datetime \<Rightarrow> entry_outcome list \<Rightarrow> aircraft_batch" where
  "batch_of ts os =
     \<lparr>ab_timestamp = ts, ab_updates = accepted os, ab_skipped = count_list os Unusable,
      ab_skipped_non_icao = count_list os NonIcao\<rparr>"

lemma parse_loop_outcomes:
  "parse_loop ts es (us, sk, ni) =
     Inr (us @ accepted (map (entry_outcome ts) es),
          sk + count_list (map (entry_outcome ts) es) Unusable,
          ni + count_list (map (entry_outcome ts) es) NonIcao)"
proof (induction es arbitrary: us sk ni)
  case (Cons v es)
  then show ?case
    by (cases v)
       (auto simp: entry_outcome_def dest: build_update_caught
         split: prod.split option.split bool.split sum.split)
qed simp

lemma parse_document_outcomes:
  "parse_document payload received_at =
     bindE (document_parts payload) (\<lambda>(document, raw).
     bindE (document_timestamp document received_at) (\<lambda>ts.
     Inr (batch_of ts (map (entry_outcome ts) raw))))"
  by (auto simp: parse_document_def parse_loop_outcomes make_batch_def batch_of_def
      bindE_def split: sum.split)

lemma entry_outcome_sane: "entry_outcome ts v = Accepted u \<Longrightarrow> update_sane ts u"
  by (auto simp: entry_outcome_def split: json.splits prod.splits bool.splits option.splits sum.splits
      dest!: address_ok build_update_sane)

lemma document_timestamp_Inl_iff:
  "document_timestamp d r = Inl x \<longleftrightarrow> x = OverflowError \<and> huge_int (get_item d ''now'')"
  by (auto simp: document_timestamp_def bindE_Inl_iff unix_time_s_def bounded_Inl_iff)

lemma document_parts_Inl: "document_parts p = Inl x \<Longrightarrow> x = DecoderParseError"
  by (auto simp: document_parts_def split: json.splits)

section \<open>Properties\<close>

text \<open>
  Parsing an aircraft document is entry by entry: once the envelope and the clock
  are read, the batch is the updates of the accepted entries in document order, and the two
  counters are the numbers of unusable and of non-ICAO entries. One entry never affects another.
\<close>

theorem parse_document_entrywise:
  "parse_document payload received_at =
     bindE (document_parts payload) (\<lambda>(document, raw).
     bindE (document_timestamp document received_at) (\<lambda>ts.
     Inr \<lparr>ab_timestamp = ts,
          ab_updates = accepted (map (entry_outcome ts) raw),
          ab_skipped = count_list (map (entry_outcome ts) raw) Unusable,
          ab_skipped_non_icao = count_list (map (entry_outcome ts) raw) NonIcao\<rparr>))"
  using parse_document_outcomes [of payload received_at] by (simp add: batch_of_def)

text \<open>
  Every entry is accounted for exactly once: the updates and the two counters of a
  batch add up to the length of the document's aircraft array.
\<close>

theorem parse_document_accounts:
  assumes "parse_document (JObj document) received_at = Inr b"
    and "get_item document ''aircraft'' = JArr raw"
  shows "length (ab_updates b) + ab_skipped b + ab_skipped_non_icao b = length raw"
  using assms accepted_count [of "map (entry_outcome (ab_timestamp b)) raw"]
  by (auto simp: parse_document_outcomes document_parts_def bindE_Inr_iff batch_of_def)

text \<open>
  Property C25. Whatever the decoder serves, every update of a batch is well formed: a six-digit
  lower-case address, a source that says "none" exactly when there is no position, every number
  inside its plausibility bounds with the track below 360, an octal squawk, an observation no
  later than the document's clock, and an altitude exactly when the decoder says airborne.
\<close>

theorem parse_document_sane:
  assumes "parse_document payload received_at = Inr b" and "u \<in> set (ab_updates b)"
  shows "update_sane (ab_timestamp b) u"
  using assms
  by (auto simp: parse_document_outcomes bindE_Inr_iff batch_of_def accepted_mem
      dest: entry_outcome_sane [OF sym])

text \<open>
  The only failures of a whole document: an envelope that is not an object with an
  aircraft array, and a clock that is an integer too large for a double (which raises instead of
  falling back to the time of receipt).
\<close>

theorem parse_document_failures:
  "parse_document payload received_at = Inl x \<longleftrightarrow>
     document_parts payload = Inl x \<and> x = DecoderParseError \<or>
     (\<exists>document raw. document_parts payload = Inr (document, raw) \<and>
        huge_int (get_item document ''now'') \<and> x = OverflowError)"
  using document_parts_Inl
  by (auto simp: parse_document_outcomes bindE_Inl_iff document_timestamp_Inl_iff
      split: prod.splits)

text \<open>
  An entry with a valid ICAO address is dropped only when one of its fields is an
  integer too large for a double; no other combination of field values loses the aircraft.
\<close>

theorem entry_dropped_only_for_huge_integer:
  assumes "entry_outcome ts (JObj e) = Unusable"
    and "address (get_item e ''hex'') = (Some icao, False)"
    and "DATETIME_MIN + 86400000000 \<le> ts"
  shows "has_huge_int e"
  using assms
  by (auto simp: entry_outcome_def split: sum.splits dest!: address_ok build_update_Inl)

section \<open>Witnesses\<close>

definition sample_aircraft :: "json list" where
  "sample_aircraft =
     [JObj [(''hex'', JStr ''A1b2C3 ''), (''lat'', JFloat (91 / 2)), (''lon'', JInt 9),
            (''alt_baro'', JInt 35000), (''squawk'', JStr ''7700''), (''seen'', JFloat (3 / 2)),
            (''category'', JStr ''a3''), (''type'', JStr ''adsb_icao'')],
      JObj [(''hex'', JStr ''~2f0001'')],
      JObj [(''hex'', JStr ''400abc''), (''alt_baro'', JStr ''ground'')],
      JInt 7]"

definition sample_fields :: entry where
  "sample_fields = [(''now'', JInt 1700000000), (''aircraft'', JArr sample_aircraft)]"

lemma sample_parses:
  "\<exists>b. parse_document (JObj sample_fields) 0 = Inr b \<and> ab_updates b \<noteq> []"
proof -
  have "case parse_document (JObj sample_fields) 0 of Inl _ \<Rightarrow> False | Inr b \<Rightarrow> ab_updates b \<noteq> []"
    by code_simp
  then show ?thesis by (auto split: sum.splits)
qed

theorem parse_document_accounts_witness:
  "\<exists>b. parse_document (JObj sample_fields) 0 = Inr b \<and>
     length (ab_updates b) + ab_skipped b + ab_skipped_non_icao b = 4"
proof -
  obtain b where b: "parse_document (JObj sample_fields) 0 = Inr b"
    using sample_parses by blast
  have "get_item sample_fields ''aircraft'' = JArr sample_aircraft"
    by (simp add: get_item_def sample_fields_def)
  from parse_document_accounts [OF b this] b show ?thesis
    by (simp add: sample_aircraft_def)
qed

theorem parse_document_sane_witness:
  "\<exists>b. parse_document (JObj sample_fields) 0 = Inr b \<and> update_sane (ab_timestamp b) (hd (ab_updates b))"
proof -
  obtain b where b: "parse_document (JObj sample_fields) 0 = Inr b" "ab_updates b \<noteq> []"
    using sample_parses by blast
  from parse_document_sane [OF b(1), of "hd (ab_updates b)"] b show ?thesis by simp
qed

definition overflow_fields :: entry where
  "overflow_fields = [(''hex'', JStr ''400abc''), (''rssi'', JInt (2 ^ 1024))]"

lemma overflow_outcome: "entry_outcome 0 (JObj overflow_fields) = Unusable"
  by code_simp

theorem entry_dropped_witness: "has_huge_int overflow_fields"
proof -
  have "address (get_item overflow_fields ''hex'') = (Some ''400abc'', False)"
    by code_simp
  from entry_dropped_only_for_huge_integer [OF overflow_outcome this] show ?thesis
    by (simp add: DATETIME_MIN_def)
qed

end
