(* ===== verification/Health.thy ===== *)
theory Health
  imports Prelude
begin

text \<open>
  \<^verbatim>\<open>ingest/health.py\<close>: the decoder connection state machine and its reconnect backoff. The
  clock, the random draw of the jitter and the failure reason are arguments of the operations;
  the \<^verbatim>\<open>on_transition\<close> callback is the second component of their result, the transition to
  report if there is one.
\<close>

section \<open>State\<close>

datatype health_state = Connected | Degraded | Down

record adapter_health =
  ah_state :: health_state
  ah_consecutive_failures :: nat
  ah_failures_since_success :: nat
  ah_total_failures :: nat
  ah_total_successes :: nat
  ah_last_success :: "datetime option"
  ah_last_failure :: "datetime option"
  ah_last_error :: "string option"
  ah_next_retry_delay_s :: "real option"

record health_tracker =
  ht_down_after :: nat
  ht_health :: adapter_health

type_synonym health_transition = "health_state \<times> health_state \<times> adapter_health"

definition DOWN_AFTER_CONSECUTIVE_FAILURES :: nat where "DOWN_AFTER_CONSECUTIVE_FAILURES = 4"
definition BACKOFF_INITIAL_S :: real where "BACKOFF_INITIAL_S = 1"
definition BACKOFF_FACTOR :: real where "BACKOFF_FACTOR = 2"
definition BACKOFF_MAX_S :: real where "BACKOFF_MAX_S = 60"
definition BACKOFF_JITTER_RATIO :: real where "BACKOFF_JITTER_RATIO = 1 / 2"

lemmas backoff_defs =
  BACKOFF_INITIAL_S_def BACKOFF_FACTOR_def BACKOFF_MAX_S_def BACKOFF_JITTER_RATIO_def

definition fresh_health :: adapter_health where
  "fresh_health =
     \<lparr>ah_state = Down, ah_consecutive_failures = 0, ah_failures_since_success = 0,
      ah_total_failures = 0, ah_total_successes = 0, ah_last_success = None,
      ah_last_failure = None, ah_last_error = None, ah_next_retry_delay_s = None\<rparr>"

definition new_tracker :: "nat \<Rightarrow> health_tracker result" where
  "new_tracker down_after =
     (if down_after < 1 then Inl ValueError
      else Inr \<lparr>ht_down_after = down_after, ht_health = fresh_health\<rparr>)"

definition is_connected :: "adapter_health \<Rightarrow> bool" where
  "is_connected h \<longleftrightarrow> ah_state h = Connected"

definition has_ever_connected :: "adapter_health \<Rightarrow> bool" where
  "has_ever_connected h \<longleftrightarrow> 0 < ah_total_successes h"

section \<open>Operations\<close>

definition retry_delay_s :: "nat \<Rightarrow> real \<Rightarrow> real" where
  "retry_delay_s failures draw =
     (let exponent = max (int failures - 1) 0;
          capped_exponent = min exponent 32;
          delay = min (BACKOFF_INITIAL_S * BACKOFF_FACTOR ^ nat capped_exponent) BACKOFF_MAX_S;
          fixed = delay * (1 - BACKOFF_JITTER_RATIO)
      in fixed + draw * (delay - fixed))"

definition update_health ::
  "adapter_health \<Rightarrow> health_tracker \<Rightarrow> health_tracker \<times> health_transition option" where
  "update_health health t =
     (let previous = ah_state (ht_health t)
      in (t\<lparr>ht_health := health\<rparr>,
          if previous \<noteq> ah_state health then Some (previous, ah_state health, health) else None))"

definition record_success ::
  "datetime \<Rightarrow> health_tracker \<Rightarrow> health_tracker \<times> health_transition option" where
  "record_success now t =
     update_health
       ((ht_health t)\<lparr>ah_state := Connected, ah_consecutive_failures := 0,
          ah_failures_since_success := 0,
          ah_total_successes := ah_total_successes (ht_health t) + 1,
          ah_last_success := Some now, ah_last_error := None, ah_next_retry_delay_s := None\<rparr>) t"

definition record_failure ::
  "string \<Rightarrow> datetime \<Rightarrow> real \<Rightarrow> health_tracker \<Rightarrow> health_tracker \<times> health_transition option" where
  "record_failure error now draw t =
     (let consecutive = ah_consecutive_failures (ht_health t) + 1;
          state = (if ht_down_after t \<le> consecutive then Down else Degraded)
      in update_health
           ((ht_health t)\<lparr>ah_state := state, ah_consecutive_failures := consecutive,
              ah_failures_since_success := ah_failures_since_success (ht_health t) + 1,
              ah_total_failures := ah_total_failures (ht_health t) + 1,
              ah_last_failure := Some now, ah_last_error := Some error,
              ah_next_retry_delay_s := Some (retry_delay_s consecutive draw)\<rparr>) t)"

lemmas health_op_defs = record_success_def record_failure_def update_health_def Let_def

section \<open>Runs of poll outcomes\<close>

datatype poll_event = PollSucceeded datetime | PollFailed string datetime real

fun health_step :: "poll_event \<Rightarrow> health_tracker \<Rightarrow> health_tracker" where
  "health_step (PollSucceeded now) t = fst (record_success now t)"
| "health_step (PollFailed error now draw) t = fst (record_failure error now draw t)"

definition health_run :: "poll_event list \<Rightarrow> health_tracker \<Rightarrow> health_tracker" where
  "health_run es t = fold health_step es t"

fun is_failure :: "poll_event \<Rightarrow> bool" where
  "is_failure (PollFailed _ _ _) = True"
| "is_failure (PollSucceeded _) = False"

definition trailing_failures :: "poll_event list \<Rightarrow> nat" where
  "trailing_failures es = length (takeWhile is_failure (rev es))"

lemma trailing_failures_simps [simp]:
  "trailing_failures [] = 0"
  "trailing_failures (es @ [e]) = (if is_failure e then Suc (trailing_failures es) else 0)"
  by (simp_all add: trailing_failures_def)

lemma health_run_simps [simp]:
  "health_run [] t = t"
  "health_run (es @ [e]) t = health_step e (health_run es t)"
  by (simp_all add: health_run_def)

lemma health_step_down_after [simp]: "ht_down_after (health_step e t) = ht_down_after t"
  by (cases e) (simp_all add: health_op_defs)

lemma health_run_down_after [simp]: "ht_down_after (health_run es t) = ht_down_after t"
  by (induction es rule: rev_induct) simp_all

section \<open>An interface: machines that count consecutive failures\<close>

text \<open>
  What the poll loop relies on, here and in every other component that declares something down
  after a run of failures: a success ends the run, a failure extends it by one, and "down" after
  a failure means that the run has reached the threshold.
\<close>

locale failure_run =
  fixes good :: "'o \<Rightarrow> 's \<Rightarrow> 's" and bad :: "'e \<Rightarrow> 's \<Rightarrow> 's"
    and run :: "'s \<Rightarrow> nat" and down :: "'s \<Rightarrow> bool" and threshold :: "'s \<Rightarrow> nat"
    and inv :: "'s \<Rightarrow> bool"
  assumes run_good: "run (good p s) = 0"
    and run_bad: "run (bad q s) = Suc (run s)"
    and down_good: "\<not> down (good p s)"
    and down_bad: "inv s \<Longrightarrow> down (bad q s) \<longleftrightarrow> threshold s \<le> Suc (run s)"
    and threshold_good: "threshold (good p s) = threshold s"
    and threshold_bad: "threshold (bad q s) = threshold s"
    and inv_good: "inv s \<Longrightarrow> inv (good p s)"
    and inv_bad: "inv s \<Longrightarrow> inv (bad q s)"
begin

lemma run_fold_bad: "run (fold bad qs s) = run s + length qs"
  by (induction qs arbitrary: s) (simp_all add: run_bad)

lemma threshold_fold_bad: "threshold (fold bad qs s) = threshold s"
  by (induction qs arbitrary: s) (simp_all add: threshold_bad)

lemma inv_fold_bad: "inv s \<Longrightarrow> inv (fold bad qs s)"
  by (induction qs arbitrary: s) (simp_all add: inv_bad)

lemma down_fold_bad:
  assumes "inv s" "qs \<noteq> []"
  shows "down (fold bad qs s) \<longleftrightarrow> threshold s \<le> run s + length qs"
proof (cases qs rule: rev_cases)
  case (snoc ps q)
  then show ?thesis
    by (simp add: down_bad inv_fold_bad [OF assms(1)] run_fold_bad threshold_fold_bad)
qed (use assms in simp)

lemma down_after_recovery:
  assumes "inv s" "qs \<noteq> []"
  shows "down (fold bad qs (good p s)) \<longleftrightarrow> threshold s \<le> length qs"
  using down_fold_bad [OF inv_good [OF assms(1)] assms(2)] by (simp add: run_good threshold_good)

end

interpretation decoder_health: failure_run
  "\<lambda>now t. fst (record_success now t)"
  "\<lambda>(error, now, draw) t. fst (record_failure error now draw t)"
  "\<lambda>t. ah_consecutive_failures (ht_health t)"
  "\<lambda>t. ah_state (ht_health t) = Down"
  ht_down_after "\<lambda>_. True"
  by unfold_locales (auto simp: health_op_defs split: if_splits)

section \<open>Invariant\<close>

definition backoff_s :: "nat \<Rightarrow> real" where
  "backoff_s failures = min (2 ^ (failures - 1)) 60"

text \<open>The cap on the exponent, there to avoid a huge float, never changes the delay.\<close>

lemma retry_delay_eq:
  "retry_delay_s failures draw = backoff_s failures / 2 * (1 + draw)"
proof -
  have capped: "min (2 ^ nat (min (max (int failures - 1) 0) 32)) 60 = backoff_s failures"
  proof (cases "failures - 1 \<le> 32")
    case True
    then have eq: "nat (min (max (int failures - 1) 0) 32) = failures - 1" by linarith
    show ?thesis unfolding eq backoff_s_def by simp
  next
    case False
    then have eq: "nat (min (max (int failures - 1) 0) 32) = 32" by linarith
    from False have "(2::real) ^ 32 \<le> 2 ^ (failures - 1)" by (intro power_increasing) auto
    then have "(60::real) \<le> 2 ^ (failures - 1)" by (rule order_trans [rotated]) simp
    then show ?thesis unfolding eq backoff_s_def by (simp add: min_absorb2)
  qed
  show ?thesis
    unfolding retry_delay_s_def Let_def backoff_defs mult_1 capped by (simp add: algebra_simps)
qed

lemma backoff_s_bounds: "1 \<le> backoff_s n" "backoff_s n \<le> 60"
  by (simp_all add: backoff_s_def)

lemma backoff_s_mono: "m \<le> n \<Longrightarrow> backoff_s m \<le> backoff_s n"
  unfolding backoff_s_def by (intro min.mono power_increasing) auto

definition draws_ok :: "poll_event list \<Rightarrow> bool" where
  "draws_ok es \<longleftrightarrow> (\<forall>error now draw. PollFailed error now draw \<in> set es \<longrightarrow> 0 \<le> draw \<and> draw < 1)"

lemma draws_ok_snoc [simp]:
  "draws_ok (es @ [PollSucceeded now]) = draws_ok es"
  "draws_ok (es @ [PollFailed error now draw]) \<longleftrightarrow> draws_ok es \<and> 0 \<le> draw \<and> draw < 1"
  by (auto simp: draws_ok_def)

definition health_inv :: "nat \<Rightarrow> adapter_health \<Rightarrow> bool" where
  "health_inv down_after h \<longleftrightarrow>
     ah_consecutive_failures h = ah_failures_since_success h \<and>
     ah_consecutive_failures h \<le> ah_total_failures h \<and>
     (ah_state h = Connected \<longleftrightarrow> ah_consecutive_failures h = 0 \<and> 0 < ah_total_successes h) \<and>
     (0 < ah_consecutive_failures h \<longrightarrow>
        ah_state h = (if down_after \<le> ah_consecutive_failures h then Down else Degraded)) \<and>
     (ah_last_error h = None \<longleftrightarrow> ah_consecutive_failures h = 0) \<and>
     (ah_next_retry_delay_s h = None \<longleftrightarrow> ah_consecutive_failures h = 0) \<and>
     (ah_last_success h = None \<longleftrightarrow> ah_total_successes h = 0) \<and>
     (ah_last_failure h = None \<longleftrightarrow> ah_total_failures h = 0) \<and>
     opt_all (\<lambda>d. backoff_s (ah_consecutive_failures h) / 2 \<le> d \<and>
                  d < backoff_s (ah_consecutive_failures h)) (ah_next_retry_delay_s h)"

lemma health_inv_fresh: "health_inv n fresh_health"
  by (simp add: health_inv_def fresh_health_def)

lemma retry_delay_bounds:
  assumes "0 \<le> draw" "draw < 1"
  shows "backoff_s n \<le> retry_delay_s n draw * 2" "retry_delay_s n draw < backoff_s n"
  using assms backoff_s_bounds(1) [of n] by (simp_all add: retry_delay_eq field_simps)

lemma health_inv_success:
  "health_inv (ht_down_after t) (ht_health t) \<Longrightarrow>
     health_inv (ht_down_after t) (ht_health (fst (record_success now t)))"
  by (simp add: health_inv_def health_op_defs)

lemma health_inv_failure:
  "health_inv (ht_down_after t) (ht_health t) \<Longrightarrow> 0 \<le> draw \<Longrightarrow> draw < 1 \<Longrightarrow>
     health_inv (ht_down_after t) (ht_health (fst (record_failure error now draw t)))"
  by (simp add: health_inv_def health_op_defs retry_delay_bounds)

lemma health_inv_run:
  assumes "health_inv (ht_down_after t) (ht_health t)" "draws_ok es"
  shows "health_inv (ht_down_after t) (ht_health (health_run es t))"
  using assms
proof (induction es rule: rev_induct)
  case (snoc e es)
  then show ?case
    using health_inv_success [of "health_run es t"] health_inv_failure [of "health_run es t"]
    by (cases e) auto
qed simp

section \<open>Properties\<close>

lemma health_run_consecutive:
  assumes "ah_consecutive_failures (ht_health t) = 0"
  shows "ah_consecutive_failures (ht_health (health_run es t)) = trailing_failures es"
proof (induction es rule: rev_induct)
  case (snoc e es)
  then show ?case by (cases e) (simp_all add: health_op_defs)
qed (simp add: assms)

text \<open>
  The connection state is a function of the run of failures that ends the history:
  from a fresh tracker it is connected after a success, degraded after fewer than the threshold
  of consecutive failures, and down from the threshold on, however long the history is.
\<close>

theorem health_state_of_history:
  assumes "new_tracker n = Inr t" and "es \<noteq> []"
  shows "ah_state (ht_health (health_run es t)) =
     (if trailing_failures es = 0 then Connected
      else if n \<le> trailing_failures es then Down else Degraded)"
proof -
  from assms(1) have t: "ht_down_after t = n" "ah_consecutive_failures (ht_health t) = 0"
    by (auto simp: new_tracker_def fresh_health_def split: if_splits)
  from assms(2) obtain es' e where "es = es' @ [e]" by (cases es rule: rev_cases) auto
  then show ?thesis
    using health_run_consecutive [OF t(2), of es'] t
    by (cases e) (simp_all add: health_op_defs)
qed

theorem health_state_of_history_witness:
  "ah_state (ht_health (health_run
     [PollFailed ''a'' 0 0, PollSucceeded 1, PollFailed ''b'' 2 0, PollFailed ''c'' 3 0]
     \<lparr>ht_down_after = 2, ht_health = fresh_health\<rparr>)) = Down"
proof -
  have "new_tracker 2 = Inr \<lparr>ht_down_after = 2, ht_health = fresh_health\<rparr>"
    by (simp add: new_tracker_def)
  from health_state_of_history [OF this, of "[PollFailed ''a'' 0 0, PollSucceeded 1,
      PollFailed ''b'' 2 0, PollFailed ''c'' 3 0]"]
  show ?thesis by (simp add: trailing_failures_def)
qed

text \<open>
  Health stays consistent over any history whose jitter draws lie in [0, 1): the
  failure counters agree, the state matches them, an error and a retry delay are present exactly
  during a failure run, and the delay lies between half the capped exponential backoff and the
  whole of it (so it is positive and below a minute).
\<close>

theorem health_consistent:
  assumes "new_tracker n = Inr t" and "draws_ok es"
  shows "health_inv n (ht_health (health_run es t))"
  using assms health_inv_run [of t es] health_inv_fresh
  by (auto simp: new_tracker_def split: if_splits)

theorem health_consistent_witness:
  "health_inv 4 (ht_health (health_run [PollFailed ''a'' 0 (1 / 2), PollSucceeded 1]
     \<lparr>ht_down_after = 4, ht_health = fresh_health\<rparr>))"
  by (rule health_consistent) (simp_all add: new_tracker_def draws_ok_def)

text \<open>
  A tracker that has never completed a poll does not always report "down": the first
  failures of a fresh tracker move it to "degraded" until the threshold is reached.
\<close>

theorem never_connected_reports_degraded:
  "\<exists>t. new_tracker DOWN_AFTER_CONSECUTIVE_FAILURES = Inr t \<and>
     (let h = ht_health (health_step (PollFailed error now draw) t)
      in \<not> has_ever_connected h \<and> ah_state h = Degraded)"
  by (simp add: new_tracker_def DOWN_AFTER_CONSECUTIVE_FAILURES_def health_op_defs fresh_health_def
      has_ever_connected_def)

end
