(* ===== verification/Adapter.thy ===== *)
theory Adapter
  imports Readsb Health
begin

text \<open>
  The polling adapter of \<^verbatim>\<open>ingest/readsb.py\<close> (\<^verbatim>\<open>ReadsbJsonAdapter\<close>) and the fan-out of
  \<^verbatim>\<open>ingest/service.py\<close>. What the network answered is an input of each iteration of the loop:
  the decoded document, or the exception \<^verbatim>\<open>fetch_document\<close> raised. The effects of an iteration
  (dialling and closing the HTTP client, yielding a batch, sleeping) are the list of actions it
  returns, in order. The reason recorded for a failure is the name of the exception.
\<close>

section \<open>The adapter\<close>

record adapter =
  ad_poll_interval_s :: real
  ad_tracker :: health_tracker
  ad_client_open :: bool
  ad_stopped :: bool
  ad_ingestion_failures :: nat

datatype adapter_action =
    DialClient
  | CloseClient
  | YieldBatch aircraft_batch
  | SleepFor real

record poll_input =
  pi_fetched :: "json result"
  pi_received_at :: datetime
  pi_now :: datetime
  pi_draw :: real

fun exn_name :: "py_exn \<Rightarrow> string" where
  "exn_name ValueError = ''ValueError''"
| "exn_name OverflowError = ''OverflowError''"
| "exn_name TypeError = ''TypeError''"
| "exn_name DecoderParseError = ''DecoderParseError''"
| "exn_name DecoderUnavailableError = ''DecoderUnavailableError''"
| "exn_name StructError = ''error''"
| "exn_name UnsupportedTrackEncoding = ''UnsupportedTrackEncoding''"
| "exn_name LookupError = ''LookupError''"

definition new_adapter :: "real \<Rightarrow> health_tracker \<Rightarrow> adapter" where
  "new_adapter interval t =
     \<lparr>ad_poll_interval_s = interval, ad_tracker = t, ad_client_open = False, ad_stopped = False,
      ad_ingestion_failures = 0\<rparr>"

definition ensure_client :: "adapter \<Rightarrow> adapter \<times> adapter_action list" where
  "ensure_client a =
     (if ad_client_open a then (a, []) else (a\<lparr>ad_client_open := True\<rparr>, [DialClient]))"

definition close_client :: "adapter \<Rightarrow> adapter \<times> adapter_action list" where
  "close_client a =
     (if ad_client_open a then (a\<lparr>ad_client_open := False\<rparr>, [CloseClient]) else (a, []))"

definition start_adapter :: "adapter \<Rightarrow> adapter \<times> adapter_action list" where
  "start_adapter a = ensure_client (a\<lparr>ad_stopped := False\<rparr>)"

definition stop_adapter :: "adapter \<Rightarrow> adapter \<times> adapter_action list" where
  "stop_adapter a = close_client (a\<lparr>ad_stopped := True\<rparr>)"

definition adapter_record_failure ::
  "py_exn \<Rightarrow> datetime \<Rightarrow> real \<Rightarrow> adapter \<Rightarrow> adapter \<times> adapter_action list" where
  "adapter_record_failure x now draw a =
     (let previous = ah_state (ht_health (ad_tracker a));
          tracker = fst (record_failure (exn_name x) now draw (ad_tracker a));
          counted = a\<lparr>ad_tracker := tracker,
                      ad_ingestion_failures := Suc (ad_ingestion_failures a)\<rparr>
      in if ah_state (ht_health tracker) = Down \<and> previous \<noteq> Down
         then close_client counted else (counted, []))"

definition poll_once :: "poll_input \<Rightarrow> aircraft_batch result" where
  "poll_once i = bindE (pi_fetched i) (\<lambda>payload. parse_document payload (pi_received_at i))"

text \<open>One turn of the loop in \<^verbatim>\<open>updates()\<close>.\<close>

definition adapter_step :: "poll_input \<Rightarrow> adapter \<Rightarrow> adapter \<times> adapter_action list" where
  "adapter_step i a =
     (if ad_stopped a then (a, [])
      else
        let (a1, dialled) = ensure_client a
        in case poll_once i of
             Inl x \<Rightarrow>
               let (a2, closed) = adapter_record_failure x (pi_now i) (pi_draw i) a1;
                   delay = (case ah_next_retry_delay_s (ht_health (ad_tracker a2)) of
                              None \<Rightarrow> 0 | Some d \<Rightarrow> d)
               in (a2, dialled @ closed @ [SleepFor delay])
           | Inr batch \<Rightarrow>
               (a1\<lparr>ad_tracker := fst (record_success (pi_now i) (ad_tracker a1))\<rparr>,
                dialled @ [YieldBatch batch, SleepFor (ad_poll_interval_s a1)]))"

fun adapter_run :: "poll_input list \<Rightarrow> adapter \<Rightarrow> adapter \<times> adapter_action list" where
  "adapter_run [] a = (a, [])"
| "adapter_run (i # is) a =
     (let (a', acts) = adapter_step i a; (a'', acts') = adapter_run is a'
      in (a'', acts @ acts'))"

fun yielded :: "adapter_action list \<Rightarrow> aircraft_batch list" where
  "yielded [] = []"
| "yielded (YieldBatch b # acts) = b # yielded acts"
| "yielded (_ # acts) = yielded acts"

lemma yielded_append [simp]: "yielded (xs @ ys) = yielded xs @ yielded ys"
  by (induction xs rule: yielded.induct) simp_all

fun batches_of :: "poll_input list \<Rightarrow> aircraft_batch list" where
  "batches_of [] = []"
| "batches_of (i # is) = (case poll_once i of Inl _ \<Rightarrow> batches_of is | Inr b \<Rightarrow> b # batches_of is)"

definition poll_events :: "poll_input list \<Rightarrow> poll_event list" where
  "poll_events is = map (\<lambda>i. case poll_once i of
       Inl x \<Rightarrow> PollFailed (exn_name x) (pi_now i) (pi_draw i)
     | Inr _ \<Rightarrow> PollSucceeded (pi_now i)) is"

lemma poll_events_simps [simp]:
  "poll_events [] = []"
  "poll_events (i # is) =
     (case poll_once i of
        Inl x \<Rightarrow> PollFailed (exn_name x) (pi_now i) (pi_draw i)
      | Inr _ \<Rightarrow> PollSucceeded (pi_now i)) # poll_events is"
  by (simp_all add: poll_events_def)

lemmas adapter_defs =
  adapter_step_def adapter_record_failure_def ensure_client_def close_client_def Let_def

lemma adapter_step_running:
  assumes "\<not> ad_stopped a"
  shows "ad_tracker (fst (adapter_step i a)) = health_step (hd (poll_events [i])) (ad_tracker a)"
    "\<not> ad_stopped (fst (adapter_step i a))"
    "yielded (snd (adapter_step i a)) = batches_of [i]"
    "ad_poll_interval_s (fst (adapter_step i a)) = ad_poll_interval_s a"
  using assms by (auto simp: adapter_defs split: sum.split)

lemma adapter_run_running:
  assumes "\<not> ad_stopped a"
  shows "ad_tracker (fst (adapter_run is a)) = health_run (poll_events is) (ad_tracker a) \<and>
    \<not> ad_stopped (fst (adapter_run is a)) \<and>
    yielded (snd (adapter_run is a)) = batches_of is"
  using assms
proof (induction "is" arbitrary: a)
  case (Cons i "is")
  from Cons.IH [OF adapter_step_running(2) [OF Cons.prems]] adapter_step_running [OF Cons.prems]
  show ?case
    by (simp add: split_beta Let_def health_run_def split: sum.split)
qed (simp add: health_run_def)

section \<open>Invariant\<close>

text \<open>The ingestion counter is the tracker's failure total.\<close>

definition adapter_inv :: "adapter \<Rightarrow> bool" where
  "adapter_inv a \<longleftrightarrow>
     health_inv (ht_down_after (ad_tracker a)) (ht_health (ad_tracker a)) \<and>
     ad_ingestion_failures a = ah_total_failures (ht_health (ad_tracker a))"

lemma adapter_step_inv:
  assumes "adapter_inv a" "0 \<le> pi_draw i" "pi_draw i < 1"
  shows "adapter_inv (fst (adapter_step i a))"
proof (cases "ad_stopped a \<or> (\<exists>b. poll_once i = Inr b)")
  case True
  with assms(1) health_inv_success [of "ad_tracker a" "pi_now i"] show ?thesis
    by (auto simp: adapter_inv_def adapter_defs record_success_def update_health_def)
next
  case False
  then obtain x where x: "\<not> ad_stopped a" "poll_once i = Inl x"
    by (cases "poll_once i") auto
  with assms health_inv_failure [of "ad_tracker a" "pi_draw i" "exn_name x" "pi_now i"]
  show ?thesis
    by (auto simp: adapter_inv_def adapter_defs record_failure_def update_health_def)
qed

lemma stop_start_adapter_inv:
  "adapter_inv a \<Longrightarrow> adapter_inv (fst (stop_adapter a))"
  "adapter_inv a \<Longrightarrow> adapter_inv (fst (start_adapter a))"
  by (simp_all add: adapter_inv_def stop_adapter_def start_adapter_def close_client_def
      ensure_client_def)

section \<open>The service\<close>

text \<open>
  A consumer acts on a state \<open>'w\<close> of its own choosing and may raise; what it did before raising
  stays done. \<open>dispatch\<close> runs the consumers in order and counts the ones that raised.
\<close>

type_synonym 'w consumer = "aircraft_batch \<Rightarrow> 'w \<Rightarrow> 'w \<times> py_exn option"

definition null_sink :: "'w consumer" where
  "null_sink batch w = (w, None)"

record ingestion_service =
  is_batches :: nat
  is_updates :: nat

fun dispatch :: "'w consumer list \<Rightarrow> aircraft_batch \<Rightarrow> 'w \<Rightarrow> 'w \<times> py_exn list" where
  "dispatch [] batch w = (w, [])"
| "dispatch (c # cs) batch w =
     (let (w', raised) = c batch w; (w'', errors) = dispatch cs batch w'
      in (w'', (case raised of None \<Rightarrow> errors | Some x \<Rightarrow> x # errors)))"

definition service_batch ::
  "'w consumer list \<Rightarrow> aircraft_batch \<Rightarrow> ingestion_service \<times> 'w \<Rightarrow> ingestion_service \<times> 'w" where
  "service_batch cs batch sw =
     (case sw of (s, w) \<Rightarrow>
       (s\<lparr>is_batches := Suc (is_batches s), is_updates := is_updates s + length (ab_updates batch)\<rparr>,
        fst (dispatch cs batch w)))"

lemma dispatch_state: "fst (dispatch cs batch w) = fold (\<lambda>c w. fst (c batch w)) cs w"
  by (induction cs arbitrary: w) (simp_all add: split_beta Let_def)

section \<open>Properties\<close>


text \<open>
  The stream the adapter yields is exactly the batches of the polls that fetched and
  parsed, in order, and its health is the health of that history of outcomes.
\<close>

theorem adapter_stream:
  assumes "\<not> ad_stopped a"
  shows "yielded (snd (adapter_run is a)) = batches_of is \<and>
     ad_tracker (fst (adapter_run is a)) = health_run (poll_events is) (ad_tracker a)"
  using adapter_run_running [OF assms] by simp

text \<open>
  The HTTP client is rebuilt exactly when the decoder goes down: an iteration closes
  it if and only if it moves the state into "down", and the next poll dials again.
\<close>

theorem adapter_redials_on_down:
  assumes "\<not> ad_stopped a"
  shows "(CloseClient \<in> set (snd (adapter_step i a)) \<longleftrightarrow>
        ah_state (ht_health (ad_tracker a)) \<noteq> Down \<and>
        ah_state (ht_health (ad_tracker (fst (adapter_step i a)))) = Down) \<and>
     (DialClient \<in> set (snd (adapter_step i a)) \<longleftrightarrow> \<not> ad_client_open a)"
  using assms
  by (auto simp: adapter_defs record_failure_def record_success_def update_health_def
      split: sum.split if_splits)

section \<open>Witnesses\<close>

definition sample_adapter :: adapter where
  "sample_adapter = new_adapter 1 \<lparr>ht_down_after = 1, ht_health = fresh_health\<lparr>ah_state := Connected\<rparr>\<rparr>"

definition unreachable :: poll_input where
  "unreachable = \<lparr>pi_fetched = Inl DecoderUnavailableError, pi_received_at = 0, pi_now = 5,
                  pi_draw = 1 / 2\<rparr>"

lemma unreachable_polls [simp]:
  "poll_once unreachable = Inl DecoderUnavailableError"
  "pi_draw unreachable = 1 / 2" "\<not> ad_stopped sample_adapter"
  by (simp_all add: poll_once_def unreachable_def sample_adapter_def new_adapter_def)


theorem adapter_stream_witness:
  "yielded (snd (adapter_run [unreachable] sample_adapter)) = []"
  using adapter_stream [of sample_adapter "[unreachable]"] by simp

theorem adapter_redials_on_down_witness:
  "CloseClient \<in> set (snd (adapter_step unreachable sample_adapter))"
proof -
  have "ah_state (ht_health (ad_tracker sample_adapter)) \<noteq> Down"
    by (simp add: sample_adapter_def new_adapter_def)
  moreover have "ah_state (ht_health (ad_tracker (fst (adapter_step unreachable sample_adapter)))) = Down"
    by (simp add: adapter_step_running(1) record_failure_def update_health_def Let_def
        sample_adapter_def new_adapter_def)
  ultimately show ?thesis
    using adapter_redials_on_down [of sample_adapter unreachable] by simp
qed

end
