(* ===== verification/Track.thy ===== *)
theory Track
  imports IngestTypes
begin

text \<open>
  \<^verbatim>\<open>live/track.py\<close>: the capped, append-only track of one live aircraft. A \<open>deque(maxlen=n)\<close> is
  a list, oldest point first; appending to a full one discards the oldest.
\<close>

section \<open>State\<close>

record track_point =
  tp_timestamp :: datetime
  tp_latitude :: real
  tp_longitude :: real
  tp_position_source :: position_source
  tp_altitude_ft :: "real option"
  tp_ground_speed_kt :: "real option"
  tp_track_deg :: "real option"

record current_track =
  ct_capacity :: nat
  ct_points :: "track_point list"
  ct_dropped :: nat

definition DEFAULT_TRACK_CAPACITY :: nat where "DEFAULT_TRACK_CAPACITY = 14400"

definition new_track :: "nat \<Rightarrow> current_track result" where
  "new_track capacity =
     (if capacity < 1 then Inl ValueError
      else Inr \<lparr>ct_capacity = capacity, ct_points = [], ct_dropped = 0\<rparr>)"

definition latest :: "current_track \<Rightarrow> track_point option" where
  "latest t = (if ct_points t = [] then None else Some (last (ct_points t)))"

section \<open>Operations\<close>

text \<open>\<open>deque.append\<close> with \<^verbatim>\<open>maxlen\<close>.\<close>

definition deque_append :: "nat \<Rightarrow> 'a list \<Rightarrow> 'a \<Rightarrow> 'a list" where
  "deque_append maxlen xs x = last_n maxlen (xs @ [x])"

definition advances :: "track_point option \<Rightarrow> track_point \<Rightarrow> bool" where
  "advances last_point p = (case last_point of
       None \<Rightarrow> True
     | Some q \<Rightarrow> \<not> (tp_timestamp p \<le> tp_timestamp q \<or>
                   tp_latitude p = tp_latitude q \<and> tp_longitude p = tp_longitude q))"

definition track_append :: "track_point \<Rightarrow> current_track \<Rightarrow> current_track \<times> bool" where
  "track_append p t =
     (if \<not> advances (latest t) p then (t, False)
      else
        let dropped = (if length (ct_points t) = ct_capacity t then Suc (ct_dropped t)
                       else ct_dropped t)
        in (t\<lparr>ct_dropped := dropped,
              ct_points := deque_append (ct_capacity t) (ct_points t) p\<rparr>, True))"

text \<open>The reverse scan of \<^verbatim>\<open>points_since\<close>, which stops at the first point not newer.\<close>

fun scan_newer :: "datetime \<Rightarrow> track_point list \<Rightarrow> track_point list \<Rightarrow> track_point list" where
  "scan_newer moment [] tail = tail"
| "scan_newer moment (p # ps) tail =
     (if tp_timestamp p \<le> moment then tail else scan_newer moment ps (tail @ [p]))"

definition points_since :: "datetime option \<Rightarrow> current_track \<Rightarrow> track_point list" where
  "points_since moment t = (case moment of
       None \<Rightarrow> ct_points t
     | Some m \<Rightarrow> rev (scan_newer m (rev (ct_points t)) []))"

section \<open>Invariant\<close>

definition newer :: "track_point \<Rightarrow> track_point \<Rightarrow> bool" where
  "newer p q \<longleftrightarrow> tp_timestamp p < tp_timestamp q"

definition moved :: "track_point \<Rightarrow> track_point \<Rightarrow> bool" where
  "moved p q \<longleftrightarrow> \<not> (tp_latitude q = tp_latitude p \<and> tp_longitude q = tp_longitude p)"

fun steps_move :: "track_point list \<Rightarrow> bool" where
  "steps_move (p # q # ps) \<longleftrightarrow> moved p q \<and> steps_move (q # ps)"
| "steps_move _ \<longleftrightarrow> True"

definition track_inv :: "current_track \<Rightarrow> bool" where
  "track_inv t \<longleftrightarrow>
     0 < ct_capacity t \<and> length (ct_points t) \<le> ct_capacity t \<and>
     sorted_wrt newer (ct_points t) \<and> steps_move (ct_points t) \<and>
     (0 < ct_dropped t \<longrightarrow> length (ct_points t) = ct_capacity t)"

lemma steps_move_snoc:
  "steps_move (ps @ [p]) \<longleftrightarrow> steps_move ps \<and> (ps \<noteq> [] \<longrightarrow> moved (last ps) p)"
  by (induction ps rule: steps_move.induct) auto

lemma steps_move_tl: "steps_move ps \<Longrightarrow> steps_move (tl ps)"
  by (cases ps rule: steps_move.cases) auto

lemma sorted_wrt_newer_snoc:
  "sorted_wrt newer ps \<Longrightarrow> ps \<noteq> [] \<Longrightarrow> newer (last ps) p \<Longrightarrow> sorted_wrt newer (ps @ [p])"
  by (induction ps rule: rev_induct) (auto simp: sorted_wrt_append newer_def)

lemma sorted_wrt_newer_tl: "sorted_wrt newer ps \<Longrightarrow> sorted_wrt newer (tl ps)"
  by (cases ps) simp_all

lemma new_track_inv:
  "new_track n = Inr t \<Longrightarrow>
     track_inv t \<and> ct_points t = [] \<and> ct_dropped t = 0 \<and> ct_capacity t = n"
  by (simp add: new_track_def track_inv_def split: if_splits) auto

lemma deque_append_cases:
  assumes "length xs \<le> n" "0 < n"
  shows "deque_append n xs x = (if length xs = n then tl xs @ [x] else xs @ [x])"
  using assms by (auto simp: deque_append_def tl_last_n_full)

lemma advances_snoc:
  assumes "advances (latest t) p" "sorted_wrt newer (ct_points t)" "steps_move (ct_points t)"
  shows "sorted_wrt newer (ct_points t @ [p]) \<and> steps_move (ct_points t @ [p])"
proof (cases "ct_points t = []")
  case False
  with assms have "newer (last (ct_points t)) p" "moved (last (ct_points t)) p"
    by (auto simp: advances_def latest_def newer_def moved_def)
  with False assms show ?thesis by (simp add: sorted_wrt_newer_snoc steps_move_snoc)
qed simp

lemma track_append_inv:
  assumes "track_inv t"
  shows "track_inv (fst (track_append p t))"
proof (cases "advances (latest t) p")
  case True
  have inv: "0 < ct_capacity t" "length (ct_points t) \<le> ct_capacity t"
    using assms by (simp_all add: track_inv_def)
  have snoc: "sorted_wrt newer (ct_points t @ [p])" "steps_move (ct_points t @ [p])"
    using advances_snoc [OF True] assms by (simp_all add: track_inv_def)
  show ?thesis
  proof (cases "length (ct_points t) = ct_capacity t")
    case full: True
    with inv have "ct_points t \<noteq> []" by auto
    then have tl: "tl (ct_points t) @ [p] = tl (ct_points t @ [p])" by simp
    with full inv snoc show ?thesis
      by (simp add: track_append_def track_inv_def True deque_append_cases tl
          sorted_wrt_newer_tl steps_move_tl del: tl_append2)
  next
    case False
    with inv snoc assms True show ?thesis
      by (auto simp: track_append_def track_inv_def deque_append_cases)
  qed
next
  case False
  with assms show ?thesis by (simp add: track_append_def)
qed

lemma track_append_capacity [simp]: "ct_capacity (fst (track_append p t)) = ct_capacity t"
  by (simp add: track_append_def Let_def)

lemma scan_newer_eq:
  "scan_newer m ps tail = tail @ takeWhile (\<lambda>p. m < tp_timestamp p) ps"
  by (induction ps arbitrary: tail) auto

lemma takeWhile_newer_rev:
  "sorted_wrt newer ps \<Longrightarrow>
     takeWhile (\<lambda>p. m < tp_timestamp p) (rev ps) = filter (\<lambda>p. m < tp_timestamp p) (rev ps)"
proof (induction ps rule: rev_induct)
  case (snoc p ps)
  then have older: "\<And>q. q \<in> set ps \<Longrightarrow> tp_timestamp q < tp_timestamp p"
    by (auto simp: sorted_wrt_append newer_def)
  show ?case
  proof (cases "m < tp_timestamp p")
    case True
    with snoc show ?thesis by (simp add: sorted_wrt_append)
  next
    case False
    with older have "filter (\<lambda>p. m < tp_timestamp p) (rev ps) = []"
      by (fastforce simp: filter_empty_conv)
    with False show ?thesis by simp
  qed
qed simp

section \<open>Histories\<close>

text \<open>
  Offering a whole history of points: the reference is the list of points that advance on the one
  accepted before them, with no cap.
\<close>

definition track_run :: "track_point list \<Rightarrow> current_track \<Rightarrow> current_track" where
  "track_run ps t = fold (\<lambda>p t. fst (track_append p t)) ps t"

fun accepted_points :: "track_point option \<Rightarrow> track_point list \<Rightarrow> track_point list" where
  "accepted_points q [] = []"
| "accepted_points q (p # ps) =
     (if advances q p then p # accepted_points (Some p) ps else accepted_points q ps)"

lemma track_append_accepts:
  assumes "track_inv t"
  shows "ct_points (fst (track_append p t)) =
      last_n (ct_capacity t) (ct_points t @ accepted_points (latest t) [p])"
    and "latest (fst (track_append p t)) = (if advances (latest t) p then Some p else latest t)"
    and "ct_dropped (fst (track_append p t)) + length (ct_points (fst (track_append p t))) =
      ct_dropped t + length (ct_points t) + length (accepted_points (latest t) [p])"
  using assms
  by (auto simp: track_append_def track_inv_def deque_append_cases deque_append_def latest_def
      Let_def last_n_snoc)

lemma track_run_simps [simp]:
  "track_run [] t = t"
  "track_run (p # ps) t = track_run ps (fst (track_append p t))"
  by (simp_all add: track_run_def)

lemma track_run_inv: "track_inv t \<Longrightarrow> track_inv (track_run ps t)"
  by (induction ps arbitrary: t) (simp_all add: track_append_inv)

lemma track_run_capacity: "ct_capacity (track_run ps t) = ct_capacity t"
  by (induction ps arbitrary: t) simp_all

lemma track_run_points:
  "track_inv t \<Longrightarrow>
     ct_points (track_run ps t) =
       last_n (ct_capacity t) (ct_points t @ accepted_points (latest t) ps)"
proof (induction ps arbitrary: t)
  case (Cons p ps)
  from Cons.IH [OF track_append_inv [OF Cons.prems]] show ?case
    by (simp add: track_append_accepts [OF Cons.prems] last_n_append_last_n)
qed (simp add: track_inv_def)

lemma track_run_dropped:
  "track_inv t \<Longrightarrow>
     ct_dropped (track_run ps t) + length (ct_points (track_run ps t)) =
       ct_dropped t + length (ct_points t) + length (accepted_points (latest t) ps)"
proof (induction ps arbitrary: t)
  case (Cons p ps)
  let ?u = "fst (track_append p t)"
  have "accepted_points (latest t) (p # ps) =
      accepted_points (latest t) [p] @ accepted_points (latest ?u) ps"
    by (simp add: track_append_accepts(2) [OF Cons.prems])
  with Cons.IH [OF track_append_inv [OF Cons.prems], of p] track_append_accepts(3) [OF Cons.prems, of p]
  show ?case by simp
qed simp

section \<open>Properties\<close>

text \<open>
  A track holds the newest part of its history: whatever points are offered, it keeps
  the last \<open>capacity\<close> of those that were strictly newer and elsewhere than the point accepted
  before them, and the count of dropped points is exactly what is missing.
\<close>

theorem track_keeps_newest:
  assumes "new_track n = Inr t"
  shows "ct_points (track_run ps t) = last_n n (accepted_points None ps) \<and>
     ct_dropped (track_run ps t) = length (accepted_points None ps) - n"
proof -
  from assms have t: "track_inv t" "ct_points t = []" "ct_dropped t = 0" "ct_capacity t = n"
    by (auto dest: new_track_inv)
  from track_run_points [OF t(1), of ps] track_run_dropped [OF t(1), of ps] t show ?thesis
    by (auto simp: latest_def)
qed

text \<open>
  Every track the live layer can build is strictly increasing in time, never repeats
  the position of the point before, and stays within its capacity.
\<close>

theorem track_ordered:
  assumes "new_track n = Inr t"
  shows "sorted_wrt newer (ct_points (track_run ps t)) \<and> steps_move (ct_points (track_run ps t)) \<and>
     length (ct_points (track_run ps t)) \<le> n"
proof -
  from assms have "track_inv t" "ct_capacity t = n"
    by (auto dest: new_track_inv)
  with track_run_inv [of t ps] track_run_capacity [of ps t] show ?thesis
    by (auto simp: track_inv_def)
qed

text \<open>
  The reverse scan of \<^verbatim>\<open>points_since\<close>, which stops at the first old point, returns
  exactly the points strictly newer than the given instant, oldest first.
\<close>

theorem points_since_filter:
  assumes "track_inv t"
  shows "points_since (Some m) t = filter (\<lambda>p. m < tp_timestamp p) (ct_points t)"
  using assms
  by (simp add: points_since_def scan_newer_eq track_inv_def takeWhile_newer_rev rev_filter)

section \<open>Witnesses\<close>

definition sample_point :: "datetime \<Rightarrow> real \<Rightarrow> track_point" where
  "sample_point t lon =
     \<lparr>tp_timestamp = t, tp_latitude = 50, tp_longitude = lon, tp_position_source = SrcAdsb,
      tp_altitude_ft = None, tp_ground_speed_kt = None, tp_track_deg = None\<rparr>"

definition sample_track :: current_track where
  "sample_track = \<lparr>ct_capacity = 2, ct_points = [], ct_dropped = 0\<rparr>"

lemma sample_track_new: "new_track 2 = Inr sample_track"
  by (simp add: new_track_def sample_track_def)

theorem track_keeps_newest_witness:
  "ct_points (track_run [sample_point 1 1, sample_point 2 1, sample_point 3 2, sample_point 4 3]
       sample_track) = [sample_point 3 2, sample_point 4 3]"
  using track_keeps_newest [OF sample_track_new,
      of "[sample_point 1 1, sample_point 2 1, sample_point 3 2, sample_point 4 3]"]
  by (simp add: advances_def sample_point_def last_n_def)

theorem track_ordered_witness:
  "steps_move (ct_points (track_run [sample_point 1 1, sample_point 2 1] sample_track))"
  using track_ordered [OF sample_track_new] by blast

theorem points_since_filter_witness:
  "points_since (Some 3)
     \<lparr>ct_capacity = 2, ct_points = [sample_point 3 2, sample_point 4 3], ct_dropped = 1\<rparr>
   = [sample_point 4 3]"
proof -
  let ?t = "\<lparr>ct_capacity = 2, ct_points = [sample_point 3 2, sample_point 4 3], ct_dropped = 1\<rparr>"
  have "track_inv ?t" by (simp add: track_inv_def sample_point_def newer_def moved_def)
  from points_since_filter [OF this, of 3] show ?thesis by (simp add: sample_point_def)
qed

end
