(* ===== verification/Geo.thy ===== *)
theory Geo
  imports IngestTypes
begin

text \<open>
  \<^verbatim>\<open>live/geo.py\<close>: great-circle distance and initial bearing on a sphere, over the reals. The
  functions are the ones of \<^theory_text>\<open>Complex_Main\<close>; \<open>atan2\<close> is Python's, for a positive zero.
\<close>

definition EARTH_RADIUS_NM :: real where "EARTH_RADIUS_NM = 63710088 / 10000 / (1852 / 1000)"

definition radians :: "real \<Rightarrow> real" where "radians x = x * pi / 180"
definition degrees :: "real \<Rightarrow> real" where "degrees x = x * 180 / pi"

definition py_fmod :: "real \<Rightarrow> real \<Rightarrow> real" where
  "py_fmod x m = x - m * of_int \<lfloor>x / m\<rfloor>"

definition atan2 :: "real \<Rightarrow> real \<Rightarrow> real" where
  "atan2 y x =
     (if 0 < x then arctan (y / x)
      else if x < 0 then (if 0 \<le> y then arctan (y / x) + pi else arctan (y / x) - pi)
      else if 0 < y then pi / 2 else if y < 0 then - (pi / 2) else 0)"

definition haversine :: "position \<Rightarrow> position \<Rightarrow> real" where
  "haversine origin target =
     (let lat1 = radians (pos_lat origin); lat2 = radians (pos_lat target);
          delta_lat = lat2 - lat1; delta_lon = radians (pos_lon target - pos_lon origin)
      in (sin (delta_lat / 2))\<^sup>2 + cos lat1 * cos lat2 * (sin (delta_lon / 2))\<^sup>2)"

definition distance_nm :: "position \<Rightarrow> position \<Rightarrow> real" where
  "distance_nm origin target =
     2 * EARTH_RADIUS_NM * arcsin (sqrt (min 1 (haversine origin target)))"

definition bearing_deg :: "position \<Rightarrow> position \<Rightarrow> real" where
  "bearing_deg origin target =
     (let lat1 = radians (pos_lat origin); lat2 = radians (pos_lat target);
          delta_lon = radians (pos_lon target - pos_lon origin);
          y = sin delta_lon * cos lat2;
          x = cos lat1 * sin lat2 - sin lat1 * cos lat2 * cos delta_lon
      in py_fmod (degrees (atan2 y x)) 360)"

definition distance_and_bearing :: "position \<Rightarrow> position \<Rightarrow> real \<times> real" where
  "distance_and_bearing origin target = (distance_nm origin target, bearing_deg origin target)"

section \<open>Lemmas\<close>

definition on_earth :: "position \<Rightarrow> bool" where
  "on_earth p \<longleftrightarrow> - 90 \<le> pos_lat p \<and> pos_lat p \<le> 90"

lemma cos_radians_nonneg: "- 90 \<le> x \<Longrightarrow> x \<le> 90 \<Longrightarrow> 0 \<le> cos (radians x)"
proof (rule cos_ge_zero)
  assume "- 90 \<le> x"
  then have "- 90 * pi \<le> x * pi" by (rule mult_right_mono) simp
  then show "- (pi / 2) \<le> radians x" by (simp add: radians_def field_simps)
next
  assume "x \<le> 90"
  then have "x * pi \<le> 90 * pi" by (rule mult_right_mono) simp
  then show "radians x \<le> pi / 2" by (simp add: radians_def field_simps)
qed

lemma haversine_nonneg: "on_earth p \<Longrightarrow> on_earth q \<Longrightarrow> 0 \<le> haversine p q"
  by (simp add: haversine_def Let_def on_earth_def cos_radians_nonneg)

lemma haversine_sym: "haversine p q = haversine q p"
proof -
  have sq: "(sin ((a - b) / 2))\<^sup>2 = (sin ((b - a) / 2))\<^sup>2" for a b :: real
  proof -
    have "(a - b) / 2 = - ((b - a) / 2)" by (simp add: field_simps)
    then show ?thesis by (simp only: sin_minus power2_minus)
  qed
  have lon: "radians (pos_lon p - pos_lon q) = radians (pos_lon p) - radians (pos_lon q)"
    "radians (pos_lon q - pos_lon p) = radians (pos_lon q) - radians (pos_lon p)"
    by (simp_all add: radians_def field_simps)
  show ?thesis
    unfolding haversine_def Let_def lon
      sq [of "radians (pos_lat q)" "radians (pos_lat p)"]
      sq [of "radians (pos_lon q)" "radians (pos_lon p)"]
    by (simp only: mult.commute [of "cos (radians (pos_lat p))"])
qed

lemma haversine_self [simp]: "haversine p p = 0"
  by (simp add: haversine_def radians_def)

lemma arcsin_sqrt_bounds:
  assumes "0 \<le> a"
  shows "0 \<le> arcsin (sqrt (min 1 a)) \<and> arcsin (sqrt (min 1 a)) \<le> pi / 2"
proof -
  have "0 \<le> sqrt (min 1 a)" "sqrt (min 1 a) \<le> 1"
    using assms by simp_all
  moreover then have "- 1 \<le> sqrt (min 1 a)" by linarith
  ultimately show ?thesis
    using arcsin_le_arcsin [of 0 "sqrt (min 1 a)"] arcsin_bounded [of "sqrt (min 1 a)"] by simp
qed

lemma py_fmod_bounds: "0 < m \<Longrightarrow> 0 \<le> py_fmod x m \<and> py_fmod x m < m"
proof -
  assume m: "0 < m"
  have "of_int \<lfloor>x / m\<rfloor> * m \<le> x" "x < (of_int \<lfloor>x / m\<rfloor> + 1) * m"
    using m by (rule floor_divide_lower, rule floor_divide_upper)
  then show ?thesis by (simp add: py_fmod_def algebra_simps)
qed

lemma bearing_deg_bounds: "0 \<le> bearing_deg p q \<and> bearing_deg p q < 360"
  unfolding bearing_deg_def Let_def by (rule py_fmod_bounds) simp

lemma distance_nm_sym: "distance_nm p q = distance_nm q p"
  by (simp add: distance_nm_def haversine_sym [of p q])

lemma distance_nm_self: "distance_nm p p = 0"
  by (simp add: distance_nm_def)

section \<open>Properties\<close>

text \<open>
  Between any two points on Earth the distance is a sensible range: never negative,
  at most half the circumference, the same in both directions, and zero for a point and itself;
  and the bearing lies in [0, 360).
\<close>

theorem range_sensible:
  assumes "on_earth p" and "on_earth q"
  shows "0 \<le> distance_nm p q \<and> distance_nm p q \<le> pi * EARTH_RADIUS_NM \<and>
     distance_nm p q = distance_nm q p \<and> distance_nm p p = 0 \<and>
     0 \<le> bearing_deg p q \<and> bearing_deg p q < 360"
proof -
  from arcsin_sqrt_bounds [OF haversine_nonneg [OF assms]]
  have "0 \<le> distance_nm p q \<and> distance_nm p q \<le> pi * EARTH_RADIUS_NM"
    by (simp add: distance_nm_def EARTH_RADIUS_NM_def)
  then show ?thesis
    using distance_nm_sym distance_nm_self bearing_deg_bounds by blast
qed

theorem range_sensible_witness:
  "0 \<le> distance_nm \<lparr>pos_lat = 50, pos_lon = 9\<rparr> \<lparr>pos_lat = 51, pos_lon = 10\<rparr>"
  by (rule range_sensible [THEN conjunct1]) (simp_all add: on_earth_def)

end
