(* ===== verification/LiveAircraft.thy ===== *)
theory LiveAircraft
  imports Track Geo Readsb
begin

text \<open>
  \<^verbatim>\<open>live/aircraft.py\<close>: the live record of one aircraft and the two ways it is built, \<open>appear\<close> from
  a first observation and \<open>merge\<close> from a further one. The record holds the value of its track;
  \<open>merge\<close> returns the record with the appended track, where the code appends to the track object
  the old record shares. Monotonic instants are seconds on the injected clock. The instants a
  decoder reports lie within the years 2001 to 2286, so the subtraction of an age never leaves the
  range of \<^verbatim>\<open>datetime\<close> here.
\<close>

section \<open>The record\<close>

datatype live_state = Live | Stale

datatype ground_state = Airborne | OnGround | UnknownGround

datatype provenance = DecoderProv | DerivedProv

definition AIRBORNE_INFERENCE_ALTITUDE_FT :: real where
  "AIRBORNE_INFERENCE_ALTITUDE_FT = 18000"

record live_aircraft =
  la_icao :: string
  la_first_seen :: datetime
  la_last_seen :: datetime
  la_first_seen_monotonic :: real
  la_last_seen_monotonic :: real
  la_state :: live_state
  la_track :: current_track
  la_position :: "position option"
  la_position_source :: position_source
  la_position_seen :: "datetime option"
  la_position_seen_monotonic :: "real option"
  la_callsign :: "string option"
  la_callsign_seen :: "datetime option"
  la_squawk :: "string option"
  la_squawk_seen :: "datetime option"
  la_altitude_ft :: "real option"
  la_altitude_geometric_ft :: "real option"
  la_ground_speed_kt :: "real option"
  la_track_deg :: "real option"
  la_vertical_rate_fpm :: "real option"
  la_on_ground :: "bool option"
  la_ground_state :: ground_state
  la_emitter_category :: "string option"
  la_selected_altitude_ft :: "real option"
  la_decoder_emergency :: "string option"
  la_rssi_db :: "real option"
  la_messages :: "int option"
  la_seen_s :: "real option"
  la_seen_pos_s :: "real option"
  la_distance_nm :: "real option"
  la_bearing_deg :: "real option"
  la_observations :: nat
  la_provenance :: "(string \<times> provenance) list"

definition la_has_position :: "live_aircraft \<Rightarrow> bool" where
  "la_has_position a \<longleftrightarrow> la_position a \<noteq> None"

definition is_stale :: "live_aircraft \<Rightarrow> bool" where
  "is_stale a \<longleftrightarrow> la_state a = Stale"

definition la_age_s :: "live_aircraft \<Rightarrow> real \<Rightarrow> real" where
  "la_age_s a now = now - la_last_seen_monotonic a"

definition position_age_s :: "live_aircraft \<Rightarrow> real \<Rightarrow> real option" where
  "position_age_s a now = map_option (\<lambda>m. now - m) (la_position_seen_monotonic a)"

section \<open>Derived fields\<close>

definition resolve_ground_state ::
  "bool option \<Rightarrow> real option \<Rightarrow> ground_state \<times> provenance option" where
  "resolve_ground_state on_ground altitude = (case on_ground of
       Some g \<Rightarrow> (if g then OnGround else Airborne, Some DecoderProv)
     | None \<Rightarrow> (case altitude of
           Some a \<Rightarrow> if AIRBORNE_INFERENCE_ALTITUDE_FT \<le> a then (Airborne, Some DerivedProv)
                     else (UnknownGround, None)
         | None \<Rightarrow> (UnknownGround, None)))"

definition make_provenance :: "provenance option \<Rightarrow> bool \<Rightarrow> (string \<times> provenance) list" where
  "make_provenance ground has_range =
     (if has_range then [(''distance_nm'', DerivedProv), (''bearing_deg'', DerivedProv)] else []) @
     (case ground of None \<Rightarrow> [] | Some g \<Rightarrow> [(''ground_state'', g)])"

definition range_to :: "position option \<Rightarrow> position option \<Rightarrow> real option \<times> real option" where
  "range_to receiver p = (case (receiver, p) of
       (Some r, Some q) \<Rightarrow> (case distance_and_bearing r q of (d, b) \<Rightarrow> (Some d, Some b))
     | _ \<Rightarrow> (None, None))"

definition reported_silence_s :: "aircraft_update \<Rightarrow> real" where
  "reported_silence_s u = (case au_seen_s u of
       None \<Rightarrow> 0
     | Some age \<Rightarrow> if age \<le> 0 then 0 else age)"

definition position_lag_s :: "aircraft_update \<Rightarrow> real" where
  "position_lag_s u = (case au_seen_pos_s u of
       None \<Rightarrow> 0
     | Some age \<Rightarrow> max (age - reported_silence_s u) 0)"

definition carried_position_age_s :: "live_aircraft \<Rightarrow> aircraft_update \<Rightarrow> real option" where
  "carried_position_age_s current u =
     (if au_seen_pos_s u \<noteq> None then au_seen_pos_s u
      else if au_position u \<noteq> None then None
      else la_seen_pos_s current)"

definition update_track_point :: "aircraft_update \<Rightarrow> position \<Rightarrow> track_point" where
  "update_track_point u p =
     \<lparr>tp_timestamp = au_timestamp u, tp_latitude = pos_lat p, tp_longitude = pos_lon p,
      tp_position_source = au_position_source u, tp_altitude_ft = au_altitude_ft u,
      tp_ground_speed_kt = au_ground_speed_kt u, tp_track_deg = au_track_deg u\<rparr>"

section \<open>First observation\<close>

definition appear ::
  "aircraft_update \<Rightarrow> real \<Rightarrow> position option \<Rightarrow> nat \<Rightarrow> live_aircraft result" where
  "appear u now receiver track_capacity =
     (let position = au_position u;
          (ground, ground_provenance) = resolve_ground_state (au_on_ground u) (au_altitude_ft u);
          (distance, bearing) = range_to receiver position
      in bindE (new_track track_capacity) (\<lambda>empty_track.
         let track = (case position of
                        None \<Rightarrow> empty_track
                      | Some p \<Rightarrow> fst (track_append (update_track_point u p) empty_track));
             observed_at = now - reported_silence_s u;
             lag = position_lag_s u
         in Inr \<lparr>la_icao = au_icao u,
              la_first_seen = au_timestamp u,
              la_last_seen = au_timestamp u,
              la_first_seen_monotonic = observed_at,
              la_last_seen_monotonic = observed_at,
              la_state = Live,
              la_track = track,
              la_position = position,
              la_position_source = au_position_source u,
              la_position_seen =
                (if position \<noteq> None then Some (au_timestamp u - timedelta_us lag) else None),
              la_position_seen_monotonic =
                (if position \<noteq> None then Some (observed_at - lag) else None),
              la_callsign = au_callsign u,
              la_callsign_seen = (if au_callsign u \<noteq> None then Some (au_timestamp u) else None),
              la_squawk = au_squawk u,
              la_squawk_seen = (if au_squawk u \<noteq> None then Some (au_timestamp u) else None),
              la_altitude_ft = au_altitude_ft u,
              la_altitude_geometric_ft = au_altitude_geometric_ft u,
              la_ground_speed_kt = au_ground_speed_kt u,
              la_track_deg = au_track_deg u,
              la_vertical_rate_fpm = au_vertical_rate_fpm u,
              la_on_ground = au_on_ground u,
              la_ground_state = ground,
              la_emitter_category = au_emitter_category u,
              la_selected_altitude_ft = au_selected_altitude_ft u,
              la_decoder_emergency = au_decoder_emergency u,
              la_rssi_db = au_rssi_db u,
              la_messages = au_messages u,
              la_seen_s = au_seen_s u,
              la_seen_pos_s = au_seen_pos_s u,
              la_distance_nm = distance,
              la_bearing_deg = bearing,
              la_observations = 1,
              la_provenance = make_provenance ground_provenance (distance \<noteq> None)\<rparr>))"

section \<open>Further observations\<close>

definition merged_altitude :: "live_aircraft \<Rightarrow> aircraft_update \<Rightarrow> real option" where
  "merged_altitude current u =
     (if au_on_ground u = Some True then None
      else or_else (au_altitude_ft u) (la_altitude_ft current))"

definition merge_record ::
  "live_aircraft \<Rightarrow> aircraft_update \<Rightarrow> real \<Rightarrow> real \<Rightarrow> position option \<Rightarrow> live_aircraft" where
  "merge_record current u now stale_s receiver =
     (let has_position = (au_position u \<noteq> None);
          position = (if has_position then au_position u else la_position current);
          position_source =
            (if has_position then au_position_source u else la_position_source current);
          altitude = merged_altitude current u;
          on_ground = or_else (au_on_ground u) (la_on_ground current);
          (ground, ground_provenance) = resolve_ground_state on_ground altitude;
          (distance, bearing) = range_to receiver position;
          track = (case au_position u of
                     None \<Rightarrow> la_track current
                   | Some p \<Rightarrow> fst (track_append (update_track_point u p) (la_track current)));
          silence = reported_silence_s u;
          observed_at = now - silence;
          lag = position_lag_s u;
          heard_recently = (silence < stale_s)
      in current\<lparr>la_last_seen := au_timestamp u,
           la_last_seen_monotonic := observed_at,
           la_state := (if heard_recently then Live else la_state current),
           la_track := track,
           la_position := position,
           la_position_source := position_source,
           la_position_seen :=
             (if has_position then Some (au_timestamp u - timedelta_us lag)
              else la_position_seen current),
           la_position_seen_monotonic :=
             (if has_position then Some (observed_at - lag)
              else la_position_seen_monotonic current),
           la_callsign := or_else (au_callsign u) (la_callsign current),
           la_callsign_seen :=
             (if au_callsign u \<noteq> None then Some (au_timestamp u) else la_callsign_seen current),
           la_squawk := or_else (au_squawk u) (la_squawk current),
           la_squawk_seen :=
             (if au_squawk u \<noteq> None then Some (au_timestamp u) else la_squawk_seen current),
           la_altitude_ft := altitude,
           la_altitude_geometric_ft :=
             or_else (au_altitude_geometric_ft u) (la_altitude_geometric_ft current),
           la_ground_speed_kt := or_else (au_ground_speed_kt u) (la_ground_speed_kt current),
           la_track_deg := or_else (au_track_deg u) (la_track_deg current),
           la_vertical_rate_fpm := or_else (au_vertical_rate_fpm u) (la_vertical_rate_fpm current),
           la_on_ground := on_ground,
           la_ground_state := ground,
           la_emitter_category := or_else (au_emitter_category u) (la_emitter_category current),
           la_selected_altitude_ft :=
             or_else (au_selected_altitude_ft u) (la_selected_altitude_ft current),
           la_decoder_emergency := au_decoder_emergency u,
           la_rssi_db := or_else (au_rssi_db u) (la_rssi_db current),
           la_messages := or_else (au_messages u) (la_messages current),
           la_seen_s := au_seen_s u,
           la_seen_pos_s := carried_position_age_s current u,
           la_distance_nm := distance,
           la_bearing_deg := bearing,
           la_observations := la_observations current + 1,
           la_provenance := make_provenance ground_provenance (distance \<noteq> None)\<rparr>)"

text \<open>The fields compared for the hints of an update event, each with its comparison.\<close>

definition CHANGE_TRACKED_FIELDS :: "(string \<times> (live_aircraft \<Rightarrow> live_aircraft \<Rightarrow> bool)) list" where
  "CHANGE_TRACKED_FIELDS =
     [(''state'', \<lambda>a b. la_state a \<noteq> la_state b),
      (''callsign'', \<lambda>a b. la_callsign a \<noteq> la_callsign b),
      (''squawk'', \<lambda>a b. la_squawk a \<noteq> la_squawk b),
      (''position'', \<lambda>a b. la_position a \<noteq> la_position b),
      (''position_source'', \<lambda>a b. la_position_source a \<noteq> la_position_source b),
      (''altitude_ft'', \<lambda>a b. la_altitude_ft a \<noteq> la_altitude_ft b),
      (''altitude_geometric_ft'', \<lambda>a b. la_altitude_geometric_ft a \<noteq> la_altitude_geometric_ft b),
      (''ground_speed_kt'', \<lambda>a b. la_ground_speed_kt a \<noteq> la_ground_speed_kt b),
      (''track_deg'', \<lambda>a b. la_track_deg a \<noteq> la_track_deg b),
      (''vertical_rate_fpm'', \<lambda>a b. la_vertical_rate_fpm a \<noteq> la_vertical_rate_fpm b),
      (''on_ground'', \<lambda>a b. la_on_ground a \<noteq> la_on_ground b),
      (''ground_state'', \<lambda>a b. la_ground_state a \<noteq> la_ground_state b),
      (''distance_nm'', \<lambda>a b. la_distance_nm a \<noteq> la_distance_nm b),
      (''bearing_deg'', \<lambda>a b. la_bearing_deg a \<noteq> la_bearing_deg b),
      (''rssi_db'', \<lambda>a b. la_rssi_db a \<noteq> la_rssi_db b),
      (''messages'', \<lambda>a b. la_messages a \<noteq> la_messages b),
      (''emitter_category'', \<lambda>a b. la_emitter_category a \<noteq> la_emitter_category b),
      (''selected_altitude_ft'', \<lambda>a b. la_selected_altitude_ft a \<noteq> la_selected_altitude_ft b),
      (''decoder_emergency'', \<lambda>a b. la_decoder_emergency a \<noteq> la_decoder_emergency b)]"

definition changed_fields :: "live_aircraft \<Rightarrow> live_aircraft \<Rightarrow> string list" where
  "changed_fields merged current =
     map fst (filter (\<lambda>(name, differs). differs merged current) CHANGE_TRACKED_FIELDS)"

definition merge ::
  "live_aircraft \<Rightarrow> aircraft_update \<Rightarrow> real \<Rightarrow> real \<Rightarrow> position option \<Rightarrow> live_aircraft \<times> string list"
  where
  "merge current u now stale_s receiver =
     (let merged = merge_record current u now stale_s receiver
      in (merged, changed_fields merged current))"

definition mark_stale :: "live_aircraft \<Rightarrow> live_aircraft" where
  "mark_stale current = current\<lparr>la_state := Stale\<rparr>"

section \<open>Lemmas\<close>

lemma merge_simps [simp]:
  "fst (merge c u now st r) = merge_record c u now st r"
  "snd (merge c u now st r) = changed_fields (merge_record c u now st r) c"
  by (simp_all add: merge_def Let_def)

lemma merge_record_simps [simp]:
  "la_icao (merge_record c u now st r) = la_icao c"
  "la_last_seen (merge_record c u now st r) = au_timestamp u"
  "la_last_seen_monotonic (merge_record c u now st r) = now - reported_silence_s u"
  "la_state (merge_record c u now st r) = (if reported_silence_s u < st then Live else la_state c)"
  "la_position (merge_record c u now st r) = or_else (au_position u) (la_position c)"
  "la_position_source (merge_record c u now st r) =
     (if au_position u \<noteq> None then au_position_source u else la_position_source c)"
  "la_position_seen (merge_record c u now st r) =
     (if au_position u \<noteq> None then Some (au_timestamp u - timedelta_us (position_lag_s u))
      else la_position_seen c)"
  "la_position_seen_monotonic (merge_record c u now st r) =
     (if au_position u \<noteq> None then Some (now - reported_silence_s u - position_lag_s u)
      else la_position_seen_monotonic c)"
  "la_callsign (merge_record c u now st r) = or_else (au_callsign u) (la_callsign c)"
  "la_callsign_seen (merge_record c u now st r) =
     (if au_callsign u \<noteq> None then Some (au_timestamp u) else la_callsign_seen c)"
  "la_squawk (merge_record c u now st r) = or_else (au_squawk u) (la_squawk c)"
  "la_squawk_seen (merge_record c u now st r) =
     (if au_squawk u \<noteq> None then Some (au_timestamp u) else la_squawk_seen c)"
  "la_altitude_ft (merge_record c u now st r) = merged_altitude c u"
  "la_altitude_geometric_ft (merge_record c u now st r) =
     or_else (au_altitude_geometric_ft u) (la_altitude_geometric_ft c)"
  "la_ground_speed_kt (merge_record c u now st r) =
     or_else (au_ground_speed_kt u) (la_ground_speed_kt c)"
  "la_track_deg (merge_record c u now st r) = or_else (au_track_deg u) (la_track_deg c)"
  "la_vertical_rate_fpm (merge_record c u now st r) =
     or_else (au_vertical_rate_fpm u) (la_vertical_rate_fpm c)"
  "la_on_ground (merge_record c u now st r) = or_else (au_on_ground u) (la_on_ground c)"
  "la_ground_state (merge_record c u now st r) =
     fst (resolve_ground_state (or_else (au_on_ground u) (la_on_ground c)) (merged_altitude c u))"
  "la_emitter_category (merge_record c u now st r) =
     or_else (au_emitter_category u) (la_emitter_category c)"
  "la_selected_altitude_ft (merge_record c u now st r) =
     or_else (au_selected_altitude_ft u) (la_selected_altitude_ft c)"
  "la_decoder_emergency (merge_record c u now st r) = au_decoder_emergency u"
  "la_rssi_db (merge_record c u now st r) = or_else (au_rssi_db u) (la_rssi_db c)"
  "la_messages (merge_record c u now st r) = or_else (au_messages u) (la_messages c)"
  "la_distance_nm (merge_record c u now st r) =
     fst (range_to r (or_else (au_position u) (la_position c)))"
  "la_bearing_deg (merge_record c u now st r) =
     snd (range_to r (or_else (au_position u) (la_position c)))"
  "la_observations (merge_record c u now st r) = Suc (la_observations c)"
  by (cases "au_position u"; simp add: merge_record_def Let_def split_beta)+

lemma merge_record_track:
  "la_track (merge_record c u now st r) = (case au_position u of
     None \<Rightarrow> la_track c
   | Some p \<Rightarrow> fst (track_append (update_track_point u p) (la_track c)))"
  by (cases "au_position u") (simp_all add: merge_record_def Let_def split_beta)

lemma merge_record_provenance:
  "la_provenance (merge_record c u now st r) =
     make_provenance
       (snd (resolve_ground_state (or_else (au_on_ground u) (la_on_ground c)) (merged_altitude c u)))
       (fst (range_to r (or_else (au_position u) (la_position c))) \<noteq> None)"
  by (cases "au_position u") (simp_all add: merge_record_def Let_def split_beta)

lemma mark_stale_simps [simp]:
  "la_state (mark_stale a) = Stale"
  "la_icao (mark_stale a) = la_icao a"
  "la_last_seen_monotonic (mark_stale a) = la_last_seen_monotonic a"
  "la_last_seen (mark_stale a) = la_last_seen a"
  "la_age_s (mark_stale a) now = la_age_s a now"
  by (simp_all add: mark_stale_def la_age_s_def)

lemma reported_silence_nonneg [simp]: "0 \<le> reported_silence_s u"
  by (simp add: reported_silence_s_def split: option.split)

lemma position_lag_nonneg [simp]: "0 \<le> position_lag_s u"
  by (simp add: position_lag_s_def split: option.split)

lemma range_to_None_iff:
  "fst (range_to r p) = None \<longleftrightarrow> r = None \<or> p = None"
  "snd (range_to r p) = None \<longleftrightarrow> r = None \<or> p = None"
  by (auto simp: range_to_def split: option.split prod.split)

lemma appear_Inr:
  assumes "appear u now r cap = Inr a"
  shows "la_icao a = au_icao u" "la_state a = Live" "la_last_seen a = au_timestamp u"
    "la_last_seen_monotonic a = now - reported_silence_s u" "la_position a = au_position u"
    "la_callsign a = au_callsign u" "la_squawk a = au_squawk u"
    "la_altitude_ft a = au_altitude_ft u" "la_on_ground a = au_on_ground u"
    "la_decoder_emergency a = au_decoder_emergency u"
    "la_altitude_geometric_ft a = au_altitude_geometric_ft u"
    "la_ground_speed_kt a = au_ground_speed_kt u" "la_track_deg a = au_track_deg u"
    "la_vertical_rate_fpm a = au_vertical_rate_fpm u"
    "la_emitter_category a = au_emitter_category u"
    "la_selected_altitude_ft a = au_selected_altitude_ft u" "la_rssi_db a = au_rssi_db u"
    "la_messages a = au_messages u"
  using assms by (auto simp: appear_def Let_def split_beta bindE_Inr_iff)

lemma appear_ok: "0 < cap \<Longrightarrow> \<exists>a. appear u now r cap = Inr a"
  by (simp add: appear_def new_track_def Let_def split_beta)

section \<open>Invariant\<close>

text \<open>How the fields of a record agree with each other, whatever a decoder reports.\<close>

definition live_inv :: "live_aircraft \<Rightarrow> bool" where
  "live_inv a \<longleftrightarrow>
     track_inv (la_track a) \<and>
     (la_position a = None \<longrightarrow> la_position_source a = SrcNone \<and> ct_points (la_track a) = []) \<and>
     (la_position_seen a = None \<longleftrightarrow> la_position a = None) \<and>
     (la_position_seen_monotonic a = None \<longleftrightarrow> la_position a = None) \<and>
     (la_callsign_seen a = None \<longleftrightarrow> la_callsign a = None) \<and>
     (la_squawk_seen a = None \<longleftrightarrow> la_squawk a = None) \<and>
     (la_distance_nm a = None \<longleftrightarrow> la_bearing_deg a = None) \<and>
     (la_position a = None \<longrightarrow> la_distance_nm a = None) \<and>
     (map_of (la_provenance a) ''distance_nm'' = Some DerivedProv \<longleftrightarrow> la_distance_nm a \<noteq> None) \<and>
     la_ground_state a = fst (resolve_ground_state (la_on_ground a) (la_altitude_ft a)) \<and>
     map_of (la_provenance a) ''ground_state'' =
       snd (resolve_ground_state (la_on_ground a) (la_altitude_ft a)) \<and>
     0 < la_observations a"

lemma make_provenance_lookup:
  "map_of (make_provenance g h) ''distance_nm'' = (if h then Some DerivedProv else None)"
  "map_of (make_provenance g h) ''ground_state'' = g"
  by (simp_all add: make_provenance_def split: option.split)

lemma appear_inv:
  assumes "appear u now r cap = Inr a" "update_wf u"
  shows "live_inv a"
  using assms
  by (auto simp: appear_def Let_def split_beta bindE_Inr_iff live_inv_def update_wf_def
      range_to_None_iff make_provenance_lookup track_append_inv
      dest!: new_track_inv split: option.split if_split_asm)

lemma merge_inv:
  assumes "live_inv a" "update_wf u"
  shows "live_inv (merge_record a u now st r)"
  using assms
  by (cases "au_position u")
     (simp_all add: live_inv_def update_wf_def merge_record_track merge_record_provenance
       range_to_None_iff make_provenance_lookup track_append_inv)

lemma mark_stale_inv: "live_inv a \<Longrightarrow> live_inv (mark_stale a)"
  by (auto simp: live_inv_def mark_stale_def)

section \<open>Histories of one aircraft\<close>

fun live_run ::
  "real \<Rightarrow> position option \<Rightarrow> live_aircraft \<Rightarrow> (aircraft_update \<times> real) list \<Rightarrow> live_aircraft" where
  "live_run st r a [] = a"
| "live_run st r a ((u, now) # us) = live_run st r (fst (merge a u now st r)) us"

text \<open>The abstract view: the most recent report of a field, and of an altitude since the ground.\<close>

definition latest_report :: "('u \<Rightarrow> 'a option) \<Rightarrow> 'u list \<Rightarrow> 'a option" where
  "latest_report f us = fold (\<lambda>u acc. or_else (f u) acc) us None"

definition latest_altitude :: "aircraft_update list \<Rightarrow> real option" where
  "latest_altitude us =
     fold (\<lambda>u acc. if au_on_ground u = Some True then None else or_else (au_altitude_ft u) acc) us None"

definition same_reports :: "live_aircraft \<Rightarrow> aircraft_update list \<Rightarrow> bool" where
  "same_reports a us \<longleftrightarrow>
     la_callsign a = latest_report au_callsign us \<and>
     la_squawk a = latest_report au_squawk us \<and>
     la_position a = latest_report au_position us \<and>
     la_altitude_geometric_ft a = latest_report au_altitude_geometric_ft us \<and>
     la_ground_speed_kt a = latest_report au_ground_speed_kt us \<and>
     la_track_deg a = latest_report au_track_deg us \<and>
     la_vertical_rate_fpm a = latest_report au_vertical_rate_fpm us \<and>
     la_on_ground a = latest_report au_on_ground us \<and>
     la_emitter_category a = latest_report au_emitter_category us \<and>
     la_selected_altitude_ft a = latest_report au_selected_altitude_ft us \<and>
     la_rssi_db a = latest_report au_rssi_db us \<and>
     la_messages a = latest_report au_messages us \<and>
     la_decoder_emergency a = au_decoder_emergency (last us) \<and>
     la_altitude_ft a = latest_altitude us"

lemma latest_simps [simp]:
  "latest_report f (us @ [u]) = or_else (f u) (latest_report f us)"
  "latest_report f [u] = f u"
  "latest_altitude (us @ [u]) =
     (if au_on_ground u = Some True then None else or_else (au_altitude_ft u) (latest_altitude us))"
  by (simp_all add: latest_report_def latest_altitude_def)

lemma same_reports_merge:
  "same_reports a us \<Longrightarrow> same_reports (merge_record a u now st r) (us @ [u])"
  by (simp add: same_reports_def merged_altitude_def)

lemma same_reports_run:
  "same_reports a us \<Longrightarrow> same_reports (live_run st r a vs) (us @ map fst vs)"
proof (induction vs arbitrary: a us)
  case (Cons v vs)
  obtain u now where v: "v = (u, now)" by (cases v)
  from Cons.IH [OF same_reports_merge [OF Cons.prems]] show ?case by (simp add: v)
qed simp

section \<open>Properties\<close>

text \<open>
  Property C28. Merging never erases and never invents: after any history of an aircraft each
  sticky field of its live record is the most recent value any update reported for it, the
  emergency state is the last update's, and the altitude is the most recent one reported since the
  decoder last put the aircraft on the ground.
\<close>

theorem live_record_is_latest_reports:
  assumes "appear u now r cap = Inr a"
    and "au_on_ground u = Some True \<longrightarrow> au_altitude_ft u = None"
  shows "same_reports (live_run st r a vs) (u # map fst vs)"
proof -
  have "same_reports a [u]"
    using assms
    by (auto simp: same_reports_def appear_Inr [OF assms(1)] latest_altitude_def)
  from same_reports_run [OF this, of st r vs] show ?thesis by simp
qed

text \<open>
  The fields of a live record always agree: provenance is recorded exactly for the
  derived values that are present, each dated field has its date, the range needs a position, the
  ground state is the resolution of what is known, and the track keeps its own invariant.
\<close>

theorem live_run_consistent:
  assumes "appear u now r cap = Inr a" and "update_wf u"
    and "\<forall>v \<in> set vs. update_wf (fst v)"
  shows "live_inv (live_run st r a vs)"
proof -
  have "live_inv b \<Longrightarrow> \<forall>v \<in> set vs. update_wf (fst v) \<Longrightarrow> live_inv (live_run st r b vs)" for b
    by (induction vs arbitrary: b) (auto simp: merge_inv)
  with appear_inv [OF assms(1,2)] assms(3) show ?thesis by blast
qed

text \<open>
  A decoder that re-serves an identical view causes no change: merging the same
  update again reports an empty set of changed fields, at whatever later instant it is polled.
\<close>

theorem reserved_update_changes_nothing:
  "snd (merge (fst (merge a u now st r)) u now' st r) = []"
  by (simp add: changed_fields_def CHANGE_TRACKED_FIELDS_def merged_altitude_def)

text \<open>
  The decoder's own statement of the ground is never contradicted by a stale cruise
  level: for the updates the decoder adapter produces, a record on the ground has no altitude.
\<close>

theorem grounded_has_no_altitude:
  assumes "appear u now r cap = Inr a" and "update_sane t u"
    and "\<forall>v \<in> set vs. \<exists>t. update_sane t (fst v)"
  shows "la_on_ground (live_run st r a vs) = Some True \<longrightarrow> la_altitude_ft (live_run st r a vs) = None"
proof -
  have "(la_on_ground b = Some True \<longrightarrow> la_altitude_ft b = None) \<Longrightarrow>
      \<forall>v \<in> set vs. \<exists>t. update_sane t (fst v) \<Longrightarrow>
      la_on_ground (live_run st r b vs) = Some True \<longrightarrow> la_altitude_ft (live_run st r b vs) = None" for b
  proof (induction vs arbitrary: b)
    case (Cons v vs)
    obtain w n where v: "v = (w, n)" by (cases v)
    from Cons.prems(2) have "au_altitude_ft w \<noteq> None \<longleftrightarrow> au_on_ground w = Some False"
      by (auto simp: v update_sane_def)
    with Cons.prems(1) have
      "la_on_ground (merge_record b w n st r) = Some True \<longrightarrow> la_altitude_ft (merge_record b w n st r) = None"
      by (cases "au_on_ground w"; cases "au_altitude_ft w") (auto simp: merged_altitude_def)
    with Cons show ?case by (simp add: v)
  qed simp
  moreover have "la_on_ground a = Some True \<longrightarrow> la_altitude_ft a = None"
    using assms(2) by (auto simp: appear_Inr [OF assms(1)] update_sane_def)
  ultimately show ?thesis using assms(3) by blast
qed

section \<open>Witnesses\<close>

definition sample_update :: "datetime \<Rightarrow> bool \<Rightarrow> aircraft_update" where
  "sample_update t on_ground =
     \<lparr>au_icao = ''400abc'', au_timestamp = t, au_position_source = SrcNone,
      au_callsign = Some ''BAW117'', au_squawk = None, au_position = None,
      au_altitude_ft = (if on_ground then None else Some 35000),
      au_altitude_geometric_ft = None, au_ground_speed_kt = None, au_track_deg = None,
      au_vertical_rate_fpm = None, au_on_ground = Some on_ground, au_rssi_db = None,
      au_messages = None, au_seen_s = Some 1, au_seen_pos_s = None, au_emitter_category = None,
      au_selected_altitude_ft = None, au_decoder_emergency = None\<rparr>"

lemma sample_update_sane: "update_sane t (sample_update t g)"
  by (simp add: update_sane_def update_wf_def sample_update_def matches_icao_re_def is_hex_digit_def
      re_end_def)

lemma sample_update_wf: "update_wf (sample_update t g)"
  using sample_update_sane [of t g] by (simp add: update_sane_def)

definition sample_live :: live_aircraft where
  "sample_live = projr (appear (sample_update 1000000 False) 10 None 100)"

lemma sample_live_appears: "appear (sample_update 1000000 False) 10 None 100 = Inr sample_live"
  unfolding sample_live_def using appear_ok [of 100 "sample_update 1000000 False" 10 None] by auto

theorem live_record_is_latest_reports_witness:
  "la_altitude_ft (live_run 15 None sample_live [(sample_update 2000000 True, 11)]) = None"
  using live_record_is_latest_reports [OF sample_live_appears, where st = 15
      and vs = "[(sample_update 2000000 True, 11)]"]
  by (simp add: sample_update_def same_reports_def latest_altitude_def)

theorem live_run_consistent_witness:
  "live_inv (live_run 15 None sample_live [(sample_update 2000000 True, 11)])"
  by (rule live_run_consistent [OF sample_live_appears]) (simp_all add: sample_update_wf)

theorem grounded_has_no_altitude_witness:
  "la_altitude_ft (live_run 15 None sample_live [(sample_update 2000000 True, 11)]) = None"
proof -
  have "\<forall>v \<in> set [(sample_update 2000000 True, 11::real)]. \<exists>t. update_sane t (fst v)"
    using sample_update_sane by auto
  from grounded_has_no_altitude [OF sample_live_appears sample_update_sane this, where st = 15]
  show ?thesis by (simp add: sample_update_def)
qed

end
