(* ===== verification/BoundedQueue.thy ===== *)
theory BoundedQueue
  imports Prelude
begin

text \<open>
  The interface of every bounded buffer in the program that makes room by discarding its oldest
  entry: a subscriber's event queue, the un-checkpointed points of a sighting, the samples a
  feeder service has not written yet. Each provider interprets the locale in its own theory.
\<close>

locale shedding_queue =
  fixes offer :: "'e \<Rightarrow> 's \<Rightarrow> 's" and contents :: "'s \<Rightarrow> 'e list" and cap :: "'s \<Rightarrow> nat"
    and inv :: "'s \<Rightarrow> bool"
  assumes cap_positive: "inv s \<Longrightarrow> 0 < cap s"
    and contents_bounded: "inv s \<Longrightarrow> length (contents s) \<le> cap s"
    and contents_offer: "inv s \<Longrightarrow> contents (offer e s) = last_n (cap s) (contents s @ [e])"
    and cap_offer: "inv s \<Longrightarrow> cap (offer e s) = cap s"
    and inv_offer: "inv s \<Longrightarrow> inv (offer e s)"
begin

lemma offer_all:
  "inv s \<Longrightarrow> inv (fold offer es s) \<and> cap (fold offer es s) = cap s \<and>
     contents (fold offer es s) = last_n (cap s) (contents s @ es)"
proof (induction es arbitrary: s)
  case (Cons e es)
  from Cons.IH [OF inv_offer [OF Cons.prems]] show ?case
    by (simp add: contents_offer [OF Cons.prems] cap_offer [OF Cons.prems] last_n_append_last_n)
qed (simp add: contents_bounded)

lemmas offer_all_inv = offer_all [THEN conjunct1]
lemmas offer_all_contents = offer_all [THEN conjunct2, THEN conjunct2]

lemma offer_all_keeps_tail:
  assumes "inv s" "es \<noteq> []"
  shows "last (contents (fold offer es s)) = last es"
proof -
  obtain es' e where es: "es = es' @ [e]" using assms(2) by (cases es rule: rev_cases) auto
  show ?thesis
    using offer_all_contents [OF assms(1), of es] cap_positive [OF assms(1)]
    by (simp add: es last_n_snoc flip: append_assoc)
qed

lemma offer_all_fits:
  "inv s \<Longrightarrow> length (contents s) + length es \<le> cap s \<Longrightarrow> contents (fold offer es s) = contents s @ es"
  by (simp add: offer_all_contents)

end

end
