(* ===== verification/Events.thy ===== *)
theory Events
  imports LiveAircraft BoundedQueue "HOL-Library.Sublist" "HOL-Library.List_Lexorder" "HOL-Library.Char_ord"
begin

text \<open>
  \<^verbatim>\<open>live/events.py\<close>: the events of the live store, one bounded queue per subscriber, and the
  dispatcher that feeds them. A subscription is known to the dispatcher by a number, where the code
  compares object identities. The dispatcher's record also carries the process-wide counter
  \<^verbatim>\<open>live_events_dropped\<close>, which only it moves.
\<close>

section \<open>State\<close>

datatype live_event =
    AircraftAppeared live_aircraft datetime
  | AircraftUpdated live_aircraft datetime "string list"
  | AircraftStale live_aircraft datetime
  | AircraftRemoved live_aircraft datetime

fun event_aircraft :: "live_event \<Rightarrow> live_aircraft" where
  "event_aircraft (AircraftAppeared a _) = a"
| "event_aircraft (AircraftUpdated a _ _) = a"
| "event_aircraft (AircraftStale a _) = a"
| "event_aircraft (AircraftRemoved a _) = a"

definition event_icao :: "live_event \<Rightarrow> string" where
  "event_icao e = la_icao (event_aircraft e)"

definition DEFAULT_QUEUE_SIZE :: nat where "DEFAULT_QUEUE_SIZE = 4096"

record 'e subscription =
  sub_id :: nat
  sub_name :: string
  sub_maxsize :: nat
  sub_queue :: "'e list"
  sub_dropped :: nat
  sub_overflowed :: bool

record 'e dispatcher =
  ed_subscriptions :: "'e subscription list"
  ed_published :: nat
  ed_dropped_by_name :: "(string \<times> nat) list"
  ed_next_id :: nat
  ed_live_events_dropped :: nat

record subscriber_stats =
  ss_name :: string
  ss_dropped :: nat
  ss_pending :: nat
  ss_capacity :: nat
  ss_overflowed :: bool

section \<open>One subscription\<close>

definition new_subscription :: "nat \<Rightarrow> string \<Rightarrow> nat \<Rightarrow> 'e subscription result" where
  "new_subscription i name maxsize =
     (if maxsize < 1 then Inl ValueError
      else Inr \<lparr>sub_id = i, sub_name = name, sub_maxsize = maxsize, sub_queue = [],
                sub_dropped = 0, sub_overflowed = False\<rparr>)"

definition sub_pending :: "'e subscription \<Rightarrow> nat" where
  "sub_pending s = length (sub_queue s)"

definition acknowledge_overflow :: "'e subscription \<Rightarrow> 'e subscription \<times> nat" where
  "acknowledge_overflow s = (s\<lparr>sub_overflowed := False\<rparr>, sub_dropped s)"

definition shed :: "'e subscription \<Rightarrow> 'e subscription" where
  "shed s = (case sub_queue s of
       [] \<Rightarrow> s
     | _ # queue \<Rightarrow> s\<lparr>sub_queue := queue, sub_dropped := Suc (sub_dropped s),
                      sub_overflowed := True\<rparr>)"

text \<open>\<^verbatim>\<open>put_nowait\<close> fails on a full queue; then the oldest event goes and the put is retried.\<close>

definition put_nowait :: "'e \<Rightarrow> 'e subscription \<Rightarrow> 'e subscription option" where
  "put_nowait e s =
     (if length (sub_queue s) < sub_maxsize s then Some (s\<lparr>sub_queue := sub_queue s @ [e]\<rparr>)
      else None)"

definition deliver :: "'e \<Rightarrow> 'e subscription \<Rightarrow> 'e subscription \<times> bool" where
  "deliver e s = (case put_nowait e s of
       Some s' \<Rightarrow> (s', True)
     | None \<Rightarrow> ((shed s)\<lparr>sub_queue := sub_queue (shed s) @ [e]\<rparr>, False))"

definition drain :: "'e subscription \<Rightarrow> 'e subscription \<times> 'e list" where
  "drain s = (s\<lparr>sub_queue := []\<rparr>, sub_queue s)"

section \<open>The dispatcher\<close>

definition new_dispatcher :: "'e dispatcher" where
  "new_dispatcher =
     \<lparr>ed_subscriptions = [], ed_published = 0, ed_dropped_by_name = [], ed_next_id = 0,
      ed_live_events_dropped = 0\<rparr>"

definition dropped_for :: "string \<Rightarrow> 'e dispatcher \<Rightarrow> nat" where
  "dropped_for name d = (case map_of (ed_dropped_by_name d) name of None \<Rightarrow> 0 | Some n \<Rightarrow> n)"

definition dispatcher_dropped :: "'e dispatcher \<Rightarrow> nat" where
  "dispatcher_dropped d = sum_list (map snd (ed_dropped_by_name d))"

definition record_shed :: "string \<Rightarrow> 'e dispatcher \<Rightarrow> 'e dispatcher" where
  "record_shed name d =
     d\<lparr>ed_dropped_by_name := AList.update name (dropped_for name d + 1) (ed_dropped_by_name d)\<rparr>"

definition subscribe :: "string \<Rightarrow> nat \<Rightarrow> 'e dispatcher \<Rightarrow> (nat \<times> 'e dispatcher) result" where
  "subscribe name maxsize d =
     bindE (new_subscription (ed_next_id d) name maxsize) (\<lambda>s. Inr (ed_next_id d,
       d\<lparr>ed_subscriptions := ed_subscriptions d @ [s], ed_next_id := Suc (ed_next_id d)\<rparr>))"

definition detach :: "nat \<Rightarrow> 'e dispatcher \<Rightarrow> 'e dispatcher" where
  "detach i d = d\<lparr>ed_subscriptions := filter (\<lambda>s. sub_id s \<noteq> i) (ed_subscriptions d)\<rparr>"

definition close_dispatcher :: "'e dispatcher \<Rightarrow> 'e dispatcher" where
  "close_dispatcher d = d\<lparr>ed_subscriptions := []\<rparr>"

text \<open>The loop of \<^verbatim>\<open>publish\<close>; a shed event is counted process-wide and against its name.\<close>

fun deliver_all :: "'e \<Rightarrow> 'e subscription list \<Rightarrow> 'e dispatcher \<Rightarrow> 'e subscription list \<times> 'e dispatcher" where
  "deliver_all e [] d = ([], d)"
| "deliver_all e (s # ss) d =
     (let (s', kept) = deliver e s;
          d' = (if kept then d
                else record_shed (sub_name s)
                  (d\<lparr>ed_live_events_dropped := Suc (ed_live_events_dropped d)\<rparr>));
          (ss', d'') = deliver_all e ss d'
      in (s' # ss', d''))"

definition publish :: "'e \<Rightarrow> 'e dispatcher \<Rightarrow> 'e dispatcher" where
  "publish e d =
     (let d1 = d\<lparr>ed_published := Suc (ed_published d)\<rparr>;
          (ss, d2) = deliver_all e (ed_subscriptions d1) d1
      in d2\<lparr>ed_subscriptions := ss\<rparr>)"

definition subscription_stats :: "'e dispatcher \<Rightarrow> 'e subscription \<Rightarrow> subscriber_stats" where
  "subscription_stats d s =
     \<lparr>ss_name = sub_name s, ss_dropped = dropped_for (sub_name s) d, ss_pending = sub_pending s,
      ss_capacity = sub_maxsize s, ss_overflowed = sub_overflowed s\<rparr>"

definition stats :: "'e dispatcher \<Rightarrow> subscriber_stats list" where
  "stats d = sort_key ss_name (map (subscription_stats d) (ed_subscriptions d))"

section \<open>One subscription as a bounded queue\<close>

definition sub_inv :: "'e subscription \<Rightarrow> bool" where
  "sub_inv s \<longleftrightarrow>
     0 < sub_maxsize s \<and> length (sub_queue s) \<le> sub_maxsize s \<and>
     (sub_overflowed s \<longrightarrow> 0 < sub_dropped s)"

lemma deliver_cases:
  assumes "sub_inv s"
  shows "deliver e s =
    (if length (sub_queue s) < sub_maxsize s then (s\<lparr>sub_queue := sub_queue s @ [e]\<rparr>, True)
     else (s\<lparr>sub_queue := tl (sub_queue s) @ [e], sub_dropped := Suc (sub_dropped s),
             sub_overflowed := True\<rparr>, False))"
  using assms
  by (cases "sub_queue s") (auto simp: deliver_def put_nowait_def shed_def sub_inv_def)

lemma deliver_simps [simp]:
  "sub_id (fst (deliver e s)) = sub_id s"
  "sub_name (fst (deliver e s)) = sub_name s"
  "sub_maxsize (fst (deliver e s)) = sub_maxsize s"
  by (simp_all add: deliver_def put_nowait_def shed_def split: list.split)

lemma deliver_queue:
  assumes "sub_inv s"
  shows "sub_queue (fst (deliver e s)) = last_n (sub_maxsize s) (sub_queue s @ [e])"
  using assms by (auto simp: deliver_cases sub_inv_def tl_last_n_full [symmetric])

lemma deliver_inv: "sub_inv s \<Longrightarrow> sub_inv (fst (deliver e s))"
  by (auto simp: deliver_cases) (auto simp: sub_inv_def)

lemma deliver_dropped:
  "sub_inv s \<Longrightarrow> sub_dropped (fst (deliver e s)) = sub_dropped s + (if snd (deliver e s) then 0 else 1)"
  by (simp add: deliver_cases)

lemma new_subscription_inv: "new_subscription i name m = Inr s \<Longrightarrow> sub_inv s"
  by (auto simp: new_subscription_def sub_inv_def split: if_splits)

lemma drain_inv: "sub_inv s \<Longrightarrow> sub_inv (fst (drain s))"
  by (simp add: drain_def sub_inv_def)

lemma acknowledge_inv: "sub_inv s \<Longrightarrow> sub_inv (fst (acknowledge_overflow s))"
  by (simp add: acknowledge_overflow_def sub_inv_def)

interpretation event_queue: shedding_queue
  "\<lambda>e s. fst (deliver e s)" sub_queue sub_maxsize sub_inv
  by unfold_locales (auto simp: deliver_queue deliver_inv, auto simp: sub_inv_def)

section \<open>A consumer's view\<close>

datatype 'e queue_op = Deliver 'e | Drain | Acknowledge

fun queue_step :: "'e queue_op \<Rightarrow> 'e subscription \<times> 'e list \<Rightarrow> 'e subscription \<times> 'e list" where
  "queue_step (Deliver e) (s, got) = (fst (deliver e s), got)"
| "queue_step Drain (s, got) = (fst (drain s), got @ snd (drain s))"
| "queue_step Acknowledge (s, got) = (fst (acknowledge_overflow s), got)"

definition queue_run :: "'e queue_op list \<Rightarrow> 'e subscription \<Rightarrow> 'e subscription \<times> 'e list" where
  "queue_run ops s = fold queue_step ops (s, [])"

fun offered :: "'e queue_op list \<Rightarrow> 'e list" where
  "offered [] = []"
| "offered (Deliver e # ops) = e # offered ops"
| "offered (_ # ops) = offered ops"

lemma offered_append [simp]: "offered (xs @ ys) = offered xs @ offered ys"
  by (induction xs rule: offered.induct) simp_all

text \<open>What a consumer can rely on, over any interleaving of deliveries and reads.\<close>

definition faithful_view :: "'e list \<Rightarrow> 'e list \<Rightarrow> 'e subscription \<Rightarrow> bool" where
  "faithful_view sent got s \<longleftrightarrow>
     sub_inv s \<and>
     subseq (got @ sub_queue s) sent \<and>
     length got + sub_pending s + sub_dropped s = length sent"

lemma subseq_drop_middle: "subseq (xs @ y # ys) zs \<Longrightarrow> subseq (xs @ ys) zs"
proof -
  have "subseq (xs @ ys) (xs @ y # ys)" by (intro list_emb_append_mono) auto
  then show "subseq (xs @ y # ys) zs \<Longrightarrow> subseq (xs @ ys) zs" by (rule subseq_order.trans)
qed

lemma faithful_view_step:
  assumes "faithful_view sent got s" "queue_step op (s, got) = (s', got')"
  shows "faithful_view (sent @ offered [op]) got' s'"
proof (cases op)
  case (Deliver e)
  show ?thesis
  proof (cases "length (sub_queue s) < sub_maxsize s")
    case True
    then show ?thesis
      using assms Deliver deliver_inv [of s e]
      by (auto simp: faithful_view_def deliver_cases sub_pending_def list_emb_append_mono
          simp flip: append_assoc)
  next
    case False
    then obtain q qs where q: "sub_queue s = q # qs"
      using assms(1) by (cases "sub_queue s") (auto simp: faithful_view_def sub_inv_def)
    have "subseq (got @ qs) sent"
      using assms(1) by (intro subseq_drop_middle [of got q qs]) (simp add: faithful_view_def q)
    then show ?thesis
      using assms Deliver False q deliver_inv [of s e]
      by (auto simp: faithful_view_def deliver_cases sub_pending_def list_emb_append_mono
          simp flip: append_assoc)
  qed
next
  case Drain
  then show ?thesis
    using assms drain_inv [of s] by (auto simp: faithful_view_def drain_def sub_pending_def)
next
  case Acknowledge
  then show ?thesis
    using assms acknowledge_inv [of s]
    by (auto simp: faithful_view_def acknowledge_overflow_def sub_pending_def)
qed

lemma faithful_view_run:
  assumes "faithful_view [] [] s" "queue_run ops s = (s', got)"
  shows "faithful_view (offered ops) got s'"
  using assms(2)
proof (induction ops arbitrary: s' got rule: rev_induct)
  case (snoc op ops)
  obtain t g where t: "queue_run ops s = (t, g)" by fastforce
  with snoc.prems have "queue_step op (t, g) = (s', got)" by (simp add: queue_run_def)
  from faithful_view_step [OF snoc.IH [OF t] this] show ?case by simp
qed (use assms(1) in \<open>simp add: queue_run_def\<close>)

lemma overflow_flag_run:
  assumes "\<not> sub_overflowed s" "sub_inv s" "Acknowledge \<notin> set ops" "queue_run ops s = (s', got)"
  shows "(sub_overflowed s' \<longleftrightarrow> sub_dropped s < sub_dropped s') \<and> sub_dropped s \<le> sub_dropped s' \<and> sub_inv s'"
  using assms(3,4)
proof (induction ops arbitrary: s' got rule: rev_induct)
  case (snoc op ops)
  obtain t g where t: "queue_run ops s = (t, g)" by fastforce
  with snoc.prems have step: "queue_step op (t, g) = (s', got)" by (simp add: queue_run_def)
  from snoc t have "(sub_overflowed t \<longleftrightarrow> sub_dropped s < sub_dropped t) \<and> sub_dropped s \<le> sub_dropped t \<and> sub_inv t"
    by auto
  with step snoc.prems deliver_inv [of t] drain_inv [of t] show ?case
    by (cases op) (auto simp: deliver_cases drain_def)
qed (use assms in \<open>simp add: queue_run_def\<close>)

section \<open>The dispatcher's books\<close>

definition name_dropped :: "string \<Rightarrow> 'e subscription list \<Rightarrow> nat" where
  "name_dropped name ss = sum_list (map sub_dropped (filter (\<lambda>s. sub_name s = name) ss))"

definition disp_inv :: "'e dispatcher \<Rightarrow> bool" where
  "disp_inv d \<longleftrightarrow>
     distinct (map sub_id (ed_subscriptions d)) \<and>
     (\<forall>s \<in> set (ed_subscriptions d). sub_id s < ed_next_id d \<and> sub_inv s) \<and>
     distinct (map fst (ed_dropped_by_name d)) \<and>
     ed_live_events_dropped d = dispatcher_dropped d \<and>
     (\<forall>name. name_dropped name (ed_subscriptions d) \<le> dropped_for name d)"

definition sheds :: "'e \<Rightarrow> 'e subscription list \<Rightarrow> 'e subscription list" where
  "sheds e ss = filter (\<lambda>s. \<not> snd (deliver e s)) ss"

lemma sum_update:
  "distinct (map fst al) \<Longrightarrow>
     sum_list (map snd (AList.update k (v :: nat) al)) + (case map_of al k of None \<Rightarrow> 0 | Some w \<Rightarrow> w) =
     sum_list (map snd al) + v"
  by (induction al) (auto split: option.split dest: map_of_SomeD)

lemma record_shed_simps [simp]:
  "ed_subscriptions (record_shed n d) = ed_subscriptions d"
  "ed_next_id (record_shed n d) = ed_next_id d"
  "ed_published (record_shed n d) = ed_published d"
  "ed_live_events_dropped (record_shed n d) = ed_live_events_dropped d"
  "dropped_for m (record_shed n d) = dropped_for m d + (if m = n then 1 else 0)"
  by (simp_all add: record_shed_def dropped_for_def AList.update_conv')

lemma record_shed_distinct:
  "distinct (map fst (ed_dropped_by_name d)) \<Longrightarrow>
     distinct (map fst (ed_dropped_by_name (record_shed n d)))"
  by (simp add: record_shed_def AList.distinct_update)

lemma record_shed_total:
  "distinct (map fst (ed_dropped_by_name d)) \<Longrightarrow>
     dispatcher_dropped (record_shed n d) = Suc (dispatcher_dropped d)"
  using sum_update [of "ed_dropped_by_name d" n "dropped_for n d + 1"]
  by (auto simp: record_shed_def dispatcher_dropped_def dropped_for_def split: option.splits)

lemma deliver_all_effect:
  "deliver_all e ss d = (ss', d') \<Longrightarrow> distinct (map fst (ed_dropped_by_name d)) \<Longrightarrow>
     ss' = map (\<lambda>s. fst (deliver e s)) ss \<and>
     ed_next_id d' = ed_next_id d \<and> ed_published d' = ed_published d \<and>
     distinct (map fst (ed_dropped_by_name d')) \<and>
     (\<forall>n. dropped_for n d' = dropped_for n d + length (filter (\<lambda>s. sub_name s = n) (sheds e ss))) \<and>
     ed_live_events_dropped d' = ed_live_events_dropped d + length (sheds e ss) \<and>
     dispatcher_dropped d' = dispatcher_dropped d + length (sheds e ss)"
proof (induction ss arbitrary: d ss' d')
  case (Cons s ss)
  obtain t kept where t: "deliver e s = (t, kept)" by fastforce
  let ?c = "d\<lparr>ed_live_events_dropped := Suc (ed_live_events_dropped d)\<rparr>"
  have c: "dropped_for n ?c = dropped_for n d" "dispatcher_dropped ?c = dispatcher_dropped d" for n
    by (simp_all add: dropped_for_def dispatcher_dropped_def)
  obtain ts d1 where d1: "deliver_all e ss (if kept then d else record_shed (sub_name s) ?c) = (ts, d1)"
    by fastforce
  from Cons.IH [OF d1] Cons.prems t d1 record_shed_distinct [of ?c "sub_name s"]
    record_shed_total [of ?c "sub_name s"]
  show ?case by (auto simp: sheds_def Let_def c split: if_splits)
qed (simp add: sheds_def)

lemma publish_effect:
  assumes "disp_inv d"
  shows "ed_subscriptions (publish e d) = map (\<lambda>s. fst (deliver e s)) (ed_subscriptions d)"
    "ed_published (publish e d) = Suc (ed_published d)"
    "ed_live_events_dropped (publish e d) =
       ed_live_events_dropped d + length (sheds e (ed_subscriptions d))"
proof -
  let ?d = "d\<lparr>ed_published := Suc (ed_published d)\<rparr>"
  obtain ss d' where d': "deliver_all e (ed_subscriptions d) ?d = (ss, d')" by fastforce
  from deliver_all_effect [OF d'] assms
  show "ed_subscriptions (publish e d) = map (\<lambda>s. fst (deliver e s)) (ed_subscriptions d)"
    "ed_published (publish e d) = Suc (ed_published d)"
    "ed_live_events_dropped (publish e d) =
       ed_live_events_dropped d + length (sheds e (ed_subscriptions d))"
    by (simp_all add: publish_def d' disp_inv_def)
qed

lemma name_dropped_deliver:
  "\<forall>s \<in> set ss. sub_inv s \<Longrightarrow>
     name_dropped n (map (\<lambda>s. fst (deliver e s)) ss) =
       name_dropped n ss + length (filter (\<lambda>s. sub_name s = n) (sheds e ss))"
  by (induction ss) (auto simp: name_dropped_def sheds_def deliver_dropped)

lemma publish_inv:
  assumes "disp_inv d"
  shows "disp_inv (publish e d)"
proof -
  let ?d = "d\<lparr>ed_published := Suc (ed_published d)\<rparr>"
  have d: "dropped_for n ?d = dropped_for n d" "dispatcher_dropped ?d = dispatcher_dropped d" for n
    by (simp_all add: dropped_for_def dispatcher_dropped_def)
  obtain ss d' where d': "deliver_all e (ed_subscriptions d) ?d = (ss, d')" by fastforce
  have upd: "dropped_for n (d'\<lparr>ed_subscriptions := xs\<rparr>) = dropped_for n d'"
    "dispatcher_dropped (d'\<lparr>ed_subscriptions := xs\<rparr>) = dispatcher_dropped d'" for n xs
    by (simp_all add: dropped_for_def dispatcher_dropped_def)
  have ids: "map sub_id (map (\<lambda>s. fst (deliver e s)) (ed_subscriptions d)) =
      map sub_id (ed_subscriptions d)" by simp
  have subs: "\<forall>s \<in> set (ed_subscriptions d). sub_inv s" using assms by (simp add: disp_inv_def)
  from deliver_all_effect [OF d'] assms name_dropped_deliver [OF subs]
  show ?thesis
    by (auto simp: publish_def d' disp_inv_def d upd ids comp_def deliver_inv simp del: map_map)
qed

lemma name_dropped_filter: "name_dropped n (filter P ss) \<le> name_dropped n ss"
  by (induction ss) (auto simp: name_dropped_def)

lemma detach_inv: "disp_inv d \<Longrightarrow> disp_inv (detach i d)"
proof -
  assume d: "disp_inv d"
  have "dropped_for n (detach i d) = dropped_for n d" "dispatcher_dropped (detach i d) = dispatcher_dropped d" for n
    by (simp_all add: detach_def dropped_for_def dispatcher_dropped_def)
  moreover have "distinct (map sub_id (filter (\<lambda>s. sub_id s \<noteq> i) (ed_subscriptions d)))"
    using d by (simp add: disp_inv_def distinct_map_filter)
  ultimately show ?thesis
    using d by (auto simp: disp_inv_def detach_def intro: order_trans [OF name_dropped_filter])
qed

lemma subscribe_inv:
  assumes "disp_inv d" "subscribe name m d = Inr (i, d')"
  shows "disp_inv d'"
  using assms
  by (auto simp: subscribe_def bindE_Inr_iff new_subscription_def disp_inv_def dropped_for_def
      dispatcher_dropped_def name_dropped_def sub_inv_def less_Suc_eq split: if_splits)
    (metis less_irrefl)

lemma new_dispatcher_inv: "disp_inv new_dispatcher"
  by (simp add: new_dispatcher_def disp_inv_def dispatcher_dropped_def name_dropped_def)

definition publish_all :: "'e list \<Rightarrow> 'e dispatcher \<Rightarrow> 'e dispatcher" where
  "publish_all es d = fold publish es d"

lemma publish_all_subscriptions:
  "disp_inv d \<Longrightarrow> disp_inv (publish_all es d) \<and>
     ed_subscriptions (publish_all es d) =
       map (fold (\<lambda>e s. fst (deliver e s)) es) (ed_subscriptions d)"
proof (induction es arbitrary: d)
  case (Cons e es)
  from Cons.IH [OF publish_inv [OF Cons.prems]] publish_effect(1) [OF Cons.prems, of e]
  show ?case by (simp add: publish_all_def comp_def)
qed (simp add: publish_all_def map_idI)

datatype 'e disp_op = Publish 'e | Subscribe string nat | Detach nat

fun disp_step :: "'e disp_op \<Rightarrow> 'e dispatcher \<Rightarrow> 'e dispatcher" where
  "disp_step (Publish e) d = publish e d"
| "disp_step (Subscribe name m) d = (case subscribe name m d of Inl _ \<Rightarrow> d | Inr (_, d') \<Rightarrow> d')"
| "disp_step (Detach i) d = detach i d"

lemma disp_run_inv: "disp_inv d \<Longrightarrow> disp_inv (fold disp_step ops d)"
proof (induction ops arbitrary: d)
  case (Cons op ops)
  have "disp_inv (disp_step op d)"
    using Cons.prems
    by (cases op) (auto simp: publish_inv detach_inv split: sum.split intro: subscribe_inv)
  then show ?case using Cons.IH by simp
qed simp

section \<open>Properties\<close>


text \<open>
  A gap is never silent: starting from a subscription whose flag is down, the flag is
  up exactly when something has been shed since, until the consumer acknowledges it.
\<close>

theorem gap_is_flagged:
  assumes "sub_inv s" and "\<not> sub_overflowed s" and "Acknowledge \<notin> set ops"
    and "queue_run ops s = (s', got)"
  shows "sub_overflowed s' \<longleftrightarrow> sub_dropped s < sub_dropped s'"
  using overflow_flag_run [OF assms(2,1,3,4)] by blast

text \<open>
  Publishing never waits and keeps every subscriber's tail current: after any
  sequence of events each subscriber holds the newest of what it held followed by what was
  published, up to its own bound, whatever the other subscribers do.
\<close>

theorem publish_keeps_tails:
  assumes "disp_inv d"
  shows "map sub_queue (ed_subscriptions (publish_all es d)) =
     map (\<lambda>s. last_n (sub_maxsize s) (sub_queue s @ es)) (ed_subscriptions d)"
  using assms publish_all_subscriptions [OF assms, of es]
  by (auto simp: disp_inv_def event_queue.offer_all_contents)

text \<open>
  Shedding is attributed: whatever is published, subscribed and detached, the
  process-wide counter is the sum of the per-name tallies, and each name's tally covers what its
  attached subscriptions have shed.
\<close>

theorem dispatcher_books:
  "let d = fold disp_step ops new_dispatcher
   in ed_live_events_dropped d = dispatcher_dropped d \<and>
      name_dropped name (ed_subscriptions d) \<le> dropped_for name d"
  using disp_run_inv [OF new_dispatcher_inv, of ops] by (simp add: disp_inv_def Let_def)

section \<open>Witnesses\<close>

definition sample_subscription :: "nat subscription" where
  "sample_subscription =
     \<lparr>sub_id = 0, sub_name = ''ws'', sub_maxsize = 2, sub_queue = [], sub_dropped = 0,
      sub_overflowed = False\<rparr>"

lemma sample_subscription_new: "new_subscription 0 ''ws'' 2 = Inr sample_subscription"
  by (simp add: new_subscription_def sample_subscription_def)


theorem gap_is_flagged_witness:
  "sub_overflowed (fst (queue_run [Deliver 2, Deliver 3, Deliver (4::nat)] sample_subscription))"
proof -
  obtain s' got where run: "queue_run [Deliver 2, Deliver 3, Deliver 4] sample_subscription = (s', got)"
    by fastforce
  have s: "sub_inv sample_subscription" "\<not> sub_overflowed sample_subscription"
    by (simp_all add: sub_inv_def sample_subscription_def)
  from run have "sub_dropped sample_subscription < sub_dropped s'"
    by (auto simp: queue_run_def deliver_def put_nowait_def shed_def sample_subscription_def)
  with gap_is_flagged [OF s _ run] run show ?thesis by simp
qed

theorem publish_keeps_tails_witness:
  "map sub_queue (ed_subscriptions (publish_all [1, 2, 3] (new_dispatcher\<lparr>ed_subscriptions :=
      [sample_subscription], ed_next_id := 1\<rparr>))) = [[2, 3]]"
proof -
  let ?d = "new_dispatcher\<lparr>ed_subscriptions := [sample_subscription], ed_next_id := 1\<rparr>"
  have "disp_inv ?d"
    by (simp add: disp_inv_def new_dispatcher_def sample_subscription_def sub_inv_def
        dispatcher_dropped_def name_dropped_def)
  from publish_keeps_tails [OF this, of "[1, 2, 3]"] show ?thesis
    by (simp add: sample_subscription_def last_n_def)
qed

end
