(* ===== verification/LiveStore.thy ===== *)
theory LiveStore
  imports Events
begin

text \<open>
  \<^verbatim>\<open>live/store.py\<close>: the in-memory registry of live aircraft. The dictionary keeps insertion
  order, so it is an association list; the monotonic clock is read once per operation and is the
  argument \<open>now\<close>. An operation that raises half-way keeps what it did before, so \<open>apply_updates\<close>
  returns the store together with the exception, if any. The background task only calls \<open>sweep\<close>
  at an interval.
\<close>

section \<open>State\<close>

definition DEFAULT_STALE_S :: real where "DEFAULT_STALE_S = 15"
definition DEFAULT_REMOVE_S :: real where "DEFAULT_REMOVE_S = 60"
definition DEFAULT_SWEEP_INTERVAL_S :: real where "DEFAULT_SWEEP_INTERVAL_S = 1"

record live_counts =
  lc_total :: nat
  lc_positioned :: nat
  lc_non_positioned :: nat
  lc_stale :: nat

record live_store =
  ls_stale_s :: real
  ls_remove_s :: real
  ls_receiver_location :: "position option"
  ls_track_capacity :: nat
  ls_sweep_interval_s :: real
  ls_dispatcher :: "live_event dispatcher"
  ls_aircraft :: "(string \<times> live_aircraft) list"

definition new_store ::
  "real \<Rightarrow> real \<Rightarrow> position option \<Rightarrow> nat \<Rightarrow> real \<Rightarrow> live_event dispatcher \<Rightarrow> live_store result" where
  "new_store stale_s remove_s receiver track_capacity sweep_interval_s d =
     (if stale_s \<le> 0 then Inl ValueError
      else if remove_s \<le> stale_s then Inl ValueError
      else if sweep_interval_s \<le> 0 then Inl ValueError
      else Inr \<lparr>ls_stale_s = stale_s, ls_remove_s = remove_s, ls_receiver_location = receiver,
                ls_track_capacity = track_capacity, ls_sweep_interval_s = sweep_interval_s,
                ls_dispatcher = d, ls_aircraft = []\<rparr>)"

definition set_receiver_location :: "position option \<Rightarrow> live_store \<Rightarrow> live_store" where
  "set_receiver_location location st = st\<lparr>ls_receiver_location := location\<rparr>"

section \<open>Reads\<close>

definition store_get :: "live_store \<Rightarrow> string \<Rightarrow> live_aircraft option" where
  "store_get st icao = map_of (ls_aircraft st) icao"

definition snapshot :: "live_store \<Rightarrow> live_aircraft list" where
  "snapshot st = map snd (ls_aircraft st)"

fun count_loop :: "live_aircraft list \<Rightarrow> nat \<Rightarrow> nat \<Rightarrow> nat \<times> nat" where
  "count_loop [] positioned stale = (positioned, stale)"
| "count_loop (a # as) positioned stale =
     count_loop as (if la_has_position a then Suc positioned else positioned)
       (if la_state a = Stale then Suc stale else stale)"

definition counts :: "live_store \<Rightarrow> live_counts" where
  "counts st =
     (let (positioned, stale) = count_loop (snapshot st) 0 0;
          total = length (ls_aircraft st)
      in \<lparr>lc_total = total, lc_positioned = positioned, lc_non_positioned = total - positioned,
          lc_stale = stale\<rparr>)"

section \<open>Writes\<close>

definition store_publish :: "live_event \<Rightarrow> live_store \<Rightarrow> live_store" where
  "store_publish e st = st\<lparr>ls_dispatcher := publish e (ls_dispatcher st)\<rparr>"

definition apply_update :: "aircraft_update \<Rightarrow> real \<Rightarrow> live_store \<Rightarrow> live_store \<times> py_exn option" where
  "apply_update u now st = (case store_get st (au_icao u) of
       None \<Rightarrow>
         if ls_remove_s st \<le> reported_silence_s u then (st, None)
         else (case appear u now (ls_receiver_location st) (ls_track_capacity st) of
                 Inl x \<Rightarrow> (st, Some x)
               | Inr a \<Rightarrow>
                   (store_publish (AircraftAppeared a (la_last_seen a))
                      (st\<lparr>ls_aircraft := AList.update (au_icao u) a (ls_aircraft st)\<rparr>), None))
     | Some current \<Rightarrow>
         (case merge current u now (ls_stale_s st) (ls_receiver_location st) of
            (a, changed) \<Rightarrow>
              (store_publish (AircraftUpdated a (la_last_seen a) changed)
                 (st\<lparr>ls_aircraft := AList.update (au_icao u) a (ls_aircraft st)\<rparr>), None)))"

fun apply_updates ::
  "aircraft_update list \<Rightarrow> real \<Rightarrow> live_store \<Rightarrow> live_store \<times> py_exn option" where
  "apply_updates [] now st = (st, None)"
| "apply_updates (u # us) now st = (case apply_update u now st of
       (st', None) \<Rightarrow> apply_updates us now st'
     | (st', Some x) \<Rightarrow> (st', Some x))"

definition apply_batch :: "aircraft_batch \<Rightarrow> real \<Rightarrow> live_store \<Rightarrow> live_store \<times> py_exn option" where
  "apply_batch b now st = apply_updates (ab_updates b) now st"

text \<open>The two loops of \<^verbatim>\<open>sweep\<close>: the scan over a copy of the items, then the removals.\<close>

fun sweep_scan ::
  "real \<Rightarrow> (string \<times> live_aircraft) list \<Rightarrow> live_store \<Rightarrow> live_aircraft list
     \<Rightarrow> live_store \<times> live_aircraft list" where
  "sweep_scan now [] st removed = (st, removed)"
| "sweep_scan now ((icao, a) # items) st removed =
     (let age = la_age_s a now
      in if ls_remove_s st \<le> age then sweep_scan now items st (removed @ [a])
         else if ls_stale_s st \<le> age \<and> la_state a \<noteq> Stale then
           let stale = mark_stale a
           in sweep_scan now items
                (store_publish (AircraftStale stale (la_last_seen stale))
                  (st\<lparr>ls_aircraft := AList.update icao stale (ls_aircraft st)\<rparr>)) removed
         else sweep_scan now items st removed)"

fun sweep_remove :: "live_aircraft list \<Rightarrow> live_store \<Rightarrow> live_store" where
  "sweep_remove [] st = st"
| "sweep_remove (a # as) st =
     sweep_remove as
       (store_publish (AircraftRemoved a (la_last_seen a))
         (st\<lparr>ls_aircraft := AList.delete (la_icao a) (ls_aircraft st)\<rparr>))"

definition sweep :: "real \<Rightarrow> live_store \<Rightarrow> live_store \<times> live_counts" where
  "sweep now st =
     (let (st1, removed) = sweep_scan now (ls_aircraft st) st [];
          st2 = sweep_remove removed st1
      in (st2, counts st2))"

section \<open>The events of an operation\<close>

text \<open>
  Every write is a change of the registry together with the events that describe it. \<open>replay\<close> is
  what a consumer does with the events; \<open>emits st st' evs\<close> says that a write went from \<open>st\<close> to
  \<open>st'\<close> by publishing \<open>evs\<close> and that replaying them on the old registry gives the new one.
\<close>

fun replay_event :: "live_event \<Rightarrow> (string \<times> live_aircraft) list \<Rightarrow> (string \<times> live_aircraft) list" where
  "replay_event (AircraftAppeared a _) m = AList.update (la_icao a) a m"
| "replay_event (AircraftUpdated a _ _) m = AList.update (la_icao a) a m"
| "replay_event (AircraftStale a _) m = AList.update (la_icao a) a m"
| "replay_event (AircraftRemoved a _) m = AList.delete (la_icao a) m"

definition replay :: "live_event list \<Rightarrow> (string \<times> live_aircraft) list \<Rightarrow> (string \<times> live_aircraft) list" where
  "replay es m = fold replay_event es m"

definition emits :: "live_store \<Rightarrow> live_store \<Rightarrow> live_event list \<Rightarrow> bool" where
  "emits st st' evs \<longleftrightarrow>
     st' = st\<lparr>ls_aircraft := replay evs (ls_aircraft st),
              ls_dispatcher := publish_all evs (ls_dispatcher st)\<rparr>"

lemma emits_refl [simp]: "emits st st []"
  by (simp add: emits_def replay_def publish_all_def)

lemma emits_trans: "emits s t es \<Longrightarrow> emits t u fs \<Longrightarrow> emits s u (es @ fs)"
  by (simp add: emits_def replay_def publish_all_def)

lemma emits_one:
  "st' = store_publish e (st\<lparr>ls_aircraft := m\<rparr>) \<Longrightarrow> m = replay_event e (ls_aircraft st) \<Longrightarrow>
     emits st st' [e]"
  by (simp add: emits_def replay_def publish_all_def store_publish_def)

lemma emits_config:
  "emits st st' evs \<Longrightarrow>
     ls_stale_s st' = ls_stale_s st \<and> ls_remove_s st' = ls_remove_s st \<and>
     ls_receiver_location st' = ls_receiver_location st \<and>
     ls_track_capacity st' = ls_track_capacity st"
  by (simp add: emits_def)

definition keys_match :: "(string \<times> live_aircraft) list \<Rightarrow> bool" where
  "keys_match m \<longleftrightarrow> distinct (map fst m) \<and> (\<forall>(k, a) \<in> set m. la_icao a = k)"

lemma keys_match_lookup: "keys_match m \<Longrightarrow> map_of m k = Some a \<Longrightarrow> la_icao a = k"
  by (auto simp: keys_match_def dest: map_of_SomeD)

lemma keys_match_update: "keys_match m \<Longrightarrow> keys_match (AList.update (la_icao a) a m)"
  by (auto simp: keys_match_def AList.distinct_update dict_set_update)

lemma keys_match_delete: "keys_match m \<Longrightarrow> keys_match (AList.delete k m)"
  by (auto simp: keys_match_def AList.distinct_delete dict_set_delete)

lemma keys_match_replay: "keys_match m \<Longrightarrow> keys_match (replay es m)"
proof (induction es arbitrary: m)
  case (Cons e es)
  have "keys_match (replay_event e m)"
    using Cons.prems by (cases e) (simp_all add: keys_match_update keys_match_delete)
  from Cons.IH [OF this] show ?case by (simp add: replay_def)
qed (simp add: replay_def)

lemma apply_update_emits:
  assumes "keys_match (ls_aircraft st)" "apply_update u now st = (st', x)"
  shows "\<exists>evs. emits st st' evs \<and> length evs \<le> 1"
proof (cases "store_get st (au_icao u)")
  case None
  show ?thesis
  proof (cases "ls_remove_s st \<le> reported_silence_s u
      \<or> (\<exists>y. appear u now (ls_receiver_location st) (ls_track_capacity st) = Inl y)")
    case True
    with None assms(2) have "st' = st" by (auto simp: apply_update_def split: if_splits sum.splits)
    then show ?thesis by (intro exI [of _ "[]"]) simp
  next
    case False
    then obtain a where a: "appear u now (ls_receiver_location st) (ls_track_capacity st) = Inr a"
      by (cases "appear u now (ls_receiver_location st) (ls_track_capacity st)") auto
    have "emits st st' [AircraftAppeared a (la_last_seen a)]"
      using None False assms(2) a appear_Inr(1) [OF a]
      by (intro emits_one [where m = "AList.update (au_icao u) a (ls_aircraft st)"])
         (auto simp: apply_update_def)
    then show ?thesis by (intro exI [of _ "[AircraftAppeared a (la_last_seen a)]"]) simp
  qed
next
  case (Some c)
  let ?m = "merge_record c u now (ls_stale_s st) (ls_receiver_location st)"
  have "la_icao c = au_icao u"
    using keys_match_lookup [OF assms(1)] Some by (simp add: store_get_def)
  then have "emits st st' [AircraftUpdated ?m (la_last_seen ?m) (changed_fields ?m c)]"
    using Some assms(2)
    by (intro emits_one [where m = "AList.update (au_icao u) ?m (ls_aircraft st)"])
       (auto simp: apply_update_def merge_def Let_def)
  then show ?thesis
    by (intro exI [of _ "[AircraftUpdated ?m (la_last_seen ?m) (changed_fields ?m c)]"]) simp
qed

lemma emits_keys: "emits st st' evs \<Longrightarrow> keys_match (ls_aircraft st) \<Longrightarrow> keys_match (ls_aircraft st')"
  by (simp add: emits_def keys_match_replay)

lemma apply_updates_emits:
  assumes "keys_match (ls_aircraft st)" "apply_updates us now st = (st', x)"
  shows "\<exists>evs. emits st st' evs \<and> length evs \<le> length us"
  using assms
proof (induction us arbitrary: st)
  case (Cons u us)
  obtain t y where t: "apply_update u now st = (t, y)" by fastforce
  from apply_update_emits [OF Cons.prems(1) t] obtain es where
    es: "emits st t es" "length es \<le> 1" by blast
  show ?case
  proof (cases y)
    case None
    with Cons.prems t have "apply_updates us now t = (st', x)" by simp
    from Cons.IH [OF emits_keys [OF es(1) Cons.prems(1)] this] obtain fs where
      "emits t st' fs" "length fs \<le> length us" by blast
    with es emits_trans [OF es(1)] show ?thesis
      by (intro exI [of _ "es @ fs"]) auto
  next
    case (Some z)
    with Cons.prems t es show ?thesis by (intro exI [of _ es]) auto
  qed
qed (intro exI [of _ "[]"], simp)

lemma sweep_scan_emits:
  assumes "sweep_scan now items st removed = (st', removed')"
    and "\<forall>(k, a) \<in> set items. la_icao a = k"
  shows "\<exists>evs. emits st st' evs \<and> length evs + length removed' \<le> length items + length removed"
  using assms
proof (induction now items st removed rule: sweep_scan.induct)
  case (2 now icao a items st removed)
  let ?s = "mark_stale a"
  let ?st = "store_publish (AircraftStale ?s (la_last_seen ?s))
      (st\<lparr>ls_aircraft := AList.update icao ?s (ls_aircraft st)\<rparr>)"
  have one: "emits st ?st [AircraftStale ?s (la_last_seen ?s)]"
    using "2.prems"(2) by (intro emits_one) (auto simp: mark_stale_def)
  show ?case
  proof (cases "ls_remove_s st \<le> la_age_s a now")
    case True
    from "2.IH"(1) [OF refl True] "2.prems" True show ?thesis by (auto simp: Let_def)
  next
    case young: False
    show ?thesis
    proof (cases "ls_stale_s st \<le> la_age_s a now \<and> la_state a \<noteq> Stale")
      case True
      from "2.IH"(2) [OF refl young True refl] "2.prems" young True obtain fs where
        "emits ?st st' fs" "length fs + length removed' \<le> length items + length removed"
        by (auto simp: Let_def)
      with emits_trans [OF one] show ?thesis
        by (intro exI [of _ "[AircraftStale ?s (la_last_seen ?s)] @ fs"]) auto
    next
      case False
      from "2.IH"(3) [OF refl young False] "2.prems" young False show ?thesis
        by (auto simp: Let_def)
    qed
  qed
qed (intro exI [of _ "[]"], simp)

lemma sweep_remove_emits:
  "emits st (sweep_remove as st) (map (\<lambda>a. AircraftRemoved a (la_last_seen a)) as)"
proof (induction as arbitrary: st)
  case (Cons a as)
  have "emits st (store_publish (AircraftRemoved a (la_last_seen a))
      (st\<lparr>ls_aircraft := AList.delete (la_icao a) (ls_aircraft st)\<rparr>))
      [AircraftRemoved a (la_last_seen a)]"
    by (rule emits_one) simp_all
  from emits_trans [OF this Cons.IH] show ?case by simp
qed simp

lemma sweep_emits:
  assumes "keys_match (ls_aircraft st)"
  shows "\<exists>evs. emits st (fst (sweep now st)) evs \<and> length evs \<le> length (ls_aircraft st)"
proof -
  obtain t removed where t: "sweep_scan now (ls_aircraft st) st [] = (t, removed)" by fastforce
  have "\<forall>(k, a) \<in> set (ls_aircraft st). la_icao a = k"
    using assms by (auto simp: keys_match_def)
  from sweep_scan_emits [OF t this] obtain es where
    es: "emits st t es" "length es + length removed \<le> length (ls_aircraft st)" by auto
  have "fst (sweep now st) = sweep_remove removed t" by (simp add: sweep_def t Let_def)
  with emits_trans [OF es(1) sweep_remove_emits [of t removed]] es(2) show ?thesis
    by (intro exI [of _ "es @ map (\<lambda>a. AircraftRemoved a (la_last_seen a)) removed"]) simp
qed

section \<open>What a sweep does to each record\<close>

definition swept :: "live_store \<Rightarrow> real \<Rightarrow> live_aircraft \<Rightarrow> live_aircraft option" where
  "swept st now a =
     (if ls_remove_s st \<le> la_age_s a now then None
      else if ls_stale_s st \<le> la_age_s a now then Some (mark_stale a) else Some a)"

lemma store_publish_aircraft [simp]: "ls_aircraft (store_publish e st) = ls_aircraft st"
  "ls_remove_s (store_publish e st) = ls_remove_s st"
  "ls_stale_s (store_publish e st) = ls_stale_s st"
  by (simp_all add: store_publish_def)

lemma sweep_scan_lookup:
  "sweep_scan now items st removed = (st', removed') \<Longrightarrow> distinct (map fst items) \<Longrightarrow>
     ls_remove_s st' = ls_remove_s st \<and> ls_stale_s st' = ls_stale_s st \<and>
     removed' = removed @ map snd (filter (\<lambda>(k, a). ls_remove_s st \<le> la_age_s a now) items) \<and>
     map_of (ls_aircraft st') k = (case map_of items k of
         None \<Rightarrow> map_of (ls_aircraft st) k
       | Some a \<Rightarrow> if la_age_s a now < ls_remove_s st \<and> ls_stale_s st \<le> la_age_s a now \<and> la_state a \<noteq> Stale
                   then Some (mark_stale a) else map_of (ls_aircraft st) k)"
proof (induction now items st removed rule: sweep_scan.induct)
  case (2 now icao a items st removed)
  show ?case
  proof (cases "ls_remove_s st \<le> la_age_s a now")
    case True
    have "map_of items icao = None" using "2.prems"(2) by (simp add: map_of_eq_None_iff)
    with "2.IH"(1) [OF refl True] "2.prems" True show ?thesis
      by (auto simp: Let_def split: option.split)
  next
    case young: False
    show ?thesis
    proof (cases "ls_stale_s st \<le> la_age_s a now \<and> la_state a \<noteq> Stale")
      case True
      have "map_of items icao = None" using "2.prems"(2) by (simp add: map_of_eq_None_iff)
      with "2.IH"(2) [OF refl young True refl] "2.prems" young True show ?thesis
        by (auto simp: Let_def dict_simps split: option.split)
    next
      case False
      have "map_of items icao = None" using "2.prems"(2) by (simp add: map_of_eq_None_iff)
      with "2.IH"(3) [OF refl young False] "2.prems" young False show ?thesis
        by (auto simp: Let_def split: option.split)
    qed
  qed
qed simp

lemma sweep_remove_lookup:
  "map_of (ls_aircraft (sweep_remove as st)) k =
     (if k \<in> la_icao ` set as then None else map_of (ls_aircraft st) k)"
  by (induction as arbitrary: st) (auto simp: dict_simps)

lemma mark_stale_stale: "la_state a = Stale \<Longrightarrow> mark_stale a = a"
  by (simp add: mark_stale_def)

lemma keys_match_swept:
  assumes "keys_match m"
  shows "k \<in> la_icao ` set (map snd (filter (\<lambda>(k, a). P a) m)) \<longleftrightarrow> (\<exists>a. map_of m k = Some a \<and> P a)"
proof -
  have "map_of m k = Some a \<longleftrightarrow> (k, a) \<in> set m" for a
    using assms by (simp add: keys_match_def map_of_eq_Some_iff)
  moreover have "(k', a) \<in> set m \<Longrightarrow> la_icao a = k'" for k' a
    using assms by (auto simp: keys_match_def)
  ultimately show ?thesis by (force simp: image_iff)
qed

lemma sweep_lookup:
  assumes "keys_match (ls_aircraft st)"
  shows "store_get (fst (sweep now st)) k = Option.bind (store_get st k) (swept st now)"
proof -
  obtain t removed where t: "sweep_scan now (ls_aircraft st) st [] = (t, removed)" by fastforce
  have d: "distinct (map fst (ls_aircraft st))" using assms by (simp add: keys_match_def)
  note scan = sweep_scan_lookup [OF t d, of k]
  have removed: "removed = map snd (filter (\<lambda>(k, a). ls_remove_s st \<le> la_age_s a now) (ls_aircraft st))"
    using scan by simp
  have gone: "k \<in> la_icao ` set removed \<longleftrightarrow>
      (\<exists>a. map_of (ls_aircraft st) k = Some a \<and> ls_remove_s st \<le> la_age_s a now)"
    unfolding removed by (rule keys_match_swept [OF assms])
  have get: "store_get (fst (sweep now st)) k =
      (if k \<in> la_icao ` set removed then None else map_of (ls_aircraft t) k)"
    by (simp add: sweep_def t Let_def store_get_def sweep_remove_lookup)
  have now: "map_of (ls_aircraft t) k = (case map_of (ls_aircraft st) k of
         None \<Rightarrow> map_of (ls_aircraft st) k
       | Some a \<Rightarrow> if la_age_s a now < ls_remove_s st \<and> ls_stale_s st \<le> la_age_s a now \<and> la_state a \<noteq> Stale
                   then Some (mark_stale a) else map_of (ls_aircraft st) k)"
    using scan by simp
  show ?thesis
  proof (cases "map_of (ls_aircraft st) k")
    case None
    with gone show ?thesis unfolding get now by (simp add: store_get_def)
  next
    case (Some a)
    with gone show ?thesis
      unfolding get now
      by (cases "la_state a = Stale")
         (simp_all add: store_get_def swept_def mark_stale_stale)
  qed
qed

section \<open>Invariant\<close>

text \<open>
  At clock reading \<open>now\<close>: the thresholds are ordered, each record is filed under its own address
  and consistent, no observation lies in the future, and a record is stale only if it has been
  silent for at least the stale threshold.
\<close>

definition record_ok :: "live_store \<Rightarrow> real \<Rightarrow> live_aircraft \<Rightarrow> bool" where
  "record_ok st now a \<longleftrightarrow>
     live_inv a \<and> la_last_seen_monotonic a \<le> now \<and>
     (la_state a = Stale \<longrightarrow> ls_stale_s st \<le> la_age_s a now)"

definition store_inv :: "real \<Rightarrow> live_store \<Rightarrow> bool" where
  "store_inv now st \<longleftrightarrow>
     0 < ls_stale_s st \<and> ls_stale_s st < ls_remove_s st \<and> 0 < ls_track_capacity st \<and>
     keys_match (ls_aircraft st) \<and>
     (\<forall>k a. store_get st k = Some a \<longrightarrow> record_ok st now a)"

lemma store_inv_later: "store_inv now st \<Longrightarrow> now \<le> now' \<Longrightarrow> store_inv now' st"
  by (fastforce simp: store_inv_def record_ok_def la_age_s_def)

lemma new_store_inv: "new_store st rm r cap iv d = Inr s \<Longrightarrow> 0 < cap \<Longrightarrow> store_inv now s"
  by (auto simp: new_store_def store_inv_def keys_match_def store_get_def split: if_splits)

lemma record_ok_appear:
  assumes "appear u now r cap = Inr a" "update_wf u"
  shows "record_ok st now a"
  using appear_inv [OF assms] appear_Inr [OF assms(1)] by (simp add: record_ok_def)

lemma record_ok_merge:
  assumes "record_ok st now a" "update_wf u"
  shows "record_ok st now (merge_record a u now (ls_stale_s st) r)"
  using assms merge_inv [of a u now "ls_stale_s st" r]
  by (auto simp: record_ok_def la_age_s_def)

lemma record_ok_cong:
  "ls_stale_s st' = ls_stale_s st \<Longrightarrow> record_ok st' now a = record_ok st now a"
  by (simp add: record_ok_def)

lemma store_inv_put:
  assumes "store_inv now st" "record_ok st now a"
  shows "store_inv now (store_publish e (st\<lparr>ls_aircraft := AList.update (la_icao a) a (ls_aircraft st)\<rparr>))"
  using assms keys_match_update [of "ls_aircraft st" a]
  by (auto simp: store_inv_def store_publish_def store_get_def dict_simps record_ok_def)

lemma apply_update_inv:
  assumes "store_inv now st" "update_wf u" "apply_update u now st = (st', x)"
  shows "store_inv now st' \<and> x = None"
proof (cases "store_get st (au_icao u)")
  case None
  obtain a where a: "appear u now (ls_receiver_location st) (ls_track_capacity st) = Inr a"
    using appear_ok [of "ls_track_capacity st" u now "ls_receiver_location st"] assms(1)
    by (auto simp: store_inv_def)
  from store_inv_put [OF assms(1) record_ok_appear [OF a assms(2)]] appear_Inr(1) [OF a]
  show ?thesis using None a assms by (auto simp: apply_update_def split: if_splits)
next
  case (Some c)
  have c: "la_icao c = au_icao u" "record_ok st now c"
    using Some assms(1) keys_match_lookup by (auto simp: store_inv_def store_get_def)
  from store_inv_put [OF assms(1) record_ok_merge [OF c(2) assms(2)]] c(1)
  show ?thesis using Some assms(3) by (auto simp: apply_update_def merge_def Let_def)
qed

lemma apply_updates_inv:
  "store_inv now st \<Longrightarrow> \<forall>u \<in> set us. update_wf u \<Longrightarrow> apply_updates us now st = (st', x) \<Longrightarrow>
     store_inv now st' \<and> x = None"
proof (induction us arbitrary: st)
  case (Cons u us)
  obtain t y where t: "apply_update u now st = (t, y)" by fastforce
  from apply_update_inv [OF Cons.prems(1) _ t] Cons.prems have "store_inv now t" "y = None" by auto
  with Cons t show ?case by auto
qed simp

lemma sweep_config:
  "keys_match (ls_aircraft st) \<Longrightarrow>
     ls_stale_s (fst (sweep now st)) = ls_stale_s st \<and> ls_remove_s (fst (sweep now st)) = ls_remove_s st \<and>
     ls_track_capacity (fst (sweep now st)) = ls_track_capacity st \<and>
     keys_match (ls_aircraft (fst (sweep now st)))"
  using sweep_emits [of st now] by (auto dest: emits_config emits_keys)

lemma sweep_inv: "store_inv now st \<Longrightarrow> store_inv now (fst (sweep now st))"
proof -
  assume inv: "store_inv now st"
  then have keys: "keys_match (ls_aircraft st)" by (simp add: store_inv_def)
  show ?thesis
    using inv sweep_config [OF keys, of now]
    by (auto simp: store_inv_def sweep_lookup [OF keys] bind_eq_Some_conv swept_def record_ok_def
        mark_stale_inv split: if_splits)
qed

section \<open>The store as a transition system\<close>

text \<open>
  What the process does to the store, at a monotonic clock reading: a poll, a tick of the sweep
  task, a new receiver location, a consumer that attaches or leaves.
\<close>

inductive store_step :: "real \<times> live_store \<Rightarrow> real \<times> live_store \<Rightarrow> bool" where
  poll: "now \<le> now' \<Longrightarrow> \<forall>u \<in> set (ab_updates b). update_wf u \<Longrightarrow> apply_batch b now' st = (st', x) \<Longrightarrow>
     store_step (now, st) (now', st')"
| tick: "now \<le> now' \<Longrightarrow> store_step (now, st) (now', fst (sweep now' st))"
| relocate: "store_step (now, st) (now, set_receiver_location loc st)"
| attach: "subscribe name m (ls_dispatcher st) = Inr (i, d) \<Longrightarrow>
     store_step (now, st) (now, st\<lparr>ls_dispatcher := d\<rparr>)"
| leave: "store_step (now, st) (now, st\<lparr>ls_dispatcher := detach i (ls_dispatcher st)\<rparr>)"

inductive_cases store_step_cases: "store_step (now, st) (now', st')"

lemma store_inv_cong:
  "ls_stale_s st' = ls_stale_s st \<Longrightarrow> ls_remove_s st' = ls_remove_s st \<Longrightarrow>
     ls_track_capacity st' = ls_track_capacity st \<Longrightarrow> ls_aircraft st' = ls_aircraft st \<Longrightarrow>
     store_inv now st' = store_inv now st"
  by (simp add: store_inv_def record_ok_def store_get_def)

lemma store_step_inv:
  assumes "store_step (now, st) (now', st')" "store_inv now st"
  shows "store_inv now' st' \<and> now \<le> now'"
  using assms(1)
proof (cases rule: store_step_cases [consumes 1, case_names poll tick relocate attach leave])
  case (poll b x)
  from apply_updates_inv [OF store_inv_later [OF assms(2) poll(1)] poll(2)] poll(1,3)
  show ?thesis by (simp add: apply_batch_def)
next
  case tick
  with sweep_inv [OF store_inv_later [OF assms(2)]] show ?thesis by simp
next
  case (relocate loc)
  have "store_inv now st' = store_inv now st"
    unfolding relocate by (rule store_inv_cong) (simp_all add: set_receiver_location_def)
  with assms(2) relocate show ?thesis by simp
next
  case (attach name m i d)
  have "store_inv now st' = store_inv now st" unfolding attach by (rule store_inv_cong) simp_all
  with assms(2) attach show ?thesis by simp
next
  case (leave i)
  have "store_inv now st' = store_inv now st" unfolding leave by (rule store_inv_cong) simp_all
  with assms(2) leave show ?thesis by simp
qed

lemma store_reachable_inv:
  assumes "store_step\<^sup>*\<^sup>* (now, st) (now', st')" "store_inv now st"
  shows "store_inv now' st'"
  using assms
proof (induction rule: rtranclp_induct2)
  case (step t u t' u')
  then show ?case using store_step_inv by blast
qed simp

section \<open>Each aircraft by itself\<close>

text \<open>
  The specification of one aircraft: what a report and a sweep do to its record, with no other
  aircraft in sight.
\<close>

datatype store_op = Poll "aircraft_update list" real | SweepAt real

fun store_op_run :: "store_op \<Rightarrow> live_store \<Rightarrow> live_store" where
  "store_op_run (Poll us now) st = fst (apply_updates us now st)"
| "store_op_run (SweepAt now) st = fst (sweep now st)"

definition heard :: "live_store \<Rightarrow> real \<Rightarrow> aircraft_update \<Rightarrow> live_aircraft option \<Rightarrow> live_aircraft option" where
  "heard st now u a = (case a of
       None \<Rightarrow> if ls_remove_s st \<le> reported_silence_s u then None
               else Some (projr (appear u now (ls_receiver_location st) (ls_track_capacity st)))
     | Some c \<Rightarrow> Some (merge_record c u now (ls_stale_s st) (ls_receiver_location st)))"

fun aircraft_step :: "live_store \<Rightarrow> string \<Rightarrow> store_op \<Rightarrow> live_aircraft option \<Rightarrow> live_aircraft option" where
  "aircraft_step st k (Poll us now) a = fold (heard st now) (filter (\<lambda>u. au_icao u = k) us) a"
| "aircraft_step st k (SweepAt now) a = Option.bind a (swept st now)"

definition same_config :: "live_store \<Rightarrow> live_store \<Rightarrow> bool" where
  "same_config st st' \<longleftrightarrow>
     ls_stale_s st' = ls_stale_s st \<and> ls_remove_s st' = ls_remove_s st \<and>
     ls_receiver_location st' = ls_receiver_location st \<and>
     ls_track_capacity st' = ls_track_capacity st"

lemma same_config_emits: "emits st st' evs \<Longrightarrow> same_config st st'"
  by (simp add: same_config_def emits_config)

lemma same_config_trans: "same_config s t \<Longrightarrow> same_config t u \<Longrightarrow> same_config s u"
  by (simp add: same_config_def)

lemma heard_cong: "same_config st st' \<Longrightarrow> heard st' now u a = heard st now u a"
  by (cases a) (simp_all add: heard_def same_config_def)

lemma aircraft_step_cong: "same_config st st' \<Longrightarrow> aircraft_step st' k op a = aircraft_step st k op a"
proof (cases op)
  case (Poll us now)
  assume "same_config st st'"
  then have "heard st' now = heard st now" by (intro ext heard_cong)
  then show ?thesis by (simp add: Poll)
next
  case (SweepAt now)
  assume "same_config st st'"
  then have "swept st' now = swept st now" by (intro ext) (simp add: same_config_def swept_def)
  then show ?thesis by (simp add: SweepAt)
qed

lemma apply_update_lookup:
  assumes "0 < ls_track_capacity st"
  shows "store_get (fst (apply_update u now st)) k =
      (if au_icao u = k then heard st now u (store_get st k) else store_get st k)
    \<and> snd (apply_update u now st) = None"
proof -
  obtain a where "appear u now (ls_receiver_location st) (ls_track_capacity st) = Inr a"
    using appear_ok [OF assms] by blast
  then show ?thesis
    by (auto simp: apply_update_def heard_def merge_def Let_def store_get_def dict_simps
        split: option.split)
qed

lemma apply_updates_lookup:
  "0 < ls_track_capacity st \<Longrightarrow> keys_match (ls_aircraft st) \<Longrightarrow>
     store_get (fst (apply_updates us now st)) k =
       fold (heard st now) (filter (\<lambda>u. au_icao u = k) us) (store_get st k)
     \<and> snd (apply_updates us now st) = None"
proof (induction us arbitrary: st)
  case (Cons u us)
  obtain t where t: "apply_update u now st = (t, None)" "fst (apply_update u now st) = t"
    using apply_update_lookup [OF Cons.prems(1), of u now k] by (cases "apply_update u now st") auto
  obtain evs where evs: "emits st t evs" using apply_update_emits [OF Cons.prems(2) t(1)] by blast
  then have c: "same_config st t" by (rule same_config_emits)
  then have h: "heard t now = heard st now" by (intro ext heard_cong)
  have "0 < ls_track_capacity t" using Cons.prems(1) c by (simp add: same_config_def)
  from Cons.IH [OF this emits_keys [OF evs Cons.prems(2)]]
    apply_update_lookup [OF Cons.prems(1), of u now k] t
  show ?case by (auto simp: h)
qed simp

lemma store_op_emits:
  assumes "keys_match (ls_aircraft st)"
  shows "\<exists>evs. emits st (store_op_run op st) evs"
proof (cases op)
  case (Poll us now)
  show ?thesis
    using apply_updates_emits [OF assms surjective_pairing, of us now] by (auto simp: Poll)
next
  case (SweepAt now)
  then show ?thesis using sweep_emits [OF assms, of now] by auto
qed

lemma store_op_lookup:
  assumes "0 < ls_track_capacity st" "keys_match (ls_aircraft st)"
  shows "store_get (store_op_run op st) k = aircraft_step st k op (store_get st k)"
  using assms by (cases op) (simp_all add: apply_updates_lookup sweep_lookup)

lemma store_ops_lookup:
  "0 < ls_track_capacity st \<Longrightarrow> keys_match (ls_aircraft st) \<Longrightarrow>
     store_get (fold store_op_run ops st) k = fold (aircraft_step st k) ops (store_get st k)"
proof (induction ops arbitrary: st)
  case (Cons op ops)
  obtain evs where evs: "emits st (store_op_run op st) evs" using store_op_emits Cons.prems by blast
  then have c: "same_config st (store_op_run op st)" by (rule same_config_emits)
  then have h: "aircraft_step (store_op_run op st) k = aircraft_step st k"
    by (intro ext aircraft_step_cong)
  have "0 < ls_track_capacity (store_op_run op st)"
    using Cons.prems(1) c by (simp add: same_config_def)
  from Cons.IH [OF this emits_keys [OF evs Cons.prems(2)]] show ?case
    by (simp add: h store_op_lookup Cons.prems)
qed simp

lemma store_ops_emits:
  "keys_match (ls_aircraft st) \<Longrightarrow> \<exists>evs. emits st (fold store_op_run ops st) evs"
proof (induction ops arbitrary: st)
  case (Cons op ops)
  obtain es where es: "emits st (store_op_run op st) es" using store_op_emits Cons.prems by blast
  obtain fs where "emits (store_op_run op st) (fold store_op_run ops (store_op_run op st)) fs"
    using Cons.IH [OF emits_keys [OF es Cons.prems]] by blast
  with emits_trans [OF es] show ?case by auto
qed (intro exI [of _ "[]"], simp)

lemma age_after_appear: "appear u now r cap = Inr a \<Longrightarrow> la_age_s a now = reported_silence_s u"
  by (simp add: la_age_s_def appear_Inr)

lemma dead_step:
  assumes "keys_match (ls_aircraft st)" "store_get st k = None"
    and "case op of Poll us now \<Rightarrow> \<forall>u \<in> set us. au_icao u = k \<longrightarrow> ls_remove_s st \<le> reported_silence_s u
         | SweepAt now \<Rightarrow> True"
  shows "aircraft_step st k op None = None"
proof (cases op)
  case (Poll us now)
  have "fold (heard st now) us' None = None"
    if "\<forall>u \<in> set us'. ls_remove_s st \<le> reported_silence_s u" for us'
    using that by (induction us') (simp_all add: heard_def)
  then show ?thesis using assms(3) by (simp add: Poll)
qed simp

lemma dead_run:
  assumes "\<forall>op \<in> set ops. case op of
      Poll us now \<Rightarrow> \<forall>u \<in> set us. au_icao u = k \<longrightarrow> ls_remove_s st \<le> reported_silence_s u
    | SweepAt now \<Rightarrow> True"
    and "keys_match (ls_aircraft st)" "store_get st k = None"
  shows "fold (aircraft_step st k) ops None = None"
  using assms(1) by (induction ops) (simp_all add: dead_step [OF assms(2,3)])

lemma count_loop_eq:
  "count_loop as p n =
     (p + length (filter la_has_position as), n + length (filter is_stale as))"
  by (induction as arbitrary: p n) (simp_all add: is_stale_def)

lemma deliver_all_received:
  "sub_inv s \<Longrightarrow> sub_id (fold (\<lambda>e s. fst (deliver e s)) es s) = sub_id s \<and>
     (sub_overflowed s \<longrightarrow> sub_overflowed (fold (\<lambda>e s. fst (deliver e s)) es s)) \<and>
     (sub_overflowed (fold (\<lambda>e s. fst (deliver e s)) es s) \<or>
      sub_queue (fold (\<lambda>e s. fst (deliver e s)) es s) = sub_queue s @ es)"
proof (induction es arbitrary: s)
  case (Cons e es)
  from Cons.IH [OF deliver_inv [OF Cons.prems, of e]] show ?case
    by (auto simp: deliver_cases [OF Cons.prems] split: if_splits)
qed simp

section \<open>Properties\<close>

text \<open>
  Property C1. Whatever sequence of polls, sweeps, relocations and subscriptions a store goes
  through, every live record is filed under its own address, its fields agree with each other,
  its last observation is not in the future, and it is marked stale only while it has been silent
  for the stale threshold; and applying the next batch raises nothing.
\<close>

theorem live_store_invariant:
  assumes "new_store stale_s remove_s receiver cap interval d = Inr st0" "0 < cap"
    and "store_step\<^sup>*\<^sup>* (t0, st0) (now, st)" "\<forall>u \<in> set (ab_updates b). update_wf u"
  shows "(\<forall>k a. store_get st k = Some a \<longrightarrow>
       la_icao a = k \<and> live_inv a \<and> la_last_seen_monotonic a \<le> now \<and>
       (is_stale a \<longrightarrow> ls_stale_s st \<le> la_age_s a now))
     \<and> snd (apply_batch b now st) = None"
proof -
  have inv: "store_inv now st"
    by (rule store_reachable_inv [OF assms(3) new_store_inv [OF assms(1,2)]])
  have "snd (apply_batch b now st) = None"
    using apply_updates_inv [OF inv assms(4) surjective_pairing] by (simp add: apply_batch_def)
  with inv show ?thesis
    by (auto simp: store_inv_def record_ok_def is_stale_def store_get_def keys_match_lookup)
qed

text \<open>
  A sweep settles every record: one silent for the removal threshold leaves the
  live set, any other stays with everything but its lifecycle state unchanged, and after the sweep
  it is stale exactly if it has been silent for the stale threshold.
\<close>

theorem sweep_settles:
  assumes "store_inv now st"
  shows "case store_get st k of
       None \<Rightarrow> store_get (fst (sweep now st)) k = None
     | Some a \<Rightarrow>
         (if ls_remove_s st \<le> la_age_s a now then store_get (fst (sweep now st)) k = None
          else store_get (fst (sweep now st)) k =
                 Some (a\<lparr>la_state := if ls_stale_s st \<le> la_age_s a now then Stale else Live\<rparr>))"
proof (cases "store_get st k")
  case None
  then show ?thesis using assms by (simp add: sweep_lookup store_inv_def)
next
  case (Some a)
  with assms have "record_ok st now a" "keys_match (ls_aircraft st)" by (auto simp: store_inv_def)
  moreover have "la_state a = Live \<Longrightarrow> a\<lparr>la_state := Live\<rparr> = a" by simp
  ultimately show ?thesis
    using Some
    by (cases "la_state a") (auto simp: sweep_lookup swept_def record_ok_def mark_stale_def)
qed

text \<open>
  Aircraft do not interfere: over any sequence of polls and sweeps the record under
  an address is what the reports about that address and the sweeps make of it, one aircraft at a
  time, in the order received.
\<close>

theorem aircraft_independent:
  assumes "store_inv now st"
  shows "store_get (fold store_op_run ops st) k = fold (aircraft_step st k) ops (store_get st k)"
  using assms by (intro store_ops_lookup) (auto simp: store_inv_def)

text \<open>
  An aircraft the decoder keeps listing after it fell silent for the removal
  threshold is never readmitted: while every report about it is that old, no sequence of polls and
  sweeps makes it live.
\<close>

theorem dead_aircraft_stays_out:
  assumes "store_inv now st" "store_get st k = None"
    and "\<forall>op \<in> set ops. case op of
        Poll us t \<Rightarrow> \<forall>u \<in> set us. au_icao u = k \<longrightarrow> ls_remove_s st \<le> reported_silence_s u
      | SweepAt t \<Rightarrow> True"
  shows "store_get (fold store_op_run ops st) k = None"
  using dead_run [OF assms(3) _ assms(2)] assms(1,2)
  by (simp add: store_ops_lookup store_inv_def)

text \<open>
  Admission and removal agree: a report about an aircraft that is not live makes it
  live through the next sweep at the same instant if the decoder heard it within the removal
  threshold, and otherwise leaves the store exactly as it was.
\<close>

theorem admission_agrees_with_sweep:
  assumes "store_inv now st" "store_get st (au_icao u) = None" "update_wf u"
  shows "if reported_silence_s u < ls_remove_s st
     then store_get (fst (sweep now (fst (apply_update u now st)))) (au_icao u) \<noteq> None
     else apply_update u now st = (st, None)"
proof (cases "reported_silence_s u < ls_remove_s st")
  case True
  have cap: "0 < ls_track_capacity st" using assms(1) by (simp add: store_inv_def)
  obtain a where a: "appear u now (ls_receiver_location st) (ls_track_capacity st) = Inr a"
    using appear_ok [OF cap] by blast
  let ?st = "fst (apply_update u now st)"
  have inv: "store_inv now ?st"
    using apply_update_inv [OF assms(1,3) surjective_pairing] by simp
  have "store_get ?st (au_icao u) = Some a"
    using apply_update_lookup [OF cap, of u now "au_icao u"] assms(2) True a by (simp add: heard_def)
  moreover have "ls_remove_s ?st = ls_remove_s st"
    using apply_update_emits [OF _ surjective_pairing, of st u now] assms(1)
    by (auto simp: store_inv_def dest: emits_config)
  ultimately show ?thesis
    using True age_after_appear [OF a] inv by (simp add: sweep_lookup swept_def store_inv_def)
qed (simp add: apply_update_def assms(2))

text \<open>
  Property C2. The event stream is a faithful log: for a subscriber that starts with an empty
  queue and whose buffer did not overflow, replaying what it received on the registry as it was
  gives the registry as it is, records, keys and order, after any polls and sweeps.
\<close>

theorem events_reconstruct_store:
  assumes "store_inv now st" "disp_inv (ls_dispatcher st)"
    and "s \<in> set (ed_subscriptions (ls_dispatcher st))" "sub_queue s = []"
  shows "\<exists>s' \<in> set (ed_subscriptions (ls_dispatcher (fold store_op_run ops st))).
     sub_id s' = sub_id s \<and>
     (sub_overflowed s' \<or> ls_aircraft (fold store_op_run ops st) = replay (sub_queue s') (ls_aircraft st))"
proof -
  have "keys_match (ls_aircraft st)" using assms(1) by (simp add: store_inv_def)
  from store_ops_emits [OF this] obtain evs where
    evs: "emits st (fold store_op_run ops st) evs" by blast
  let ?s = "fold (\<lambda>e s. fst (deliver e s)) evs s"
  have "sub_inv s" using assms(2,3) by (simp add: disp_inv_def)
  from deliver_all_received [OF this, of evs] assms(4) have
    "sub_id ?s = sub_id s \<and> (sub_overflowed ?s \<or> sub_queue ?s = evs)" by auto
  moreover have "?s \<in> set (ed_subscriptions (publish_all evs (ls_dispatcher st)))"
    using publish_all_subscriptions [OF assms(2), of evs] assms(3) by auto
  moreover have "ls_dispatcher (fold store_op_run ops st) = publish_all evs (ls_dispatcher st)"
    "ls_aircraft (fold store_op_run ops st) = replay evs (ls_aircraft st)"
    using evs by (simp_all add: emits_def)
  ultimately show ?thesis by metis
qed

text \<open>
  The summary counts the live set: it reports as many aircraft as the snapshot
  lists, each either with or without a position, and the stale ones among them.
\<close>

theorem counts_partition:
  "let c = counts st
   in lc_total c = length (snapshot st) \<and>
      lc_positioned c = length (filter la_has_position (snapshot st)) \<and>
      lc_non_positioned c = length (filter (\<lambda>a. \<not> la_has_position a) (snapshot st)) \<and>
      lc_stale c = length (filter is_stale (snapshot st))"
  using sum_length_filter_compl [of la_has_position "snapshot st"]
  by (auto simp: counts_def count_loop_eq Let_def snapshot_def)

section \<open>Witnesses\<close>

definition sample_store :: live_store where
  "sample_store = projr (new_store 15 60 None 100 1 new_dispatcher)"

definition sample_batch :: aircraft_batch where
  "sample_batch =
     \<lparr>ab_timestamp = 1000000, ab_updates = [sample_update 1000000 False], ab_skipped = 0,
      ab_skipped_non_icao = 0\<rparr>"

lemma sample_store_new: "new_store 15 60 None 100 1 new_dispatcher = Inr sample_store"
  by (simp add: sample_store_def new_store_def)

lemma sample_store_simps [simp]:
  "ls_remove_s sample_store = 60" "ls_stale_s sample_store = 15" "ls_aircraft sample_store = []"
  "ls_dispatcher sample_store = new_dispatcher" "store_get sample_store k = None"
  by (simp_all add: sample_store_def new_store_def store_get_def)

lemma sample_store_inv: "store_inv now sample_store"
  by (rule new_store_inv [OF sample_store_new]) simp

lemma sample_silence [simp]: "reported_silence_s (sample_update t g) = 1"
  by (simp add: reported_silence_s_def sample_update_def)

theorem live_store_invariant_witness:
  "snd (apply_batch sample_batch 20 (fst (sweep 20 sample_store))) = None"
proof -
  have "store_step\<^sup>*\<^sup>* (10, sample_store) (20, fst (sweep 20 sample_store))"
    by (intro r_into_rtranclp tick) simp
  from live_store_invariant [OF sample_store_new _ this, of sample_batch]
  show ?thesis by (simp add: sample_batch_def sample_update_wf)
qed

theorem sweep_settles_witness: "store_get (fst (sweep 20 sample_store)) ''400abc'' = None"
  using sweep_settles [OF sample_store_inv, of 20 "''400abc''"] by simp

theorem aircraft_independent_witness:
  "store_get (fold store_op_run [Poll [sample_update 0 False] 10, SweepAt 80] sample_store) ''400abc''
     = None"
proof -
  let ?a = "projr (appear (sample_update 0 False) 10 (ls_receiver_location sample_store)
    (ls_track_capacity sample_store))"
  have "0 < ls_track_capacity sample_store" using sample_store_inv by (simp add: store_inv_def)
  then obtain a where a: "appear (sample_update 0 False) 10 (ls_receiver_location sample_store)
    (ls_track_capacity sample_store) = Inr a" using appear_ok by blast
  have "la_age_s ?a 80 = 71"
    using appear_Inr(4) [OF a] by (simp add: a la_age_s_def)
  with aircraft_independent [OF sample_store_inv, of "[Poll [sample_update 0 False] 10, SweepAt 80]"
      "''400abc''"]
  show ?thesis by (simp add: heard_def swept_def sample_update_def reported_silence_s_def)
qed

theorem dead_aircraft_stays_out_witness:
  "store_get (fold store_op_run
     [Poll [(sample_update 0 False)\<lparr>au_seen_s := Some 90\<rparr>] 10, SweepAt 11] sample_store) ''400abc'' = None"
  by (rule dead_aircraft_stays_out [OF sample_store_inv]) (simp_all add: reported_silence_s_def)

theorem admission_agrees_with_sweep_witness:
  "store_get (fst (sweep 10 (fst (apply_update (sample_update 0 False) 10 sample_store)))) ''400abc''
     \<noteq> None"
  using admission_agrees_with_sweep [OF sample_store_inv _ sample_update_wf, of 0 False 10]
  by (simp add: sample_update_def reported_silence_s_def)

theorem events_reconstruct_store_witness:
  "let st = sample_store\<lparr>ls_dispatcher := snd (projr (subscribe ''ws'' 8 new_dispatcher))\<rparr>
   in \<exists>s \<in> set (ed_subscriptions (ls_dispatcher (fold store_op_run [SweepAt 5] st))). sub_id s = 0"
proof -
  let ?d = "snd (projr (subscribe ''ws'' 8 (new_dispatcher :: live_event dispatcher)))"
  let ?st = "sample_store\<lparr>ls_dispatcher := ?d\<rparr>"
  have d: "subscribe ''ws'' 8 new_dispatcher = Inr (0, ?d)"
    by (simp add: subscribe_def new_subscription_def new_dispatcher_def)
  have "store_inv 0 ?st = store_inv 0 sample_store" by (rule store_inv_cong) simp_all
  then have inv: "store_inv 0 ?st" by (simp add: sample_store_inv)
  have disp: "disp_inv (ls_dispatcher ?st)"
    using subscribe_inv [OF new_dispatcher_inv d] by simp
  obtain s where s: "s \<in> set (ed_subscriptions (ls_dispatcher ?st))" "sub_queue s = []" "sub_id s = 0"
    by (simp add: subscribe_def new_subscription_def new_dispatcher_def)
  from events_reconstruct_store [OF inv disp s(1,2), of "[SweepAt 5]"] s(3)
  show ?thesis by (auto simp: Let_def)
qed

end
