(* ===== verification/Clock.thy ===== *)
theory Clock
  imports Prelude
begin

text \<open>
  \<^verbatim>\<open>db/clock.py\<close>: instants as storage keeps them, whole milliseconds since the Unix epoch. A
  \<open>datetime\<close> here always carries its zone, so the refusal of a naive one has no counterpart.
  \<^verbatim>\<open>moment.timestamp() * 1000\<close> is a float in the code and a real here.
\<close>

definition MS_PER_SECOND :: int where "MS_PER_SECOND = 1000"

definition to_epoch_ms :: "datetime \<Rightarrow> int" where
  "to_epoch_ms moment = py_trunc (of_int moment / 1000000 * of_int MS_PER_SECOND)"

definition from_epoch_ms :: "int \<Rightarrow> datetime" where
  "from_epoch_ms epoch_ms = timedelta_us (of_int epoch_ms / of_int MS_PER_SECOND)"

lemma py_trunc_of_int [simp]: "py_trunc (of_int n) = n"
  by (simp add: py_trunc_def)

lemma py_trunc_mono: "x \<le> y \<Longrightarrow> py_trunc x \<le> py_trunc y"
  by (auto simp: py_trunc_def floor_mono ceiling_mono)
    (metis ceiling_mono ceiling_zero floor_mono floor_zero le_cases order_trans)

lemma py_trunc_error: "\<bar>x - of_int (py_trunc x)\<bar> < 1"
  unfolding py_trunc_def by (cases "0 \<le> x") (simp_all, linarith+)

lemma to_epoch_ms_mono: "a \<le> b \<Longrightarrow> to_epoch_ms a \<le> to_epoch_ms b"
  by (simp add: to_epoch_ms_def MS_PER_SECOND_def py_trunc_mono)

lemma from_epoch_ms_exact: "from_epoch_ms m = 1000 * m"
proof -
  have "of_int m / 1000 * 1000000 = (of_int (1000 * m) :: real)" by simp
  then show ?thesis
    unfolding from_epoch_ms_def timedelta_us_def MS_PER_SECOND_def
    by (metis of_int_numeral py_round_of_int)
qed

lemma to_from_epoch_ms: "to_epoch_ms (from_epoch_ms m) = m"
proof -
  have "of_int (1000 * m) / 1000000 * of_int MS_PER_SECOND = (of_int m :: real)"
    by (simp add: MS_PER_SECOND_def)
  then show ?thesis by (simp only: to_epoch_ms_def from_epoch_ms_exact py_trunc_of_int)
qed

end
