(* ===== verification/SightingTracks.thy ===== *)
theory SightingTracks
  imports Track Geo Clock "HOL-Library.Sublist"
begin

text \<open>
  \<^verbatim>\<open>sightings/tracks.py\<close>: a track point in storage's units, the planar metric and the altitude
  deviation, Douglas-Peucker simplification at close, and the thinning of checkpoint batches.
  \<open>cos\<close> and the square root are the real functions. The altitude deviation can be infinite, so
  it has a type of its own, ordered.
\<close>

section \<open>Distances that may be infinite\<close>

datatype ext_real = Fin real | Infinite

instantiation ext_real :: linorder
begin

fun less_eq_ext_real :: "ext_real \<Rightarrow> ext_real \<Rightarrow> bool" where
  "less_eq_ext_real (Fin x) (Fin y) = (x \<le> y)"
| "less_eq_ext_real x Infinite = True"
| "less_eq_ext_real Infinite (Fin y) = False"

definition less_ext_real :: "ext_real \<Rightarrow> ext_real \<Rightarrow> bool" where
  "less_ext_real x y \<longleftrightarrow> x \<le> y \<and> \<not> y \<le> x"

instance
proof
  fix x y z :: ext_real
  show "x \<le> x" by (cases x) simp_all
  show "x \<le> y \<Longrightarrow> y \<le> z \<Longrightarrow> x \<le> z" by (cases x; cases y; cases z) simp_all
  show "x \<le> y \<Longrightarrow> y \<le> x \<Longrightarrow> x = y" by (cases x; cases y) simp_all
  show "x \<le> y \<or> y \<le> x" by (cases x; cases y) auto
qed (simp add: less_ext_real_def)

end

lemma ext_real_less [simp]:
  "Fin x < Fin y \<longleftrightarrow> x < y" "Fin x < Infinite" "\<not> Infinite < z"
  by (cases z; auto simp: less_ext_real_def)+

section \<open>Samples\<close>

definition METRES_PER_DEGREE :: real where "METRES_PER_DEGREE = 111320"
definition SIMPLIFY_EPSILON_DEG :: real where "SIMPLIFY_EPSILON_DEG = 5 / 10000"
definition SIMPLIFY_ALTITUDE_FT :: real where "SIMPLIFY_ALTITUDE_FT = 100"
definition CHECKPOINT_EPSILON_DEG :: real where "CHECKPOINT_EPSILON_DEG = 5 / 100000"
definition CHECKPOINT_ALTITUDE_FT :: real where "CHECKPOINT_ALTITUDE_FT = 25"

record track_sample =
  ts_ms :: int
  ts_latitude :: real
  ts_longitude :: real
  ts_position_source :: position_source
  ts_altitude_ft :: "int option"
  ts_ground_speed_kt :: "real option"
  ts_track_deg :: "real option"

definition from_track_point :: "track_point \<Rightarrow> track_sample" where
  "from_track_point p =
     \<lparr>ts_ms = to_epoch_ms (tp_timestamp p), ts_latitude = tp_latitude p,
      ts_longitude = tp_longitude p, ts_position_source = tp_position_source p,
      ts_altitude_ft = map_option py_round (tp_altitude_ft p),
      ts_ground_speed_kt = tp_ground_speed_kt p, ts_track_deg = tp_track_deg p\<rparr>"

definition hypot :: "real \<Rightarrow> real \<Rightarrow> real" where "hypot x y = sqrt (x\<^sup>2 + y\<^sup>2)"

definition cross_track_deg :: "track_sample \<Rightarrow> track_sample \<Rightarrow> track_sample \<Rightarrow> real" where
  "cross_track_deg sample start finish =
     (let scale = cos (radians ((ts_latitude start + ts_latitude finish) / 2));
          origin_x = ts_longitude start * scale;
          origin_y = ts_latitude start;
          point_x = ts_longitude sample * scale - origin_x;
          point_y = ts_latitude sample - origin_y;
          end_x = ts_longitude finish * scale - origin_x;
          end_y = ts_latitude finish - origin_y;
          span = end_x * end_x + end_y * end_y
      in if span = 0 then hypot point_x point_y
         else (let pos = max 0 (min 1 ((point_x * end_x + point_y * end_y) / span))
               in hypot (point_x - pos * end_x) (point_y - pos * end_y)))"

definition altitude_deviation_ft :: "track_sample \<Rightarrow> track_sample \<Rightarrow> track_sample \<Rightarrow> ext_real" where
  "altitude_deviation_ft sample start finish = (case ts_altitude_ft sample of
       None \<Rightarrow> if ts_altitude_ft start = None \<and> ts_altitude_ft finish = None then Fin 0 else Infinite
     | Some altitude \<Rightarrow> (case (ts_altitude_ft start, ts_altitude_ft finish) of
           (Some first, Some final) \<Rightarrow>
             (let span_ms = ts_ms finish - ts_ms start
              in if span_ms \<le> 0 then Fin \<bar>of_int altitude - of_int first\<bar>
                 else (let expected = of_int first + of_int (final - first) * of_int (ts_ms sample - ts_ms start)
                                        / of_int span_ms
                       in Fin \<bar>of_int altitude - expected\<bar>))
         | _ \<Rightarrow> Infinite))"

section \<open>Douglas-Peucker\<close>

text \<open>
  The inner scan returns the farthest index beyond \<open>epsilon\<close> (the code's \<open>-1\<close> is \<open>None\<close>), the
  first of equals. The stack's top is the head of the list.
\<close>

fun worst_scan :: "(nat \<Rightarrow> 'd::linorder) \<Rightarrow> nat list \<Rightarrow> nat option \<Rightarrow> 'd \<Rightarrow> nat option \<times> 'd" where
  "worst_scan gap [] worst worst_distance = (worst, worst_distance)"
| "worst_scan gap (index # indices) worst worst_distance =
     (let candidate = gap index
      in if worst_distance < candidate then worst_scan gap indices (Some index) candidate
         else worst_scan gap indices worst worst_distance)"

definition worst_index :: "(nat \<Rightarrow> nat \<Rightarrow> nat \<Rightarrow> 'd::linorder) \<Rightarrow> 'd \<Rightarrow> nat \<Rightarrow> nat \<Rightarrow> nat option" where
  "worst_index distance epsilon first final =
     fst (worst_scan (\<lambda>index. distance index first final) [first + 1..<final] None epsilon)"

lemma worst_scan_spec:
  "worst_scan gap is w d = (w', d') \<Longrightarrow>
     (w' = w \<and> d' = d \<and> (\<forall>i \<in> set is. gap i \<le> d)) \<or>
     (\<exists>i \<in> set is. w' = Some i \<and> d' = gap i \<and> d < gap i \<and> (\<forall>j \<in> set is. gap j \<le> gap i))"
proof (induction "is" arbitrary: w d)
  case (Cons i "is")
  show ?case
  proof (cases "d < gap i")
    case True
    with Cons.prems have "worst_scan gap is (Some i) (gap i) = (w', d')" by simp
    from Cons.IH [OF this] True show ?thesis by (auto intro: less_trans)
  next
    case False
    with Cons.prems have "worst_scan gap is w d = (w', d')" by simp
    from Cons.IH [OF this] False show ?thesis by (auto simp: not_less)
  qed
qed simp

lemma worst_index_None:
  "worst_index distance eps f l = None \<Longrightarrow> f < i \<Longrightarrow> i < l \<Longrightarrow> distance i f l \<le> eps"
  using worst_scan_spec [of "\<lambda>i. distance i f l" "[f + 1..<l]" None eps]
  by (cases "worst_scan (\<lambda>i. distance i f l) [f + 1..<l] None eps") (auto simp: worst_index_def)

lemma worst_index_Some:
  "worst_index distance eps f l = Some w \<Longrightarrow> f < w \<and> w < l \<and> eps < distance w f l"
  using worst_scan_spec [of "\<lambda>i. distance i f l" "[f + 1..<l]" None eps]
  by (cases "worst_scan (\<lambda>i. distance i f l) [f + 1..<l] None eps") (auto simp: worst_index_def)

function dp_loop ::
  "(nat \<Rightarrow> nat \<Rightarrow> nat \<Rightarrow> 'd::linorder) \<Rightarrow> 'd \<Rightarrow> (nat \<times> nat) list \<Rightarrow> nat set \<Rightarrow> nat set" where
  "dp_loop distance epsilon [] keep = keep"
| "dp_loop distance epsilon ((first, final) # stack) keep =
     (if final \<le> first + 1 then dp_loop distance epsilon stack keep
      else (case worst_index distance epsilon first final of
          None \<Rightarrow> dp_loop distance epsilon stack keep
        | Some worst \<Rightarrow>
            dp_loop distance epsilon ((worst, final) # (first, worst) # stack) (insert worst keep)))"
  by pat_completeness auto

text \<open>Each pass through the loop uses up part of the total width of the intervals on the stack.\<close>

definition stack_size :: "(nat \<times> nat) list \<Rightarrow> nat" where
  "stack_size stack = sum_list (map (\<lambda>(f, l). if l \<le> f then 1 else 2 * (l - f) - 1) stack)"

termination dp_loop
proof (relation "measure (\<lambda>(_, _, stack, _). stack_size stack)", goal_cases)
  case (4 distance epsilon first final stack keep worst)
  then have "first < worst" "worst < final" using worst_index_Some by blast+
  then show ?case by (simp add: stack_size_def)
qed (auto simp: stack_size_def)

definition simplify_indices :: "nat \<Rightarrow> (nat \<Rightarrow> nat \<Rightarrow> nat \<Rightarrow> 'd::linorder) \<Rightarrow> 'd \<Rightarrow> nat set" where
  "simplify_indices count distance epsilon =
     dp_loop distance epsilon [(0, count - 1)] {0, count - 1}"

definition horizontal :: "track_sample list \<Rightarrow> nat \<Rightarrow> nat \<Rightarrow> nat \<Rightarrow> real" where
  "horizontal samples index first final =
     cross_track_deg (samples ! index) (samples ! first) (samples ! final)"

definition vertical :: "track_sample list \<Rightarrow> nat \<Rightarrow> nat \<Rightarrow> nat \<Rightarrow> ext_real" where
  "vertical samples index first final =
     altitude_deviation_ft (samples ! index) (samples ! first) (samples ! final)"

definition kept_indices :: "track_sample list \<Rightarrow> real \<Rightarrow> ext_real \<Rightarrow> nat set" where
  "kept_indices samples epsilon_deg altitude_epsilon_ft =
     simplify_indices (length samples) (horizontal samples) epsilon_deg \<union>
     simplify_indices (length samples) (vertical samples) altitude_epsilon_ft"

definition simplify :: "track_sample list \<Rightarrow> real \<Rightarrow> ext_real \<Rightarrow> track_sample list" where
  "simplify samples epsilon_deg altitude_epsilon_ft =
     (if length samples \<le> 2 then samples
      else map ((!) samples) (sorted_list_of_set (kept_indices samples epsilon_deg altitude_epsilon_ft)))"

abbreviation simplify_default :: "track_sample list \<Rightarrow> track_sample list" where
  "simplify_default samples \<equiv> simplify samples SIMPLIFY_EPSILON_DEG (Fin SIMPLIFY_ALTITUDE_FT)"

section \<open>Checkpoint thinning\<close>

definition thin_drops :: "real \<Rightarrow> ext_real \<Rightarrow> track_sample option \<Rightarrow> track_sample \<Rightarrow> track_sample list \<Rightarrow> bool" where
  "thin_drops epsilon_deg altitude_epsilon_ft anchor sample rest = (case (anchor, rest) of
       (Some a, following # _) \<Rightarrow>
         ts_position_source sample = ts_position_source a \<and>
         cross_track_deg sample a following \<le> epsilon_deg \<and>
         altitude_deviation_ft sample a following \<le> altitude_epsilon_ft
     | _ \<Rightarrow> False)"

fun thin_loop :: "real \<Rightarrow> ext_real \<Rightarrow> track_sample option \<Rightarrow> track_sample list \<Rightarrow> track_sample list" where
  "thin_loop epsilon_deg altitude_epsilon_ft anchor [] = []"
| "thin_loop epsilon_deg altitude_epsilon_ft anchor (sample # rest) =
     (if thin_drops epsilon_deg altitude_epsilon_ft anchor sample rest
      then thin_loop epsilon_deg altitude_epsilon_ft anchor rest
      else sample # thin_loop epsilon_deg altitude_epsilon_ft (Some sample) rest)"

definition thin_for_checkpoint :: "track_sample list \<Rightarrow> track_sample option \<Rightarrow> track_sample list" where
  "thin_for_checkpoint samples previous =
     thin_loop CHECKPOINT_EPSILON_DEG (Fin CHECKPOINT_ALTITUDE_FT) previous samples"

section \<open>The loop computes the recursion\<close>

text \<open>The textbook Douglas-Peucker recursion: what is kept strictly between two kept ends.\<close>

function dp_rec :: "(nat \<Rightarrow> nat \<Rightarrow> nat \<Rightarrow> 'd::linorder) \<Rightarrow> 'd \<Rightarrow> nat \<Rightarrow> nat \<Rightarrow> nat set" where
  "dp_rec distance epsilon f l =
     (if l \<le> f + 1 then {}
      else (case worst_index distance epsilon f l of
          None \<Rightarrow> {}
        | Some w \<Rightarrow> insert w (dp_rec distance epsilon f w \<union> dp_rec distance epsilon w l)))"
  by pat_completeness auto

termination dp_rec
  by (relation "measure (\<lambda>(_, _, f, l). l - f)") (auto dest!: worst_index_Some)

declare dp_rec.simps [simp del]

lemma dp_loop_rec:
  "dp_loop distance epsilon stack keep = keep \<union> (\<Union>(f, l) \<in> set stack. dp_rec distance epsilon f l)"
proof (induction distance epsilon stack keep rule: dp_loop.induct)
  case (2 distance epsilon f l stack keep)
  then show ?case
    by (cases "l \<le> f + 1"; cases "worst_index distance epsilon f l")
       (auto simp: dp_rec.simps [of distance epsilon f l])
qed simp

lemma dp_rec_inside: "dp_rec distance epsilon f l \<subseteq> {f<..<l}"
proof (induction distance epsilon f l rule: dp_rec.induct)
  case (1 distance epsilon f l)
  show ?case
  proof (cases "l \<le> f + 1 \<or> worst_index distance epsilon f l = None")
    case True
    then show ?thesis by (auto simp: dp_rec.simps [of distance epsilon f l])
  next
    case False
    then obtain w where w: "\<not> l \<le> f + 1" "worst_index distance epsilon f l = Some w" by auto
    from worst_index_Some [OF w(2)] have "f < w" "w < l" by auto
    with 1 [OF w] w show ?thesis by (auto simp: dp_rec.simps [of distance epsilon f l])
  qed
qed

text \<open>
  Between two kept ends every dropped index is bracketed by two kept ones with nothing kept in
  between, and lies within the tolerance of the segment they span.
\<close>

definition bracketed :: "(nat \<Rightarrow> nat \<Rightarrow> nat \<Rightarrow> 'd::linorder) \<Rightarrow> 'd \<Rightarrow> nat set \<Rightarrow> nat \<Rightarrow> bool" where
  "bracketed distance epsilon K i \<longleftrightarrow>
     (\<exists>a \<in> K. \<exists>b \<in> K. a < i \<and> i < b \<and> {a<..<b} \<inter> K = {} \<and> distance i a b \<le> epsilon)"

lemma bracketed_widen:
  assumes "bracketed distance epsilon K' i" "K' \<subseteq> {lo..hi}" "K' \<subseteq> K" "K \<inter> {lo..hi} \<subseteq> K'"
  shows "bracketed distance epsilon K i"
proof -
  obtain a b where ab: "a \<in> K'" "b \<in> K'" "a < i" "i < b" "{a<..<b} \<inter> K' = {}" "distance i a b \<le> epsilon"
    using assms(1) by (auto simp: bracketed_def)
  have "lo \<le> a" "b \<le> hi" using ab(1,2) assms(2) by auto
  then have "{a<..<b} \<subseteq> {lo..hi}" by auto
  then have "{a<..<b} \<inter> K = {}" using ab(5) assms(4) by blast
  with ab assms(3) show ?thesis unfolding bracketed_def by blast
qed

lemma dp_rec_bracketed:
  "f < i \<Longrightarrow> i < l \<Longrightarrow> i \<notin> dp_rec distance epsilon f l \<Longrightarrow>
     bracketed distance epsilon (dp_rec distance epsilon f l \<union> {f, l}) i"
proof (induction distance epsilon f l rule: dp_rec.induct)
  case (1 distance epsilon f l)
  have wide: "\<not> l \<le> f + 1" using "1.prems" by simp
  show ?case
  proof (cases "worst_index distance epsilon f l")
    case None
    then have "dp_rec distance epsilon f l = {}" by (simp add: dp_rec.simps [of distance epsilon f l])
    then show ?thesis
      using worst_index_None [OF None "1.prems"(1,2)] "1.prems"
      by (auto simp: bracketed_def)
  next
    case (Some w)
    let ?L = "dp_rec distance epsilon f w" and ?R = "dp_rec distance epsilon w l"
    have w: "f < w" "w < l" using worst_index_Some [OF Some] by auto
    have K: "dp_rec distance epsilon f l = insert w (?L \<union> ?R)"
      using wide Some by (simp add: dp_rec.simps [of distance epsilon f l])
    have L: "?L \<subseteq> {f<..<w}" and R: "?R \<subseteq> {w<..<l}" by (rule dp_rec_inside)+
    have "i < w \<or> w < i" using "1.prems"(3) K by force
    then show ?thesis
    proof
      assume i: "i < w"
      then have "bracketed distance epsilon (?L \<union> {f, w}) i"
        using 1(1) [OF wide Some "1.prems"(1)] "1.prems"(3) K by simp
      then show ?thesis
      proof (rule bracketed_widen)
        show "?L \<union> {f, w} \<subseteq> {f..w}" using L w by auto
        show "(dp_rec distance epsilon f l \<union> {f, l}) \<inter> {f..w} \<subseteq> ?L \<union> {f, w}"
          using R w by (auto simp: K)
      qed (auto simp: K)
    next
      assume i: "w < i"
      then have "bracketed distance epsilon (?R \<union> {w, l}) i"
        using 1(2) [OF wide Some _ "1.prems"(2)] "1.prems"(3) K by simp
      then show ?thesis
      proof (rule bracketed_widen)
        show "?R \<union> {w, l} \<subseteq> {w..l}" using R w by auto
        show "(dp_rec distance epsilon f l \<union> {f, l}) \<inter> {w..l} \<subseteq> ?R \<union> {w, l}"
          using L w by (auto simp: K)
      qed (auto simp: K)
    qed
  qed
qed

lemma simplify_indices_rec:
  "simplify_indices n distance epsilon = {0, n - 1} \<union> dp_rec distance epsilon 0 (n - 1)"
  by (simp add: simplify_indices_def dp_loop_rec)

lemma simplify_indices_below: "0 < n \<Longrightarrow> simplify_indices n distance epsilon \<subseteq> {..<n}"
  using dp_rec_inside [of distance epsilon 0 "n - 1"] by (fastforce simp: simplify_indices_rec)

lemma simplify_indices_bracketed:
  assumes "i < n" "i \<notin> simplify_indices n distance epsilon"
  shows "bracketed distance epsilon (simplify_indices n distance epsilon) i"
proof -
  have "0 < i" "i < n - 1" using assms by (auto simp: simplify_indices_rec)
  with dp_rec_bracketed [of 0 i "n - 1" distance epsilon] assms(2) show ?thesis
    by (simp add: simplify_indices_rec Un_commute)
qed

lemma simplify_indices_ends: "{0, n - 1} \<subseteq> simplify_indices n distance epsilon"
  by (simp add: simplify_indices_rec)

section \<open>Selections of a list\<close>

lemma select_nths:
  assumes "S \<subseteq> {..<length xs}"
  shows "map ((!) xs) (sorted_list_of_set S) = nths xs S"
proof -
  have "sorted_list_of_set S = filter (\<lambda>i. i \<in> S) [0..<length xs]"
  proof (rule sorted_distinct_set_unique)
    show "sorted (filter (\<lambda>i. i \<in> S) [0..<length xs])"
      using sorted_wrt_filter [OF sorted_upt] .
  qed (use assms in \<open>auto simp: finite_subset [OF assms]\<close>)
  moreover have "nths xs S = map ((!) xs) (filter (\<lambda>i. i \<in> S) [0..<length xs])"
  proof -
    have "zip xs [0..<length xs] = map (\<lambda>i. (xs ! i, i)) [0..<length xs]"
      by (intro nth_equalityI) simp_all
    then show ?thesis by (simp add: nths_def filter_map comp_def)
  qed
  ultimately show ?thesis by simp
qed

lemma kept_indices_below: "0 < length samples \<Longrightarrow> kept_indices samples e a \<subseteq> {..<length samples}"
  by (simp add: kept_indices_def simplify_indices_below)

lemma simplify_nths:
  "2 < length samples \<Longrightarrow> simplify samples e a = nths samples (kept_indices samples e a)"
  using select_nths [OF kept_indices_below, of samples e a]
  by (cases samples) (simp_all add: simplify_def)

lemma simplify_subseq: "subseq (simplify samples e a) samples"
proof (cases "length samples \<le> 2")
  case False
  then show ?thesis by (simp add: simplify_nths subseq_conv_nths) blast
qed (simp add: simplify_def)

definition increasing :: "track_sample list \<Rightarrow> bool" where
  "increasing samples \<longleftrightarrow> sorted_wrt (\<lambda>p q. ts_ms p < ts_ms q) samples"

lemma increasing_subseq: "subseq xs ys \<Longrightarrow> increasing ys \<Longrightarrow> increasing xs"
proof (induction rule: list_emb.induct)
  case (list_emb_Cons2 x y xs ys)
  then have "set xs \<subseteq> set ys" by (auto elim: list_emb_set)
  with list_emb_Cons2 show ?case by (auto simp: increasing_def)
qed (simp_all add: increasing_def)

section \<open>Thinning\<close>

lemma thin_loop_subseq: "subseq (thin_loop e a anchor samples) samples"
  by (induction e a anchor samples rule: thin_loop.induct) auto

lemma thin_loop_final:
  "samples \<noteq> [] \<Longrightarrow> thin_loop e a anchor samples \<noteq> [] \<and>
     last (thin_loop e a anchor samples) = last samples"
proof (induction e a anchor samples rule: thin_loop.induct)
  case (2 e a anchor sample rest)
  then show ?case by (cases rest; cases anchor) (auto simp: thin_drops_def)
qed simp

abbreviation newest_kept :: "track_sample list \<Rightarrow> track_sample option \<Rightarrow> track_sample option" where
  "newest_kept us anchor \<equiv> if us = [] then anchor else Some (last us)"

lemma thin_loop_dropped:
  assumes "i < length samples" "samples ! i \<notin> set (thin_loop e a anchor samples)"
  shows "\<exists>us. subseq us (take i samples) \<and>
     thin_loop e a anchor samples = us @ thin_loop e a (newest_kept us anchor) (drop (Suc i) samples) \<and>
     thin_drops e a (newest_kept us anchor) (samples ! i) (drop (Suc i) samples)"
  using assms
proof (induction e a anchor samples arbitrary: i rule: thin_loop.induct)
  case (2 e a anchor sample rest)
  show ?case
  proof (cases "thin_drops e a anchor sample rest")
    case drop: True
    show ?thesis
    proof (cases i)
      case 0
      with drop show ?thesis by (intro exI [of _ "[]"]) simp
    next
      case (Suc j)
      from "2.IH"(1) [OF drop, of j] "2.prems" drop Suc obtain us where
        us: "subseq us (take j rest)"
        "thin_loop e a anchor rest = us @ thin_loop e a (newest_kept us anchor) (drop (Suc j) rest)"
        "thin_drops e a (newest_kept us anchor) (rest ! j) (drop (Suc j) rest)"
        by auto
      then show ?thesis using drop Suc by (intro exI [of _ us]) (simp add: list_emb_Cons)
    qed
  next
    case keep: False
    with "2.prems" obtain j where j: "i = Suc j" by (cases i) auto
    have "j < length rest" "rest ! j \<notin> set (thin_loop e a (Some sample) rest)"
      using "2.prems" keep j by auto
    from "2.IH"(2) [OF keep this] obtain us where us: "subseq us (take j rest)"
      "thin_loop e a (Some sample) rest =
         us @ thin_loop e a (newest_kept us (Some sample)) (drop (Suc j) rest)"
      "thin_drops e a (newest_kept us (Some sample)) (rest ! j) (drop (Suc j) rest)" by blast
    have "newest_kept (sample # us) anchor = newest_kept us (Some sample)" by simp
    with us keep j show ?thesis by (intro exI [of _ "sample # us"]) (simp del: last.simps)
  qed
qed simp

section \<open>Properties\<close>

text \<open>
  The iterative Douglas-Peucker routine with its explicit stack keeps exactly what
  the textbook recursion keeps, for any metric and tolerance.
\<close>

theorem simplify_indices_is_recursion:
  "simplify_indices n distance epsilon = {0, n - 1} \<union> dp_rec distance epsilon 0 (n - 1)"
  by (rule simplify_indices_rec)

text \<open>
  Property C27. What simplification keeps and what it may lose: it selects original samples in
  order, the first and the last among them, and every dropped one lies within the horizontal
  tolerance of a segment, and within the altitude tolerance of a profile, between two kept samples
  before and after it.
\<close>

theorem simplify_error_bound:
  assumes "2 < length samples"
  shows "simplify samples e a = nths samples (kept_indices samples e a) \<and>
     0 \<in> kept_indices samples e a \<and> length samples - 1 \<in> kept_indices samples e a \<and>
     (\<forall>i < length samples. i \<notin> kept_indices samples e a \<longrightarrow>
       (\<exists>f \<in> kept_indices samples e a. \<exists>l \<in> kept_indices samples e a.
          f < i \<and> i < l \<and> horizontal samples i f l \<le> e) \<and>
       (\<exists>f \<in> kept_indices samples e a. \<exists>l \<in> kept_indices samples e a.
          f < i \<and> i < l \<and> vertical samples i f l \<le> a))"
proof (intro conjI allI impI)
  let ?H = "simplify_indices (length samples) (horizontal samples) e"
  let ?V = "simplify_indices (length samples) (vertical samples) a"
  have K: "kept_indices samples e a = ?H \<union> ?V" by (simp add: kept_indices_def)
  show "simplify samples e a = nths samples (kept_indices samples e a)"
    using assms by (rule simplify_nths)
  show "0 \<in> kept_indices samples e a" "length samples - 1 \<in> kept_indices samples e a"
    using simplify_indices_ends [of "length samples" "horizontal samples" e] by (auto simp: K)
  fix i assume i: "i < length samples" "i \<notin> kept_indices samples e a"
  then have "bracketed (horizontal samples) e ?H i" "bracketed (vertical samples) a ?V i"
    by (simp_all add: K simplify_indices_bracketed)
  then show "\<exists>f \<in> kept_indices samples e a. \<exists>l \<in> kept_indices samples e a.
      f < i \<and> i < l \<and> horizontal samples i f l \<le> e"
    "\<exists>f \<in> kept_indices samples e a. \<exists>l \<in> kept_indices samples e a.
      f < i \<and> i < l \<and> vertical samples i f l \<le> a"
    by (auto simp: bracketed_def K)
qed

text \<open>
  Thinning a checkpoint batch keeps original samples in order and always the newest
  one, and drops a sample only if, against the last sample kept before it and the one that follows
  it, its source is unchanged and it lies within both checkpoint tolerances.
\<close>

theorem thinning_drops_only_within_tolerance:
  assumes "i < length samples" "samples ! i \<notin> set (thin_for_checkpoint samples previous)"
  shows "\<exists>us vs. thin_for_checkpoint samples previous = us @ vs \<and> subseq us (take i samples) \<and>
     subseq vs (drop (Suc i) samples) \<and> vs \<noteq> [] \<and> last vs = last samples \<and>
     (\<exists>anchor. newest_kept us previous = Some anchor \<and> Suc i < length samples \<and>
        ts_position_source (samples ! i) = ts_position_source anchor \<and>
        cross_track_deg (samples ! i) anchor (samples ! Suc i) \<le> CHECKPOINT_EPSILON_DEG \<and>
        altitude_deviation_ft (samples ! i) anchor (samples ! Suc i) \<le> Fin CHECKPOINT_ALTITUDE_FT)"
proof -
  let ?e = CHECKPOINT_EPSILON_DEG and ?a = "Fin CHECKPOINT_ALTITUDE_FT"
  obtain us where us: "subseq us (take i samples)"
    "thin_for_checkpoint samples previous =
       us @ thin_loop ?e ?a (newest_kept us previous) (drop (Suc i) samples)"
    "thin_drops ?e ?a (newest_kept us previous) (samples ! i) (drop (Suc i) samples)"
    using thin_loop_dropped [OF assms(1), of ?e ?a previous] assms(2)
    unfolding thin_for_checkpoint_def by blast
  have len: "Suc i < length samples"
    by (rule ccontr) (use us(3) in \<open>simp add: thin_drops_def split: option.splits\<close>)
  then have rest: "drop (Suc i) samples = samples ! Suc i # drop (Suc (Suc i)) samples"
    by (simp add: Cons_nth_drop_Suc)
  obtain anchor where anchor: "newest_kept us previous = Some anchor"
    using us(3) unfolding thin_drops_def by (cases "newest_kept us previous") auto
  let ?vs = "thin_loop ?e ?a (newest_kept us previous) (drop (Suc i) samples)"
  have "?vs \<noteq> []" "last ?vs = last samples"
    using thin_loop_final [of "drop (Suc i) samples" ?e ?a "newest_kept us previous"] len
    by simp_all
  moreover have "thin_drops ?e ?a (Some anchor) (samples ! i) (samples ! Suc i # drop (Suc (Suc i)) samples)"
    using us(3) unfolding anchor rest .
  then have "ts_position_source (samples ! i) = ts_position_source anchor \<and>
      cross_track_deg (samples ! i) anchor (samples ! Suc i) \<le> CHECKPOINT_EPSILON_DEG \<and>
      altitude_deviation_ft (samples ! i) anchor (samples ! Suc i) \<le> Fin CHECKPOINT_ALTITUDE_FT"
    by (simp add: thin_drops_def)
  ultimately show ?thesis
    using us(1,2) anchor len thin_loop_subseq
    by (rule_tac x = us in exI, rule_tac x = ?vs in exI) simp
qed

section \<open>Where the stated bounds fail\<close>

text \<open>
  An out-and-back leg along the equator at 0, 2, 0 and 2 degrees with a climb to 1000 ft at
  the first turn and a descent after it: the horizontal pass keeps only the ends, the vertical pass
  adds the first turn.
\<close>

definition equator_sample :: "int \<Rightarrow> real \<Rightarrow> int \<Rightarrow> track_sample" where
  "equator_sample t lon alt =
     \<lparr>ts_ms = t, ts_latitude = 0, ts_longitude = lon, ts_position_source = SrcAdsb,
      ts_altitude_ft = Some alt, ts_ground_speed_kt = None, ts_track_deg = None\<rparr>"

definition out_and_back :: "track_sample list" where
  "out_and_back =
     [equator_sample 0 0 0, equator_sample 1000 2 1000, equator_sample 2000 0 500, equator_sample 3000 2 0]"

lemma radians_zero [simp]: "radians 0 = 0"
  by (simp add: radians_def)

lemma hypot_zero [simp]: "hypot x 0 = \<bar>x\<bar>" "hypot 0 y = \<bar>y\<bar>"
  by (simp_all add: hypot_def)

lemma equator_cross_track:
  "cross_track_deg (equator_sample t x a) (equator_sample t' y a') (equator_sample t'' z a'') =
     (if z = y then \<bar>x - y\<bar>
      else \<bar>(x - y) - max 0 (min 1 ((x - y) * (z - y) / ((z - y) * (z - y)))) * (z - y)\<bar>)"
  by (simp add: cross_track_deg_def equator_sample_def Let_def)

lemma equator_altitude:
  "altitude_deviation_ft (equator_sample t x a) (equator_sample t' y a') (equator_sample t'' z a'') =
     (if t'' \<le> t' then Fin \<bar>of_int a - of_int a'\<bar>
      else Fin \<bar>of_int a - (of_int a' + of_int (a'' - a') * of_int (t - t') / of_int (t'' - t'))\<bar>)"
  by (simp add: altitude_deviation_ft_def equator_sample_def Let_def)

definition parabola :: "track_sample list" where
  "parabola = map (\<lambda>i. equator_sample (1000 * i) 0 (i * i)) [0..26]"

lemma parabola_drops:
  assumes "1 \<le> i" "i \<le> 25"
  shows "thin_drops CHECKPOINT_EPSILON_DEG (Fin CHECKPOINT_ALTITUDE_FT) (Some (equator_sample 0 0 0))
     (equator_sample (1000 * i) 0 (i * i)) (equator_sample (1000 * (i + 1)) 0 ((i + 1) * (i + 1)) # rest)"
proof -
  have "of_int ((i + 1) * (i + 1)) * of_int (1000 * i) / of_int (1000 * (i + 1)) = (of_int (i * i + i) :: real)"
    using assms(1) by (simp add: field_simps)
  then have "of_int (i * i) - of_int ((i + 1) * (i + 1)) * of_int (1000 * i) / of_int (1000 * (i + 1)) =
      - (of_int i :: real)" by simp
  then have "altitude_deviation_ft (equator_sample (1000 * i) 0 (i * i)) (equator_sample 0 0 0)
      (equator_sample (1000 * (i + 1)) 0 ((i + 1) * (i + 1))) = Fin (of_int i)"
    using assms(1) by (simp add: equator_altitude)
  moreover have "cross_track_deg (equator_sample (1000 * i) 0 (i * i)) (equator_sample 0 0 0)
      (equator_sample (1000 * (i + 1)) 0 ((i + 1) * (i + 1))) = 0"
    by (simp add: equator_cross_track)
  ultimately show ?thesis
    using assms(2)
    by (simp add: thin_drops_def CHECKPOINT_ALTITUDE_FT_def CHECKPOINT_EPSILON_DEG_def equator_sample_def)
qed

lemma parabola_thinned:
  "1 \<le> i \<Longrightarrow> i \<le> 26 \<Longrightarrow>
     thin_loop CHECKPOINT_EPSILON_DEG (Fin CHECKPOINT_ALTITUDE_FT) (Some (equator_sample 0 0 0))
       (map (\<lambda>i. equator_sample (1000 * i) 0 (i * i)) [i..26]) = [equator_sample 26000 0 676]"
proof (induction "nat (26 - i)" arbitrary: i)
  case 0
  then show ?case by (simp add: thin_drops_def)
next
  case (Suc n)
  let ?f = "\<lambda>i. equator_sample (1000 * i) 0 (i * i)"
  have 1: "[i..26] = i # [i + 1..26]" using Suc.prems(2) by (rule upto_rec1)
  have 2: "[i + 1..26] = (i + 1) # [i + 1 + 1..26]" by (rule upto_rec1) (use Suc.hyps(2) in simp)
  have drop: "thin_drops CHECKPOINT_EPSILON_DEG (Fin CHECKPOINT_ALTITUDE_FT)
      (Some (equator_sample 0 0 0)) (?f i) (map ?f [i + 1..26])"
    unfolding 2 list.map by (rule parabola_drops) (use Suc in simp_all)
  have "thin_loop CHECKPOINT_EPSILON_DEG (Fin CHECKPOINT_ALTITUDE_FT) (Some (equator_sample 0 0 0))
      (map ?f [i + 1..26]) = [equator_sample 26000 0 676]"
    by (rule Suc.hyps(1)) (use Suc in simp_all)
  with drop show ?case unfolding 1 by simp
qed

text \<open>
  The two simplification passes do not combine: the module promises that every
  dropped sample lies within the horizontal tolerance of the retained segment that spans it, yet
  there is a track, with strictly increasing times and the default tolerances, on which
  a dropped sample is two degrees away from it.
\<close>

theorem simplify_passes_do_not_combine:
  "increasing out_and_back \<and>
   kept_indices out_and_back SIMPLIFY_EPSILON_DEG (Fin SIMPLIFY_ALTITUDE_FT) = {0, 1, 3} \<and>
   simplify_default out_and_back = [out_and_back ! 0, out_and_back ! 1, out_and_back ! 3] \<and>
   horizontal out_and_back 2 1 3 = 2"
proof (intro conjI)
  show K: "kept_indices out_and_back SIMPLIFY_EPSILON_DEG (Fin SIMPLIFY_ALTITUDE_FT) = {0, 1, 3}"
    by (auto simp: kept_indices_def simplify_indices_def out_and_back_def worst_index_def
        horizontal_def vertical_def equator_cross_track equator_altitude upt_rec
        SIMPLIFY_EPSILON_DEG_def SIMPLIFY_ALTITUDE_FT_def)
  have "sorted_list_of_set {0, 1, 3 :: nat} = [0, 1, 3]" by simp
  then show "simplify_default out_and_back = [out_and_back ! 0, out_and_back ! 1, out_and_back ! 3]"
    unfolding simplify_def K by (simp add: out_and_back_def)
  show "horizontal out_and_back 2 1 3 = 2"
    by (simp add: horizontal_def out_and_back_def equator_cross_track numeral_3_eq_3)
qed (simp add: increasing_def out_and_back_def equator_sample_def)

text \<open>
  Checkpoint thinning accumulates error: each drop is judged against the sample that
  follows, which may itself be dropped next, so a steady climb whose rate grows loses 25 samples in
  a row although one of them is 169 ft off the profile that is left, more than the 25 ft that
  thinning and the 100 ft that simplification promise.
\<close>

theorem thinning_accumulates_error:
  "increasing parabola \<and>
   thin_for_checkpoint parabola None = [parabola ! 0, parabola ! 26] \<and>
   altitude_deviation_ft (parabola ! 13) (parabola ! 0) (parabola ! 26) = Fin 169"
proof (intro conjI)
  have p: "parabola = equator_sample 0 0 0 # map (\<lambda>i. equator_sample (1000 * i) 0 (i * i)) [1..26]"
    by (simp add: parabola_def upto_rec1 [of 0])
  have at: "parabola ! n = equator_sample (1000 * int n) 0 (int n * int n)" if "n \<le> 26" for n
    using that by (simp add: parabola_def nth_upto)
  show "increasing parabola"
    by (simp add: increasing_def parabola_def sorted_wrt_map sorted_wrt_upto equator_sample_def)
  have "thin_for_checkpoint parabola None = [equator_sample 0 0 0, equator_sample 26000 0 676]"
    unfolding thin_for_checkpoint_def p using parabola_thinned [of 1] by (simp add: thin_drops_def)
  then show "thin_for_checkpoint parabola None = [parabola ! 0, parabola ! 26]" by (simp add: at)
  show "altitude_deviation_ft (parabola ! 13) (parabola ! 0) (parabola ! 26) = Fin 169"
    by (simp add: at equator_altitude)
qed

section \<open>Witnesses\<close>

theorem simplify_error_bound_witness:
  "simplify_default out_and_back =
     nths out_and_back (kept_indices out_and_back SIMPLIFY_EPSILON_DEG (Fin SIMPLIFY_ALTITUDE_FT))"
  using simplify_error_bound [of out_and_back SIMPLIFY_EPSILON_DEG "Fin SIMPLIFY_ALTITUDE_FT"]
  by (simp add: out_and_back_def)

definition level_leg :: "track_sample list" where
  "level_leg = [equator_sample 0 0 0, equator_sample 1000 0 0, equator_sample 2000 0 0]"

theorem thinning_drops_only_within_tolerance_witness:
  "\<exists>us vs. thin_for_checkpoint level_leg None = us @ vs \<and> last vs = equator_sample 2000 0 0"
proof -
  have "level_leg ! 1 \<notin> set (thin_for_checkpoint level_leg None)"
    by (simp add: thin_for_checkpoint_def level_leg_def thin_drops_def equator_cross_track
        equator_altitude CHECKPOINT_EPSILON_DEG_def CHECKPOINT_ALTITUDE_FT_def)
       (simp add: equator_sample_def)
  from thinning_drops_only_within_tolerance [OF _ this] show ?thesis
    by (auto simp: level_leg_def)
qed

end
