(* ===== verification/SightingVocab.thy ===== *)
theory SightingVocab
  imports IngestTypes
begin

text \<open>
  \<^verbatim>\<open>sightings/vocabulary.py\<close>: closure reasons, event types, the emergency vocabulary, the
  alert severity ladder and the integer codes of position sources on disk.
\<close>

datatype closure_reason = GapTimeout | ShutdownRecovery | DataReset

definition EMERGENCY_SQUAWKS :: "string list" where
  "EMERGENCY_SQUAWKS = [''7500'', ''7600'', ''7700'']"

definition EMERGENCY_SOURCE_SQUAWK :: string where "EMERGENCY_SOURCE_SQUAWK = ''squawk''"
definition EMERGENCY_SOURCE_DECODER :: string where "EMERGENCY_SOURCE_DECODER = ''decoder''"

definition SQUAWK_EMERGENCY_KINDS :: "(string \<times> string) list" where
  "SQUAWK_EMERGENCY_KINDS =
     [(''7500'', ''unlawful''), (''7600'', ''nordo''), (''7700'', ''general'')]"

definition declared_emergency :: "string option \<Rightarrow> string option \<Rightarrow> (string \<times> string) option" where
  "declared_emergency squawk decoder_emergency =
     (case Option.bind squawk (map_of SQUAWK_EMERGENCY_KINDS) of
        Some kind \<Rightarrow> Some (EMERGENCY_SOURCE_SQUAWK, kind)
      | None \<Rightarrow> (case decoder_emergency of
            Some kind \<Rightarrow> Some (EMERGENCY_SOURCE_DECODER, kind)
          | None \<Rightarrow> None))"

definition ALERT_SEVERITIES :: "string list" where
  "ALERT_SEVERITIES = [''info'', ''interesting'', ''high'', ''critical'']"

text \<open>\<^verbatim>\<open>tuple.index\<close>: the first position, or ValueError.\<close>

fun index_of :: "'a \<Rightarrow> 'a list \<Rightarrow> nat result" where
  "index_of x [] = Inl ValueError"
| "index_of x (y # ys) = (if x = y then Inr 0 else bindE (index_of x ys) (\<lambda>n. Inr (Suc n)))"

definition alert_severity_rank :: "string \<Rightarrow> nat result" where
  "alert_severity_rank severity = index_of severity ALERT_SEVERITIES"

definition outranks_severity :: "string \<Rightarrow> string option \<Rightarrow> bool result" where
  "outranks_severity candidate current =
     bindE (alert_severity_rank candidate) (\<lambda>candidate_rank. case current of
         None \<Rightarrow> Inr True
       | Some c \<Rightarrow> bindE (alert_severity_rank c) (\<lambda>rank. Inr (rank < candidate_rank)))"

datatype event_type =
    CallsignChange | SquawkChange | EmergencyStart | EmergencyEnd
  | RouteEnriched | ClassificationAvailable | AlertMatched | AlertSeverityUpgraded

text \<open>The codes of the checkpoint table and the packed track; numbers are part of the format.\<close>

fun position_source_code :: "position_source \<Rightarrow> nat" where
  "position_source_code SrcAdsb = 0"
| "position_source_code SrcMlat = 1"
| "position_source_code SrcNone = 2"
| "position_source_code SrcOther = 3"

definition SOURCE_BY_CODE :: "(nat \<times> position_source) list" where
  "SOURCE_BY_CODE = [(0, SrcAdsb), (1, SrcMlat), (2, SrcNone), (3, SrcOther)]"

definition position_source_name :: "nat \<Rightarrow> position_source result" where
  "position_source_name code = (case map_of SOURCE_BY_CODE code of
       None \<Rightarrow> Inl ValueError
     | Some source \<Rightarrow> Inr source)"

section \<open>Lemmas\<close>

lemma position_source_roundtrip [simp]: "position_source_name (position_source_code s) = Inr s"
  by (cases s) (simp_all add: position_source_name_def SOURCE_BY_CODE_def)

lemma position_source_code_byte: "position_source_code s < 256"
  by (cases s) simp_all

lemma position_source_name_Inr: "position_source_name c = Inr s \<Longrightarrow> position_source_code s = c"
  by (auto simp: position_source_name_def SOURCE_BY_CODE_def split: option.splits if_splits)

lemma declared_emergency_squawk:
  "declared_emergency (Some q) d =
     (if q \<in> set EMERGENCY_SQUAWKS
      then Some (EMERGENCY_SOURCE_SQUAWK, the (map_of SQUAWK_EMERGENCY_KINDS q))
      else declared_emergency None d)"
  by (simp add: declared_emergency_def EMERGENCY_SQUAWKS_def SQUAWK_EMERGENCY_KINDS_def)

lemma declared_emergency_None_iff:
  "declared_emergency q d = None \<longleftrightarrow> d = None \<and> (\<forall>s. q = Some s \<longrightarrow> s \<notin> set EMERGENCY_SQUAWKS)"
  by (cases q; cases d)
     (auto simp: declared_emergency_def EMERGENCY_SQUAWKS_def SQUAWK_EMERGENCY_KINDS_def)

definition severity_ok :: "string \<Rightarrow> bool" where
  "severity_ok s \<longleftrightarrow> s \<in> set ALERT_SEVERITIES"

lemma alert_severity_rank_ok: "severity_ok s \<longleftrightarrow> (\<exists>n. alert_severity_rank s = Inr n)"
  by (auto simp: severity_ok_def alert_severity_rank_def ALERT_SEVERITIES_def)

lemma alert_severity_rank_inj:
  "alert_severity_rank s = Inr n \<Longrightarrow> alert_severity_rank t = Inr n \<Longrightarrow> s = t"
  by (auto simp: alert_severity_rank_def ALERT_SEVERITIES_def split: if_splits)

end
