(* ===== verification/SightingState.thy ===== *)
theory SightingState
  imports SightingTracks SightingVocab BoundedQueue LiveAircraft
begin

text \<open>
  \<^verbatim>\<open>sightings/state.py\<close>: the accumulator of one open sighting. \<^verbatim>\<open>observe\<close> folds a live
  record into it, the \<open>apply\<close> operations bring conclusions of other tasks, and the checkpoint
  operations hand its rows and events to the writer and take them off only after a commit. The
  payload of an event is a dictionary of optional strings.
\<close>

section \<open>State\<close>

definition MAX_PENDING_POINTS :: nat where "MAX_PENDING_POINTS = 14400"

record pending_event =
  pe_type :: event_type
  pe_ts_ms :: int
  pe_payload :: "(string \<times> string option) list"

record sighting_route =
  rt_origin_ident :: "string option"
  rt_destination_ident :: "string option"
  rt_source :: string

record inferred_airport =
  ia_ident :: string
  ia_phase :: "string option"

record checkpoint_batch =
  cb_consumed :: nat
  cb_rows :: "(nat \<times> track_sample) list"

definition batch_newest :: "checkpoint_batch \<Rightarrow> track_sample" where
  "batch_newest b = snd (last (cb_rows b))"

record active_sighting =
  sg_icao :: string
  sg_started_ms :: int
  sg_last_seen_ms :: int
  sg_aircraft_id :: "int option"
  sg_sighting_id :: "int option"
  sg_first_ever :: bool
  sg_callsign_first :: "string option"
  sg_callsign_last :: "string option"
  sg_squawk_last :: "string option"
  sg_had_emergency :: bool
  sg_emergency_active :: bool
  sg_decoder_emergency :: "string option"
  sg_emergency_declared :: "(string \<times> string) option"
  sg_emitter_category :: "string option"
  sg_origin_ident :: "string option"
  sg_destination_ident :: "string option"
  sg_route_source :: "string option"
  sg_inferred_airport_ident :: "string option"
  sg_inferred_phase :: "string option"
  sg_max_alert_severity :: "string option"
  sg_any_position :: bool
  sg_mlat_used :: bool
  sg_ground_seen :: bool
  sg_closest_approach_nm :: "real option"
  sg_closest_approach_ms :: "int option"
  sg_max_range_nm :: "real option"
  sg_max_range_ms :: "int option"
  sg_lowest_alt_ft :: "int option"
  sg_lowest_alt_ms :: "int option"
  sg_highest_alt_ft :: "int option"
  sg_highest_alt_ms :: "int option"
  sg_msg_count :: int
  sg_pos_count :: nat
  sg_rssi_peak_db :: "real option"
  sg_rssi_min_db :: "real option"
  sg_rssi_total_db :: real
  sg_rssi_samples :: nat
  sg_positioned_ms :: int
  sg_messages_seen :: "int option"
  sg_last_position_at :: "datetime option"
  sg_stats_ms :: "int option"
  sg_pending_points :: "track_sample list"
  sg_last_point_at :: "datetime option"
  sg_last_point_ms :: "int option"
  sg_checkpoint_seq :: nat
  sg_checkpoint_anchor :: "track_sample option"
  sg_pending_events :: "pending_event list"
  sg_dirty :: bool
  sg_flush_immediately :: bool
  sg_last_flush_ms :: "int option"
  sg_close_deadline_ms :: "int option"
  sg_closure_reason :: closure_reason

text \<open>The defaults of the dataclass.\<close>

definition new_sighting :: "string \<Rightarrow> int \<Rightarrow> int \<Rightarrow> active_sighting" where
  "new_sighting icao started_ms last_seen_ms =
     \<lparr>sg_icao = icao, sg_started_ms = started_ms, sg_last_seen_ms = last_seen_ms,
      sg_aircraft_id = None, sg_sighting_id = None, sg_first_ever = False,
      sg_callsign_first = None, sg_callsign_last = None, sg_squawk_last = None,
      sg_had_emergency = False, sg_emergency_active = False, sg_decoder_emergency = None,
      sg_emergency_declared = None, sg_emitter_category = None,
      sg_origin_ident = None, sg_destination_ident = None, sg_route_source = None,
      sg_inferred_airport_ident = None, sg_inferred_phase = None, sg_max_alert_severity = None,
      sg_any_position = False, sg_mlat_used = False, sg_ground_seen = False,
      sg_closest_approach_nm = None, sg_closest_approach_ms = None,
      sg_max_range_nm = None, sg_max_range_ms = None,
      sg_lowest_alt_ft = None, sg_lowest_alt_ms = None,
      sg_highest_alt_ft = None, sg_highest_alt_ms = None,
      sg_msg_count = 0, sg_pos_count = 0, sg_rssi_peak_db = None, sg_rssi_min_db = None,
      sg_rssi_total_db = 0, sg_rssi_samples = 0, sg_positioned_ms = 0, sg_messages_seen = None,
      sg_last_position_at = None, sg_stats_ms = None,
      sg_pending_points = [], sg_last_point_at = None, sg_last_point_ms = None,
      sg_checkpoint_seq = 0, sg_checkpoint_anchor = None, sg_pending_events = [],
      sg_dirty = True, sg_flush_immediately = False, sg_last_flush_ms = None,
      sg_close_deadline_ms = None, sg_closure_reason = GapTimeout\<rparr>"

section \<open>Derived figures\<close>

definition duration_ms :: "active_sighting \<Rightarrow> int" where
  "duration_ms s = max 0 (sg_last_seen_ms s - sg_started_ms s)"

definition rssi_avg_db :: "active_sighting \<Rightarrow> real option" where
  "rssi_avg_db s =
     (if sg_rssi_samples s = 0 then None else Some (sg_rssi_total_db s / of_nat (sg_rssi_samples s)))"

definition pos_time_pct :: "active_sighting \<Rightarrow> real option" where
  "pos_time_pct s =
     (if duration_ms s \<le> 0 then None
      else Some (min 100 (of_int (sg_positioned_ms s) * 100 / of_int (duration_ms s))))"

section \<open>Observation\<close>

definition emit :: "event_type \<Rightarrow> int \<Rightarrow> (string \<times> string option) list \<Rightarrow> active_sighting \<Rightarrow> active_sighting" where
  "emit event at_ms payload s =
     s\<lparr>sg_pending_events := sg_pending_events s @ [\<lparr>pe_type = event, pe_ts_ms = at_ms, pe_payload = payload\<rparr>]\<rparr>"

definition observe_emergency ::
  "string option \<Rightarrow> string option \<Rightarrow> int \<Rightarrow> active_sighting \<Rightarrow> active_sighting" where
  "observe_emergency squawk reported at_ms s =
     (let s1 = (case squawk of None \<Rightarrow> s | Some q \<Rightarrow> s\<lparr>sg_emergency_active := q \<in> set EMERGENCY_SQUAWKS\<rparr>);
          s2 = s1\<lparr>sg_decoder_emergency := reported\<rparr>;
          declared = declared_emergency
            (if sg_emergency_active s2 then sg_squawk_last s2 else None) (sg_decoder_emergency s2);
          previous = sg_emergency_declared s2;
          s3 = (case declared of None \<Rightarrow> s2 | Some d \<Rightarrow> s2\<lparr>sg_emergency_declared := Some d\<rparr>)
      in (case (declared, previous) of
            (Some (source, kind), None) \<Rightarrow>
              emit EmergencyStart at_ms
                [(''squawk'', squawk), (''source'', Some source), (''kind'', Some kind)]
                (s3\<lparr>sg_had_emergency := True, sg_flush_immediately := True\<rparr>)
          | (None, Some (source, kind)) \<Rightarrow>
              emit EmergencyEnd at_ms
                [(''squawk'', squawk), (''source'', Some source), (''kind'', Some kind)]
                (s3\<lparr>sg_emergency_declared := None, sg_flush_immediately := True\<rparr>)
          | _ \<Rightarrow> s3))"

definition observe_callsign :: "string option \<Rightarrow> int \<Rightarrow> active_sighting \<Rightarrow> active_sighting" where
  "observe_callsign callsign at_ms s =
     (if callsign \<noteq> None \<and> callsign \<noteq> sg_callsign_last s then
        (let s1 = (if sg_callsign_first s = None then s\<lparr>sg_callsign_first := callsign\<rparr>
                   else if sg_callsign_last s \<noteq> None then
                     emit CallsignChange at_ms [(''from'', sg_callsign_last s), (''to'', callsign)] s
                   else s)
         in s1\<lparr>sg_callsign_last := callsign, sg_flush_immediately := True\<rparr>)
      else s)"

definition observe_squawk :: "string option \<Rightarrow> int \<Rightarrow> active_sighting \<Rightarrow> active_sighting" where
  "observe_squawk squawk at_ms s =
     (if squawk \<noteq> None \<and> squawk \<noteq> sg_squawk_last s then
        (let s1 = (if sg_squawk_last s \<noteq> None then
                     emit SquawkChange at_ms [(''from'', sg_squawk_last s), (''to'', squawk)] s
                   else s)
         in s1\<lparr>sg_squawk_last := squawk, sg_flush_immediately := True\<rparr>)
      else s)"

definition observe_flight_context :: "live_aircraft \<Rightarrow> int \<Rightarrow> active_sighting \<Rightarrow> active_sighting" where
  "observe_flight_context record at_ms s =
     observe_emergency (la_squawk record) (la_decoder_emergency record) at_ms
       (observe_squawk (la_squawk record) at_ms (observe_callsign (la_callsign record) at_ms s))"

definition observe_position_character :: "live_aircraft \<Rightarrow> active_sighting \<Rightarrow> active_sighting" where
  "observe_position_character record s =
     s\<lparr>sg_any_position := sg_any_position s \<or> la_has_position record,
       sg_mlat_used := sg_mlat_used s \<or> la_position_source record = SrcMlat,
       sg_ground_seen := sg_ground_seen s \<or> la_ground_state record = OnGround\<rparr>"

definition improves :: "('a \<Rightarrow> 'a \<Rightarrow> bool) \<Rightarrow> 'a \<Rightarrow> 'a option \<Rightarrow> bool" where
  "improves better new current = (case current of None \<Rightarrow> True | Some c \<Rightarrow> better new c)"

definition observe_extremes :: "live_aircraft \<Rightarrow> int \<Rightarrow> active_sighting \<Rightarrow> active_sighting" where
  "observe_extremes record at_ms s =
     (let s1 = (case la_distance_nm record of
                  None \<Rightarrow> s
                | Some d \<Rightarrow>
                    (let s' = (if improves (<) d (sg_closest_approach_nm s)
                               then s\<lparr>sg_closest_approach_nm := Some d, sg_closest_approach_ms := Some at_ms\<rparr>
                               else s)
                     in (if improves (>) d (sg_max_range_nm s')
                         then s'\<lparr>sg_max_range_nm := Some d, sg_max_range_ms := Some at_ms\<rparr> else s')))
      in (case la_altitude_ft record of
            None \<Rightarrow> s1
          | Some a \<Rightarrow>
              (let altitude_ft = py_round a;
                   s' = (if improves (<) altitude_ft (sg_lowest_alt_ft s1)
                         then s1\<lparr>sg_lowest_alt_ft := Some altitude_ft, sg_lowest_alt_ms := Some at_ms\<rparr>
                         else s1)
               in (if improves (>) altitude_ft (sg_highest_alt_ft s')
                   then s'\<lparr>sg_highest_alt_ft := Some altitude_ft, sg_highest_alt_ms := Some at_ms\<rparr>
                   else s'))))"

definition observe_reception :: "live_aircraft \<Rightarrow> int \<Rightarrow> active_sighting \<Rightarrow> active_sighting" where
  "observe_reception record at_ms s =
     (let previous_ms = sg_stats_ms s;
          s1 = (case la_messages record of
                  None \<Rightarrow> s
                | Some messages \<Rightarrow>
                    (let delta = (case sg_messages_seen s of
                                    None \<Rightarrow> messages
                                  | Some seen \<Rightarrow> if messages < seen then messages else messages - seen)
                     in s\<lparr>sg_msg_count := sg_msg_count s + max 0 delta, sg_messages_seen := Some messages\<rparr>));
          s2 = (case la_rssi_db record of
                  None \<Rightarrow> s1
                | Some rssi \<Rightarrow>
                    s1\<lparr>sg_rssi_peak_db := Some (case sg_rssi_peak_db s1 of None \<Rightarrow> rssi | Some p \<Rightarrow> max p rssi),
                       sg_rssi_min_db := Some (case sg_rssi_min_db s1 of None \<Rightarrow> rssi | Some p \<Rightarrow> min p rssi),
                       sg_rssi_total_db := sg_rssi_total_db s1 + rssi,
                       sg_rssi_samples := Suc (sg_rssi_samples s1)\<rparr>)
      in (if la_position_seen record \<noteq> None \<and> la_position_seen record \<noteq> sg_last_position_at s2
          then s2\<lparr>sg_pos_count := Suc (sg_pos_count s2),
                  sg_positioned_ms := sg_positioned_ms s2 +
                    (case previous_ms of None \<Rightarrow> 0 | Some p \<Rightarrow> at_ms - p),
                  sg_last_position_at := la_position_seen record\<rparr>
          else s2))"

definition append_pending :: "track_sample \<Rightarrow> active_sighting \<Rightarrow> active_sighting" where
  "append_pending sample s =
     s\<lparr>sg_pending_points := deque_append MAX_PENDING_POINTS (sg_pending_points s) sample\<rparr>"

fun harvest_loop :: "track_point list \<Rightarrow> active_sighting \<Rightarrow> active_sighting" where
  "harvest_loop [] s = s"
| "harvest_loop (point # points) s =
     (let s1 = s\<lparr>sg_last_point_at := Some (tp_timestamp point)\<rparr>;
          sample = from_track_point point
      in if (case sg_last_point_ms s1 of None \<Rightarrow> False | Some m \<Rightarrow> ts_ms sample \<le> m)
         then harvest_loop points s1
         else harvest_loop points ((append_pending sample s1)\<lparr>sg_last_point_ms := Some (ts_ms sample)\<rparr>))"

definition harvest_track :: "live_aircraft \<Rightarrow> active_sighting \<Rightarrow> active_sighting" where
  "harvest_track record s = harvest_loop (points_since (sg_last_point_at s) (la_track record)) s"

definition observe :: "live_aircraft \<Rightarrow> active_sighting \<Rightarrow> active_sighting" where
  "observe record s =
     (let at_ms = to_epoch_ms (la_last_seen record);
          counted = (case sg_stats_ms s of None \<Rightarrow> True | Some m \<Rightarrow> m < at_ms);
          s1 = (if sg_last_seen_ms s < at_ms then s\<lparr>sg_last_seen_ms := at_ms\<rparr> else s);
          s2 = observe_flight_context record at_ms s1;
          s3 = (case la_emitter_category record of
                  None \<Rightarrow> s2 | Some c \<Rightarrow> s2\<lparr>sg_emitter_category := Some c\<rparr>);
          s4 = observe_position_character record s3;
          s5 = observe_extremes record at_ms s4;
          s6 = (if counted then (observe_reception record at_ms s5)\<lparr>sg_stats_ms := Some at_ms\<rparr> else s5);
          s7 = harvest_track record s6
      in s7\<lparr>sg_dirty := True\<rparr>)"

definition open_from :: "live_aircraft \<Rightarrow> active_sighting" where
  "open_from record =
     observe record (new_sighting (la_icao record) (to_epoch_ms (la_first_seen record))
       (to_epoch_ms (la_first_seen record)))"

section \<open>Conclusions of other tasks\<close>

definition sighting_route_of :: "active_sighting \<Rightarrow> sighting_route option" where
  "sighting_route_of s = (case sg_route_source s of
       None \<Rightarrow> None
     | Some source \<Rightarrow> Some \<lparr>rt_origin_ident = sg_origin_ident s,
                            rt_destination_ident = sg_destination_ident s, rt_source = source\<rparr>)"

definition touch :: "active_sighting \<Rightarrow> active_sighting" where
  "touch s = s\<lparr>sg_dirty := True, sg_flush_immediately := True\<rparr>"

definition apply_route :: "sighting_route \<Rightarrow> int \<Rightarrow> active_sighting \<Rightarrow> active_sighting \<times> bool" where
  "apply_route route at_ms s =
     (if (sg_origin_ident s, sg_destination_ident s, sg_route_source s) =
         (rt_origin_ident route, rt_destination_ident route, Some (rt_source route))
      then (s, False)
      else (touch (emit RouteEnriched at_ms
              [(''source'', Some (rt_source route)), (''origin'', rt_origin_ident route),
               (''destination'', rt_destination_ident route)]
              (s\<lparr>sg_origin_ident := rt_origin_ident route,
                 sg_destination_ident := rt_destination_ident route,
                 sg_route_source := Some (rt_source route)\<rparr>)), True))"

definition inferred_airport_of :: "active_sighting \<Rightarrow> inferred_airport option" where
  "inferred_airport_of s = (case sg_inferred_airport_ident s of
       None \<Rightarrow> None
     | Some ident \<Rightarrow> Some \<lparr>ia_ident = ident, ia_phase = sg_inferred_phase s\<rparr>)"

definition apply_inferred_airport ::
  "inferred_airport \<Rightarrow> int \<Rightarrow> active_sighting \<Rightarrow> active_sighting \<times> bool" where
  "apply_inferred_airport inferred at_ms s =
     (let phase0 = (if ia_phase inferred \<noteq> None then ia_phase inferred else sg_inferred_phase s);
          phase = (if Some (ia_ident inferred) \<noteq> sg_inferred_airport_ident s then ia_phase inferred
                   else phase0)
      in if (sg_inferred_airport_ident s, sg_inferred_phase s) = (Some (ia_ident inferred), phase)
         then (s, False)
         else (touch (s\<lparr>sg_inferred_airport_ident := Some (ia_ident inferred),
                        sg_inferred_phase := phase\<rparr>), True))"

definition apply_alert_severity ::
  "string \<Rightarrow> string \<Rightarrow> int \<Rightarrow> active_sighting \<Rightarrow> (active_sighting \<times> bool) result" where
  "apply_alert_severity severity reason at_ms s =
     bindE (outranks_severity severity (sg_max_alert_severity s)) (\<lambda>outranks.
       if \<not> outranks then Inr (s, False)
       else (let previous = sg_max_alert_severity s;
                 s1 = s\<lparr>sg_max_alert_severity := Some severity\<rparr>;
                 s2 = (case previous of
                     None \<Rightarrow> emit AlertMatched at_ms
                       [(''severity'', Some severity), (''reason'', Some reason)] s1
                   | Some p \<Rightarrow> emit AlertSeverityUpgraded at_ms
                       [(''from'', Some p), (''to'', Some severity), (''reason'', Some reason)] s1)
             in Inr (touch s2, True)))"

section \<open>The writes\<close>

definition take_checkpoint :: "active_sighting \<Rightarrow> checkpoint_batch option" where
  "take_checkpoint s =
     (if sg_pending_points s = [] then None
      else (let samples = sg_pending_points s;
                kept = thin_for_checkpoint samples (sg_checkpoint_anchor s)
            in Some \<lparr>cb_consumed = length samples,
                     cb_rows = map (\<lambda>(offset, sample). (sg_checkpoint_seq s + offset, sample))
                                 (List.enumerate 0 kept)\<rparr>))"

definition mark_checkpointed :: "checkpoint_batch \<Rightarrow> active_sighting \<Rightarrow> active_sighting" where
  "mark_checkpointed batch s =
     s\<lparr>sg_pending_points := drop (min (cb_consumed batch) (length (sg_pending_points s))) (sg_pending_points s),
       sg_checkpoint_seq := sg_checkpoint_seq s + length (cb_rows batch),
       sg_checkpoint_anchor := Some (batch_newest batch)\<rparr>"

definition take_events :: "active_sighting \<Rightarrow> pending_event list" where
  "take_events s = sg_pending_events s"

definition mark_events_written :: "nat \<Rightarrow> active_sighting \<Rightarrow> active_sighting" where
  "mark_events_written written s = s\<lparr>sg_pending_events := drop written (sg_pending_events s)\<rparr>"

definition needs_flush :: "int \<Rightarrow> int \<Rightarrow> bool \<Rightarrow> active_sighting \<Rightarrow> bool" where
  "needs_flush now_ms interval_ms force s =
     (if \<not> sg_dirty s then False
      else if force \<or> sg_flush_immediately s then True
      else (case sg_last_flush_ms s of None \<Rightarrow> True | Some last_flush \<Rightarrow> interval_ms \<le> now_ms - last_flush))"

definition mark_flushed :: "int \<Rightarrow> active_sighting \<Rightarrow> active_sighting" where
  "mark_flushed now_ms s =
     s\<lparr>sg_dirty := False, sg_flush_immediately := False, sg_last_flush_ms := Some now_ms\<rparr>"

section \<open>What each part of an observation leaves alone\<close>

text \<open>The state in groups; each part of \<open>observe\<close> writes one of them.\<close>

definition context_view where
  "context_view s =
     (sg_callsign_first s, sg_callsign_last s, sg_squawk_last s, sg_had_emergency s,
      sg_emergency_active s, sg_decoder_emergency s, sg_emergency_declared s, sg_pending_events s)"

definition character_view where
  "character_view s = (sg_any_position s, sg_mlat_used s, sg_ground_seen s)"

definition extremes_view where
  "extremes_view s =
     (sg_closest_approach_nm s, sg_closest_approach_ms s, sg_max_range_nm s, sg_max_range_ms s,
      sg_lowest_alt_ft s, sg_lowest_alt_ms s, sg_highest_alt_ft s, sg_highest_alt_ms s)"

definition reception_view where
  "reception_view s =
     (sg_msg_count s, sg_messages_seen s, sg_rssi_peak_db s, sg_rssi_min_db s, sg_rssi_total_db s,
      sg_rssi_samples s, sg_pos_count s, sg_positioned_ms s, sg_last_position_at s)"

definition track_view where
  "track_view s =
     (sg_pending_points s, sg_last_point_at s, sg_last_point_ms s, sg_checkpoint_seq s,
      sg_checkpoint_anchor s)"

lemmas view_defs = context_view_def character_view_def extremes_view_def reception_view_def track_view_def

lemma emergency_keeps [simp]:
  "character_view (observe_emergency q d t s) = character_view s"
  "extremes_view (observe_emergency q d t s) = extremes_view s"
  "reception_view (observe_emergency q d t s) = reception_view s"
  "track_view (observe_emergency q d t s) = track_view s"
  "sg_stats_ms (observe_emergency q d t s) = sg_stats_ms s"
  "sg_callsign_last (observe_emergency q d t s) = sg_callsign_last s"
  "sg_callsign_first (observe_emergency q d t s) = sg_callsign_first s"
  "sg_squawk_last (observe_emergency q d t s) = sg_squawk_last s"
  "sg_last_seen_ms (observe_emergency q d t s) = sg_last_seen_ms s"
  "sg_emitter_category (observe_emergency q d t s) = sg_emitter_category s"
  by (simp_all add: observe_emergency_def emit_def Let_def view_defs split: option.split prod.split)

lemma callsign_keeps [simp]:
  "character_view (observe_callsign c t s) = character_view s"
  "extremes_view (observe_callsign c t s) = extremes_view s"
  "reception_view (observe_callsign c t s) = reception_view s"
  "track_view (observe_callsign c t s) = track_view s"
  "sg_stats_ms (observe_callsign c t s) = sg_stats_ms s"
  "sg_squawk_last (observe_callsign c t s) = sg_squawk_last s"
  "sg_had_emergency (observe_callsign c t s) = sg_had_emergency s"
  "sg_emergency_active (observe_callsign c t s) = sg_emergency_active s"
  "sg_emergency_declared (observe_callsign c t s) = sg_emergency_declared s"
  "sg_last_seen_ms (observe_callsign c t s) = sg_last_seen_ms s"
  by (simp_all add: observe_callsign_def emit_def Let_def view_defs)

lemma squawk_keeps [simp]:
  "character_view (observe_squawk c t s) = character_view s"
  "extremes_view (observe_squawk c t s) = extremes_view s"
  "reception_view (observe_squawk c t s) = reception_view s"
  "track_view (observe_squawk c t s) = track_view s"
  "sg_stats_ms (observe_squawk c t s) = sg_stats_ms s"
  "sg_callsign_last (observe_squawk c t s) = sg_callsign_last s"
  "sg_callsign_first (observe_squawk c t s) = sg_callsign_first s"
  "sg_had_emergency (observe_squawk c t s) = sg_had_emergency s"
  "sg_emergency_active (observe_squawk c t s) = sg_emergency_active s"
  "sg_emergency_declared (observe_squawk c t s) = sg_emergency_declared s"
  "sg_last_seen_ms (observe_squawk c t s) = sg_last_seen_ms s"
  by (simp_all add: observe_squawk_def emit_def Let_def view_defs)

lemma flight_context_keeps [simp]:
  "character_view (observe_flight_context r t s) = character_view s"
  "extremes_view (observe_flight_context r t s) = extremes_view s"
  "reception_view (observe_flight_context r t s) = reception_view s"
  "track_view (observe_flight_context r t s) = track_view s"
  "sg_stats_ms (observe_flight_context r t s) = sg_stats_ms s"
  "sg_last_seen_ms (observe_flight_context r t s) = sg_last_seen_ms s"
  by (simp_all add: observe_flight_context_def)

lemma character_keeps [simp]:
  "context_view (observe_position_character r s) = context_view s"
  "extremes_view (observe_position_character r s) = extremes_view s"
  "reception_view (observe_position_character r s) = reception_view s"
  "track_view (observe_position_character r s) = track_view s"
  "sg_stats_ms (observe_position_character r s) = sg_stats_ms s"
  "sg_last_seen_ms (observe_position_character r s) = sg_last_seen_ms s"
  by (simp_all add: observe_position_character_def view_defs)

lemma extremes_keeps [simp]:
  "context_view (observe_extremes r t s) = context_view s"
  "character_view (observe_extremes r t s) = character_view s"
  "reception_view (observe_extremes r t s) = reception_view s"
  "track_view (observe_extremes r t s) = track_view s"
  "sg_stats_ms (observe_extremes r t s) = sg_stats_ms s"
  "sg_last_seen_ms (observe_extremes r t s) = sg_last_seen_ms s"
  "sg_emitter_category (observe_extremes r t s) = sg_emitter_category s"
  by (simp_all add: observe_extremes_def Let_def view_defs split: option.split)

lemma reception_keeps [simp]:
  "context_view (observe_reception r t s) = context_view s"
  "character_view (observe_reception r t s) = character_view s"
  "extremes_view (observe_reception r t s) = extremes_view s"
  "track_view (observe_reception r t s) = track_view s"
  "sg_last_seen_ms (observe_reception r t s) = sg_last_seen_ms s"
  "sg_emitter_category (observe_reception r t s) = sg_emitter_category s"
  by (simp_all add: observe_reception_def Let_def view_defs split: option.split)

lemma harvest_loop_keeps:
  "context_view (harvest_loop ps s) = context_view s \<and>
   character_view (harvest_loop ps s) = character_view s \<and>
   extremes_view (harvest_loop ps s) = extremes_view s \<and>
   reception_view (harvest_loop ps s) = reception_view s \<and>
   sg_stats_ms (harvest_loop ps s) = sg_stats_ms s \<and>
   sg_checkpoint_seq (harvest_loop ps s) = sg_checkpoint_seq s \<and>
   sg_checkpoint_anchor (harvest_loop ps s) = sg_checkpoint_anchor s \<and>
   sg_last_seen_ms (harvest_loop ps s) = sg_last_seen_ms s \<and>
   sg_emitter_category (harvest_loop ps s) = sg_emitter_category s"
  by (induction ps s rule: harvest_loop.induct)
     (simp_all add: Let_def append_pending_def view_defs split: option.split)

lemma harvest_keeps [simp]:
  "context_view (harvest_track r s) = context_view s"
  "character_view (harvest_track r s) = character_view s"
  "extremes_view (harvest_track r s) = extremes_view s"
  "reception_view (harvest_track r s) = reception_view s"
  "sg_stats_ms (harvest_track r s) = sg_stats_ms s"
  "sg_checkpoint_seq (harvest_track r s) = sg_checkpoint_seq s"
  "sg_checkpoint_anchor (harvest_track r s) = sg_checkpoint_anchor s"
  "sg_last_seen_ms (harvest_track r s) = sg_last_seen_ms s"
  "sg_emitter_category (harvest_track r s) = sg_emitter_category s"
  by (simp_all add: harvest_track_def harvest_loop_keeps)

lemma updates_keep [simp]:
  "extremes_view (s\<lparr>sg_last_seen_ms := m\<rparr>) = extremes_view s"
  "extremes_view (s\<lparr>sg_emitter_category := c\<rparr>) = extremes_view s"
  "extremes_view (s\<lparr>sg_stats_ms := x\<rparr>) = extremes_view s"
  "extremes_view (s\<lparr>sg_dirty := b\<rparr>) = extremes_view s"
  "reception_view (s\<lparr>sg_last_seen_ms := m\<rparr>) = reception_view s"
  "reception_view (s\<lparr>sg_emitter_category := c\<rparr>) = reception_view s"
  "reception_view (s\<lparr>sg_stats_ms := x\<rparr>) = reception_view s"
  "reception_view (s\<lparr>sg_dirty := b\<rparr>) = reception_view s"
  "track_view (s\<lparr>sg_last_seen_ms := m\<rparr>) = track_view s"
  "track_view (s\<lparr>sg_emitter_category := c\<rparr>) = track_view s"
  "track_view (s\<lparr>sg_stats_ms := x\<rparr>) = track_view s"
  "track_view (s\<lparr>sg_dirty := b\<rparr>) = track_view s"
  "context_view (s\<lparr>sg_last_seen_ms := m\<rparr>) = context_view s"
  "context_view (s\<lparr>sg_emitter_category := c\<rparr>) = context_view s"
  "context_view (s\<lparr>sg_stats_ms := x\<rparr>) = context_view s"
  "context_view (s\<lparr>sg_dirty := b\<rparr>) = context_view s"
  "character_view (s\<lparr>sg_stats_ms := x\<rparr>) = character_view s"
  "character_view (s\<lparr>sg_dirty := b\<rparr>) = character_view s"
  by (simp_all add: view_defs)

section \<open>Running extremes\<close>

text \<open>
  Both kinds of extreme are a running best under a strict order, with the instant it was set. The
  contract: folding reports yields the first best of them.
\<close>

definition best_step ::
  "('a \<Rightarrow> 'a \<Rightarrow> bool) \<Rightarrow> ('r \<Rightarrow> 'a option) \<Rightarrow> ('r \<Rightarrow> int) \<Rightarrow> 'r \<Rightarrow> 'a option \<times> int option \<Rightarrow> 'a option \<times> int option" where
  "best_step better val tm r best = (case val r of
       None \<Rightarrow> best
     | Some v \<Rightarrow> if improves better v (fst best) then (Some v, Some (tm r)) else best)"

definition first_best ::
  "('a \<Rightarrow> 'a \<Rightarrow> bool) \<Rightarrow> ('r \<Rightarrow> 'a option) \<Rightarrow> ('r \<Rightarrow> int) \<Rightarrow> 'r list \<Rightarrow> 'a option \<times> int option \<Rightarrow> bool" where
  "first_best better val tm rs best = (case fst best of
       None \<Rightarrow> snd best = None \<and> (\<forall>r \<in> set rs. val r = None)
     | Some c \<Rightarrow> \<exists>xs r ys. rs = xs @ r # ys \<and> val r = Some c \<and> snd best = Some (tm r) \<and>
         (\<forall>x \<in> set xs. opt_all (better c) (val x)) \<and> (\<forall>y \<in> set ys. opt_all (\<lambda>v. \<not> better v c) (val y)))"

lemma first_bestI:
  "rs = xs @ r # ys \<Longrightarrow> val r = Some c \<Longrightarrow> best = (Some c, Some (tm r)) \<Longrightarrow>
     \<forall>x \<in> set xs. opt_all (better c) (val x) \<Longrightarrow>
     \<forall>y \<in> set ys. opt_all (\<lambda>v. \<not> better v c) (val y) \<Longrightarrow> first_best better val tm rs best"
  unfolding first_best_def by auto

locale running_best =
  fixes better :: "'a \<Rightarrow> 'a \<Rightarrow> bool"
  assumes better_irrefl: "\<not> better a a"
    and better_trans: "better a b \<Longrightarrow> better b c \<Longrightarrow> better a c"
    and better_total: "better a b \<or> a = b \<or> better b a"
begin

lemma first_best_step:
  assumes "first_best better val tm rs best"
  shows "first_best better val tm (rs @ [r]) (best_step better val tm r best)"
proof (cases "val r")
  case None
  show ?thesis
  proof (cases "fst best")
    case (Some c)
    with assms obtain xs q ys where "rs = xs @ q # ys" "val q = Some c" "snd best = Some (tm q)"
      "\<forall>x \<in> set xs. opt_all (better c) (val x)" "\<forall>y \<in> set ys. opt_all (\<lambda>v. \<not> better v c) (val y)"
      by (auto simp: first_best_def)
    with Some None show ?thesis
      by (intro first_bestI [of _ xs q "ys @ [r]"]) (auto simp: best_step_def prod_eq_iff)
  qed (use assms None in \<open>simp add: first_best_def best_step_def\<close>)
next
  case v: (Some v)
  show ?thesis
  proof (cases "fst best")
    case None
    with assms v show ?thesis
      by (intro first_bestI [of _ rs r "[]"]) (auto simp: first_best_def best_step_def improves_def)
  next
    case (Some c)
    with assms obtain xs q ys where split: "rs = xs @ q # ys" "val q = Some c" "snd best = Some (tm q)"
      "\<forall>x \<in> set xs. opt_all (better c) (val x)" "\<forall>y \<in> set ys. opt_all (\<lambda>v. \<not> better v c) (val y)"
      by (auto simp: first_best_def)
    show ?thesis
    proof (cases "better v c")
      case True
      have "\<forall>x \<in> set rs. opt_all (better v) (val x)"
      proof
        fix x assume x: "x \<in> set rs"
        show "opt_all (better v) (val x)"
        proof (cases "val x")
          case (Some w)
          with split x have "better c w \<or> \<not> better w c" by auto
          then have "better c w \<or> c = w" using better_total by blast
          with True better_trans Some show ?thesis by auto
        qed simp
      qed
      with True Some v show ?thesis
        by (intro first_bestI [of _ rs r "[]"]) (auto simp: best_step_def improves_def)
    next
      case False
      with split Some v show ?thesis
        by (intro first_bestI [of _ xs q "ys @ [r]"])
           (auto simp: best_step_def improves_def prod_eq_iff)
    qed
  qed
qed

lemma first_best_fold: "first_best better val tm rs (fold (best_step better val tm) rs (None, None))"
proof (induction rs rule: rev_induct)
  case (snoc r rs)
  from first_best_step [OF this] show ?case by simp
qed (simp add: first_best_def)

end

interpretation nearest: running_best "(<) :: real \<Rightarrow> real \<Rightarrow> bool" by unfold_locales auto
interpretation farthest: running_best "(>) :: real \<Rightarrow> real \<Rightarrow> bool" by unfold_locales auto
interpretation lowest: running_best "(<) :: int \<Rightarrow> int \<Rightarrow> bool" by unfold_locales auto
interpretation highest: running_best "(>) :: int \<Rightarrow> int \<Rightarrow> bool" by unfold_locales auto

definition observed_ms :: "live_aircraft \<Rightarrow> int" where
  "observed_ms r = to_epoch_ms (la_last_seen r)"

definition whole_feet :: "live_aircraft \<Rightarrow> int option" where
  "whole_feet r = map_option py_round (la_altitude_ft r)"

definition nearest_of :: "active_sighting \<Rightarrow> real option \<times> int option" where
  "nearest_of s = (sg_closest_approach_nm s, sg_closest_approach_ms s)"
definition farthest_of :: "active_sighting \<Rightarrow> real option \<times> int option" where
  "farthest_of s = (sg_max_range_nm s, sg_max_range_ms s)"
definition lowest_of :: "active_sighting \<Rightarrow> int option \<times> int option" where
  "lowest_of s = (sg_lowest_alt_ft s, sg_lowest_alt_ms s)"
definition highest_of :: "active_sighting \<Rightarrow> int option \<times> int option" where
  "highest_of s = (sg_highest_alt_ft s, sg_highest_alt_ms s)"

lemmas extreme_pairs = nearest_of_def farthest_of_def lowest_of_def highest_of_def

lemma extremes_view_pairs:
  "extremes_view s = extremes_view t \<longleftrightarrow>
     nearest_of s = nearest_of t \<and> farthest_of s = farthest_of t \<and>
     lowest_of s = lowest_of t \<and> highest_of s = highest_of t"
  by (auto simp: extremes_view_def extreme_pairs)

lemma observe_extremes_pairs:
  "nearest_of (observe_extremes r (observed_ms r) s) =
     best_step (<) la_distance_nm observed_ms r (nearest_of s)"
  "farthest_of (observe_extremes r (observed_ms r) s) =
     best_step (>) la_distance_nm observed_ms r (farthest_of s)"
  "lowest_of (observe_extremes r (observed_ms r) s) =
     best_step (<) whole_feet observed_ms r (lowest_of s)"
  "highest_of (observe_extremes r (observed_ms r) s) =
     best_step (>) whole_feet observed_ms r (highest_of s)"
  by (simp_all add: observe_extremes_def best_step_def extreme_pairs whole_feet_def Let_def
      split: option.split)

lemma observe_extremes_view:
  "nearest_of (observe r s) = best_step (<) la_distance_nm observed_ms r (nearest_of s)"
  "farthest_of (observe r s) = best_step (>) la_distance_nm observed_ms r (farthest_of s)"
  "lowest_of (observe r s) = best_step (<) whole_feet observed_ms r (lowest_of s)"
  "highest_of (observe r s) = best_step (>) whole_feet observed_ms r (highest_of s)"
proof -
  obtain s4 where s4: "extremes_view s4 = extremes_view s"
    "extremes_view (observe r s) = extremes_view (observe_extremes r (observed_ms r) s4)"
  proof
    let ?t = "observed_ms r"
    let ?s1 = "if sg_last_seen_ms s < ?t then s\<lparr>sg_last_seen_ms := ?t\<rparr> else s"
    let ?s2 = "observe_flight_context r ?t ?s1"
    let ?s3 = "case la_emitter_category r of None \<Rightarrow> ?s2 | Some c \<Rightarrow> ?s2\<lparr>sg_emitter_category := Some c\<rparr>"
    let ?s4 = "observe_position_character r ?s3"
    show "extremes_view ?s4 = extremes_view s" by (simp split: option.split)
    show "extremes_view (observe r s) = extremes_view (observe_extremes r ?t ?s4)"
      unfolding observe_def observed_ms_def Let_def by simp
  qed
  then show "nearest_of (observe r s) = best_step (<) la_distance_nm observed_ms r (nearest_of s)"
    "farthest_of (observe r s) = best_step (>) la_distance_nm observed_ms r (farthest_of s)"
    "lowest_of (observe r s) = best_step (<) whole_feet observed_ms r (lowest_of s)"
    "highest_of (observe r s) = best_step (>) whole_feet observed_ms r (highest_of s)"
    by (simp_all add: extremes_view_pairs observe_extremes_pairs)
qed

definition observe_all :: "live_aircraft list \<Rightarrow> active_sighting \<Rightarrow> active_sighting" where
  "observe_all rs s = fold observe rs s"

lemma observe_all_simps [simp]:
  "observe_all [] s = s" "observe_all (rs @ [r]) s = observe r (observe_all rs s)"
  "observe_all (r # rs) s = observe_all rs (observe r s)"
  by (simp_all add: observe_all_def)

lemma observe_all_extremes:
  "nearest_of (observe_all rs s) = fold (best_step (<) la_distance_nm observed_ms) rs (nearest_of s)"
  "farthest_of (observe_all rs s) = fold (best_step (>) la_distance_nm observed_ms) rs (farthest_of s)"
  "lowest_of (observe_all rs s) = fold (best_step (<) whole_feet observed_ms) rs (lowest_of s)"
  "highest_of (observe_all rs s) = fold (best_step (>) whole_feet observed_ms) rs (highest_of s)"
  by (induction rs arbitrary: s) (simp_all add: observe_extremes_view)

end
