(* ===== verification/SightingHistory.thy ===== *)
theory SightingHistory
  imports SightingState
begin

text \<open>
  What a sighting accumulates over its whole life: the properties of
  \<^verbatim>\<open>sightings/state.py\<close> over arbitrary sequences of observations, commits and alerts.
\<close>

section \<open>Observing again\<close>

text \<open>A record whose content is already folded in: every part of \<open>observe\<close> is then the identity.\<close>

definition emergency_now :: "active_sighting \<Rightarrow> (string \<times> string) option" where
  "emergency_now s = declared_emergency
     (if sg_emergency_active s then sg_squawk_last s else None) (sg_decoder_emergency s)"

definition context_settled :: "live_aircraft \<Rightarrow> active_sighting \<Rightarrow> bool" where
  "context_settled r s \<longleftrightarrow>
     (la_callsign r = None \<or> la_callsign r = sg_callsign_last s) \<and>
     (la_squawk r = None \<or> la_squawk r = sg_squawk_last s) \<and>
     opt_all (\<lambda>q. sg_emergency_active s = (q \<in> set EMERGENCY_SQUAWKS)) (la_squawk r) \<and>
     sg_decoder_emergency s = la_decoder_emergency r \<and>
     emergency_now s = sg_emergency_declared s"

lemma emergency_fields [simp]:
  "sg_decoder_emergency (observe_emergency q d t s) = d"
  "sg_emergency_active (observe_emergency q d t s) =
     (case q of None \<Rightarrow> sg_emergency_active s | Some c \<Rightarrow> c \<in> set EMERGENCY_SQUAWKS)"
  "sg_emergency_declared (observe_emergency q d t s) = emergency_now (observe_emergency q d t s)"
  by (simp_all add: observe_emergency_def emergency_now_def emit_def Let_def
      split: option.split prod.split)

lemma callsign_fields [simp]:
  "sg_callsign_last (observe_callsign c t s) = or_else c (sg_callsign_last s)"
  by (auto simp: observe_callsign_def emit_def Let_def)

lemma squawk_fields [simp]:
  "sg_squawk_last (observe_squawk c t s) = or_else c (sg_squawk_last s)"
  by (auto simp: observe_squawk_def emit_def Let_def)

lemma context_settles: "context_settled r (observe_flight_context r t s)"
proof -
  show ?thesis
    by (cases "la_callsign r"; cases "la_squawk r")
       (simp_all add: context_settled_def observe_flight_context_def)
qed

lemma emergency_settled_id:
  assumes "opt_all (\<lambda>c. sg_emergency_active s = (c \<in> set EMERGENCY_SQUAWKS)) q"
    "sg_decoder_emergency s = d" "emergency_now s = sg_emergency_declared s"
  shows "observe_emergency q d t s = s"
proof -
  have 1: "(case q of None \<Rightarrow> s | Some c \<Rightarrow> s\<lparr>sg_emergency_active := c \<in> set EMERGENCY_SQUAWKS\<rparr>) = s"
    using assms(1) by (cases q) simp_all
  have 2: "s\<lparr>sg_decoder_emergency := d\<rparr> = s" using assms(2) by simp
  show ?thesis
  proof (cases "sg_emergency_declared s")
    case None
    with assms(3) show ?thesis
      unfolding observe_emergency_def 1 Let_def 2 by (simp add: emergency_now_def)
  next
    case (Some p)
    then have "s\<lparr>sg_emergency_declared := Some p\<rparr> = s" by simp
    with assms(3) Some show ?thesis
      unfolding observe_emergency_def 1 Let_def 2 by (cases p) (simp add: emergency_now_def)
  qed
qed

lemma callsign_id: "c = None \<or> c = sg_callsign_last s \<Longrightarrow> observe_callsign c t s = s"
  by (auto simp: observe_callsign_def)

lemma squawk_id: "c = None \<or> c = sg_squawk_last s \<Longrightarrow> observe_squawk c t s = s"
  by (auto simp: observe_squawk_def)

lemma context_settled_id:
  assumes "context_settled r s"
  shows "observe_flight_context r t s = s"
proof -
  have "observe_callsign (la_callsign r) t s = s" "observe_squawk (la_squawk r) t s = s"
    using assms unfolding context_settled_def by (intro callsign_id squawk_id; blast)+
  moreover have "observe_emergency (la_squawk r) (la_decoder_emergency r) t s = s"
    using assms unfolding context_settled_def by (intro emergency_settled_id) blast+
  ultimately show ?thesis unfolding observe_flight_context_def by (simp only:)
qed

lemma context_settled_cong:
  "context_view s = context_view s' \<Longrightarrow> context_settled r s = context_settled r s'"
  by (simp add: context_settled_def context_view_def emergency_now_def)

definition character_settled :: "live_aircraft \<Rightarrow> active_sighting \<Rightarrow> bool" where
  "character_settled r s \<longleftrightarrow>
     (la_has_position r \<longrightarrow> sg_any_position s) \<and>
     (la_position_source r = SrcMlat \<longrightarrow> sg_mlat_used s) \<and>
     (la_ground_state r = OnGround \<longrightarrow> sg_ground_seen s)"

lemma character_settled_id: "character_settled r s \<Longrightarrow> observe_position_character r s = s"
  by (cases s) (auto simp: character_settled_def observe_position_character_def)

lemma character_settles: "character_settled r (observe_position_character r s)"
  by (simp add: character_settled_def observe_position_character_def)

lemma character_settled_cong:
  "character_view s = character_view s' \<Longrightarrow> character_settled r s = character_settled r s'"
  by (simp add: character_settled_def character_view_def)

definition extremes_settled :: "live_aircraft \<Rightarrow> active_sighting \<Rightarrow> bool" where
  "extremes_settled r s \<longleftrightarrow>
     opt_all (\<lambda>d. \<not> improves (<) d (sg_closest_approach_nm s) \<and> \<not> improves (>) d (sg_max_range_nm s))
       (la_distance_nm r) \<and>
     opt_all (\<lambda>a. \<not> improves (<) (py_round a) (sg_lowest_alt_ft s) \<and>
                 \<not> improves (>) (py_round a) (sg_highest_alt_ft s)) (la_altitude_ft r)"

lemma extremes_settled_id: "extremes_settled r s \<Longrightarrow> observe_extremes r t s = s"
  by (cases "la_distance_nm r"; cases "la_altitude_ft r")
     (simp_all add: extremes_settled_def observe_extremes_def Let_def)

lemma extremes_settles: "extremes_settled r (observe_extremes r t s)"
  by (cases "la_distance_nm r"; cases "la_altitude_ft r")
     (auto simp: extremes_settled_def observe_extremes_def Let_def improves_def split: option.split)

lemma extremes_settled_cong:
  "extremes_view s = extremes_view s' \<Longrightarrow> extremes_settled r s = extremes_settled r s'"
  by (simp add: extremes_settled_def extremes_view_def)

lemma harvest_loop_last:
  "sg_last_point_at (harvest_loop ps s) = (if ps = [] then sg_last_point_at s else Some (tp_timestamp (last ps)))"
  by (induction ps s rule: harvest_loop.induct)
     (auto simp: Let_def append_pending_def split: option.split)

lemma points_since_eq:
  "track_inv t \<Longrightarrow> points_since (Some m) t = filter (\<lambda>p. m < tp_timestamp p) (ct_points t)"
  by (simp add: points_since_def scan_newer_eq track_inv_def takeWhile_newer_rev rev_filter)

lemma last_point_newest:
  assumes "track_inv t" "p \<in> set (ct_points t)"
  shows "tp_timestamp p \<le> tp_timestamp (last (ct_points t))"
  using assms
  by (cases "ct_points t" rule: rev_cases)
     (auto simp: track_inv_def sorted_wrt_append newer_def)

lemma harvest_settles:
  assumes "track_inv (la_track r)"
  shows "points_since (sg_last_point_at (harvest_track r s)) (la_track r) = []"
proof (cases "points_since (sg_last_point_at s) (la_track r) = []")
  case True
  then show ?thesis by (simp add: harvest_track_def)
next
  case False
  let ?ps = "points_since (sg_last_point_at s) (la_track r)"
  have "last ?ps = last (ct_points (la_track r))"
  proof (cases "sg_last_point_at s")
    case (Some m)
    with False have "filter (\<lambda>p. m < tp_timestamp p) (ct_points (la_track r)) \<noteq> []"
      by (simp add: points_since_eq [OF assms])
    then obtain p where p: "p \<in> set (ct_points (la_track r))" "m < tp_timestamp p"
      by (auto simp: filter_empty_conv)
    then have "m < tp_timestamp (last (ct_points (la_track r)))"
      using last_point_newest [OF assms p(1)] by simp
    moreover obtain qs q where "ct_points (la_track r) = qs @ [q]"
      using p(1) by (cases "ct_points (la_track r)" rule: rev_cases) auto
    ultimately show ?thesis using Some by (simp add: points_since_eq [OF assms])
  qed (simp add: points_since_def)
  then show ?thesis
    using False last_point_newest [OF assms]
    by (auto simp: harvest_track_def harvest_loop_last points_since_eq [OF assms] filter_empty_conv
        not_less)
qed

lemma harvest_settled_id:
  "points_since (sg_last_point_at s) (la_track r) = [] \<Longrightarrow> harvest_track r s = s"
  by (simp add: harvest_track_def)

text \<open>The parts together.\<close>

definition settled :: "live_aircraft \<Rightarrow> active_sighting \<Rightarrow> bool" where
  "settled r s \<longleftrightarrow>
     observed_ms r \<le> sg_last_seen_ms s \<and> context_settled r s \<and>
     (la_emitter_category r \<noteq> None \<longrightarrow> sg_emitter_category s = la_emitter_category r) \<and>
     character_settled r s \<and> extremes_settled r s \<and>
     (\<exists>m. sg_stats_ms s = Some m \<and> observed_ms r \<le> m) \<and>
     points_since (sg_last_point_at s) (la_track r) = [] \<and> sg_dirty s"

lemma settled_id:
  assumes "settled r s"
  shows "observe r s = s"
proof -
  let ?t = "observed_ms r"
  have last: "(if sg_last_seen_ms s < ?t then s\<lparr>sg_last_seen_ms := ?t\<rparr> else s) = s"
    using assms by (simp add: settled_def)
  have cat: "(case la_emitter_category r of None \<Rightarrow> s | Some c \<Rightarrow> s\<lparr>sg_emitter_category := Some c\<rparr>) = s"
    using assms by (auto simp: settled_def split: option.split)
  have counted: "(case sg_stats_ms s of None \<Rightarrow> True | Some m \<Rightarrow> m < ?t) = False"
    using assms by (auto simp: settled_def)
  have dirty: "s\<lparr>sg_dirty := True\<rparr> = s" using assms by (simp add: settled_def)
  have parts: "observe_flight_context r ?t s = s" "observe_position_character r s = s"
    "observe_extremes r ?t s = s" "harvest_track r s = s"
    using assms unfolding settled_def
    by (intro context_settled_id character_settled_id extremes_settled_id harvest_settled_id; blast)+
  show ?thesis
    unfolding observe_def Let_def observed_ms_def [symmetric] last counted parts cat if_False dirty ..
qed

text \<open>Each part settles what it is about, and no later part unsettles it.\<close>

lemma observe_settles:
  assumes "track_inv (la_track r)"
  shows "settled r (observe r s)"
proof -
  let ?t = "observed_ms r"
  let ?s1 = "if sg_last_seen_ms s < ?t then s\<lparr>sg_last_seen_ms := ?t\<rparr> else s"
  let ?s2 = "observe_flight_context r ?t ?s1"
  let ?s3 = "case la_emitter_category r of None \<Rightarrow> ?s2 | Some c \<Rightarrow> ?s2\<lparr>sg_emitter_category := Some c\<rparr>"
  let ?s4 = "observe_position_character r ?s3"
  let ?s5 = "observe_extremes r ?t ?s4"
  let ?s6 = "if case sg_stats_ms s of None \<Rightarrow> True | Some m \<Rightarrow> m < ?t
    then (observe_reception r ?t ?s5)\<lparr>sg_stats_ms := Some ?t\<rparr> else ?s5"
  let ?s7 = "harvest_track r ?s6"
  have o: "observe r s = ?s7\<lparr>sg_dirty := True\<rparr>"
    unfolding observe_def Let_def observed_ms_def [symmetric] ..
  have v6: "context_view ?s6 = context_view ?s2" "character_view ?s6 = character_view ?s4"
    "extremes_view ?s6 = extremes_view ?s5" "sg_last_seen_ms ?s6 = sg_last_seen_ms ?s1"
    by (simp_all split: option.split)
  have v: "context_view (observe r s) = context_view ?s2" "character_view (observe r s) = character_view ?s4"
    "extremes_view (observe r s) = extremes_view ?s5" "sg_last_seen_ms (observe r s) = sg_last_seen_ms ?s1"
    unfolding o using v6 by simp_all
  have "sg_stats_ms ?s5 = sg_stats_ms s" by (simp split: option.split)
  then have "\<exists>m. sg_stats_ms (observe r s) = Some m \<and> ?t \<le> m"
    unfolding o by (cases "sg_stats_ms s") auto
  moreover have "la_emitter_category r \<noteq> None \<longrightarrow> sg_emitter_category (observe r s) = la_emitter_category r"
    unfolding o by (cases "la_emitter_category r") (simp_all add: observe_position_character_def)
  moreover have "points_since (sg_last_point_at (observe r s)) (la_track r) = []" "sg_dirty (observe r s)"
    unfolding o using harvest_settles [OF assms, of ?s6] by simp_all
  moreover have "observed_ms r \<le> sg_last_seen_ms (observe r s)" unfolding v(4) by simp
  moreover have "context_settled r (observe r s)"
    unfolding context_settled_cong [OF v(1)] by (rule context_settles)
  moreover have "character_settled r (observe r s)"
    unfolding character_settled_cong [OF v(2)] by (rule character_settles)
  moreover have "extremes_settled r (observe r s)"
    unfolding extremes_settled_cong [OF v(3)] by (rule extremes_settles)
  ultimately show ?thesis unfolding settled_def by blast
qed

text \<open>What each group of fields of the next state depends on.\<close>

lemma observe_groups:
  obtains s1 s5 s6 where
    "context_view s1 = context_view s"
    "context_view (observe r s) = context_view (observe_flight_context r (observed_ms r) s1)"
    "reception_view s5 = reception_view s" "sg_stats_ms s5 = sg_stats_ms s"
    "reception_view (observe r s) =
       (if case sg_stats_ms s of None \<Rightarrow> True | Some m \<Rightarrow> m < observed_ms r
        then reception_view (observe_reception r (observed_ms r) s5) else reception_view s)"
    "sg_stats_ms (observe r s) =
       (if case sg_stats_ms s of None \<Rightarrow> True | Some m \<Rightarrow> m < observed_ms r
        then Some (observed_ms r) else sg_stats_ms s)"
    "track_view s6 = track_view s" "track_view (observe r s) = track_view (harvest_track r s6)"
proof -
  let ?t = "observed_ms r"
  let ?s1 = "if sg_last_seen_ms s < ?t then s\<lparr>sg_last_seen_ms := ?t\<rparr> else s"
  let ?s2 = "observe_flight_context r ?t ?s1"
  let ?s3 = "case la_emitter_category r of None \<Rightarrow> ?s2 | Some c \<Rightarrow> ?s2\<lparr>sg_emitter_category := Some c\<rparr>"
  let ?s4 = "observe_position_character r ?s3"
  let ?s5 = "observe_extremes r ?t ?s4"
  let ?s6 = "if case sg_stats_ms s of None \<Rightarrow> True | Some m \<Rightarrow> m < ?t
    then (observe_reception r ?t ?s5)\<lparr>sg_stats_ms := Some ?t\<rparr> else ?s5"
  have o: "observe r s = (harvest_track r ?s6)\<lparr>sg_dirty := True\<rparr>"
    unfolding observe_def Let_def observed_ms_def [symmetric] ..
  have s5: "reception_view ?s5 = reception_view s" "sg_stats_ms ?s5 = sg_stats_ms s"
    "track_view ?s5 = track_view s" "context_view ?s5 = context_view ?s2"
    by (simp_all split: option.split)
  show ?thesis
  proof (rule that [of ?s1 ?s5 ?s6])
    show "context_view ?s1 = context_view s" by simp
    show "context_view (observe r s) = context_view (observe_flight_context r ?t ?s1)"
      unfolding o using s5 by (simp split: option.split)
    show "reception_view (observe r s) =
       (if case sg_stats_ms s of None \<Rightarrow> True | Some m \<Rightarrow> m < ?t
        then reception_view (observe_reception r ?t ?s5) else reception_view s)"
      unfolding o using s5 by simp
    show "sg_stats_ms (observe r s) = (if case sg_stats_ms s of None \<Rightarrow> True | Some m \<Rightarrow> m < ?t
        then Some ?t else sg_stats_ms s)"
      unfolding o using s5 by simp
    show "track_view ?s6 = track_view s" using s5 by simp
    show "track_view (observe r s) = track_view (harvest_track r ?s6)" unfolding o by simp
  qed (use s5 in simp_all)
qed

section \<open>Emergency episodes\<close>

definition emergency_log :: "active_sighting \<Rightarrow> event_type list" where
  "emergency_log s = filter (\<lambda>e. e = EmergencyStart \<or> e = EmergencyEnd) (map pe_type (sg_pending_events s))"

definition episodes :: "nat \<Rightarrow> bool \<Rightarrow> event_type list" where
  "episodes n in_progress =
     concat (replicate n [EmergencyStart, EmergencyEnd]) @ (if in_progress then [EmergencyStart] else [])"

definition episodes_ok :: "active_sighting \<Rightarrow> bool" where
  "episodes_ok s \<longleftrightarrow>
     (\<exists>n. emergency_log s = episodes n (sg_emergency_declared s \<noteq> None)) \<and>
     (sg_had_emergency s \<longleftrightarrow> emergency_log s \<noteq> [])"

lemma episodes_step:
  "episodes n True @ [EmergencyEnd] = episodes (Suc n) False"
  "episodes n False @ [EmergencyStart] = episodes n True"
  by (simp_all add: episodes_def replicate_append_same [symmetric])

lemma episodes_nonempty [simp]: "episodes n True \<noteq> []" "episodes (Suc n) b \<noteq> []"
  by (simp_all add: episodes_def)

lemma emergency_log_keeps [simp]:
  "emergency_log (observe_callsign c t s) = emergency_log s"
  "emergency_log (observe_squawk c t s) = emergency_log s"
  by (simp_all add: emergency_log_def observe_callsign_def observe_squawk_def emit_def Let_def)

lemma observe_emergency_cases:
  obtains s2 where
    "emergency_log s2 = emergency_log s" "sg_emergency_declared s2 = sg_emergency_declared s"
    "sg_had_emergency s2 = sg_had_emergency s" "emergency_now (observe_emergency q d t s) = emergency_now s2"
    "observe_emergency q d t s =
       (case (emergency_now s2, sg_emergency_declared s2) of
          (Some (source, kind), None) \<Rightarrow>
            emit EmergencyStart t [(''squawk'', q), (''source'', Some source), (''kind'', Some kind)]
              (s2\<lparr>sg_emergency_declared := Some (source, kind), sg_had_emergency := True,
                  sg_flush_immediately := True\<rparr>)
        | (None, Some (source, kind)) \<Rightarrow>
            emit EmergencyEnd t [(''squawk'', q), (''source'', Some source), (''kind'', Some kind)]
              (s2\<lparr>sg_emergency_declared := None, sg_flush_immediately := True\<rparr>)
        | (Some (source, kind), Some _) \<Rightarrow> s2\<lparr>sg_emergency_declared := Some (source, kind)\<rparr>
        | (None, None) \<Rightarrow> s2)"
proof -
  let ?s1 = "case q of None \<Rightarrow> s | Some c \<Rightarrow> s\<lparr>sg_emergency_active := c \<in> set EMERGENCY_SQUAWKS\<rparr>"
  let ?s2 = "?s1\<lparr>sg_decoder_emergency := d\<rparr>"
  have now: "emergency_now (observe_emergency q d t s) = emergency_now ?s2"
    by (simp add: emergency_now_def split: option.split)
  show ?thesis
  proof (rule that [of ?s2])
    show "emergency_log ?s2 = emergency_log s" "sg_emergency_declared ?s2 = sg_emergency_declared s"
      "sg_had_emergency ?s2 = sg_had_emergency s"
      by (simp_all add: emergency_log_def split: option.split)
    show "emergency_now (observe_emergency q d t s) = emergency_now ?s2" by (rule now)
  next
    show "observe_emergency q d t s =
       (case (emergency_now ?s2, sg_emergency_declared ?s2) of
          (Some (source, kind), None) \<Rightarrow>
            emit EmergencyStart t [(''squawk'', q), (''source'', Some source), (''kind'', Some kind)]
              (?s2\<lparr>sg_emergency_declared := Some (source, kind), sg_had_emergency := True,
                  sg_flush_immediately := True\<rparr>)
        | (None, Some (source, kind)) \<Rightarrow>
            emit EmergencyEnd t [(''squawk'', q), (''source'', Some source), (''kind'', Some kind)]
              (?s2\<lparr>sg_emergency_declared := None, sg_flush_immediately := True\<rparr>)
        | (Some (source, kind), Some _) \<Rightarrow> ?s2\<lparr>sg_emergency_declared := Some (source, kind)\<rparr>
        | (None, None) \<Rightarrow> ?s2)"
      unfolding observe_emergency_def Let_def emergency_now_def [symmetric]
      by (cases "emergency_now ?s2"; cases "sg_emergency_declared ?s2") (simp_all add: split_beta)
  qed
qed

lemma emergency_log_emergency:
  "emergency_log (observe_emergency q d t s) = emergency_log s @
     (case (emergency_now (observe_emergency q d t s), sg_emergency_declared s) of
        (Some _, None) \<Rightarrow> [EmergencyStart] | (None, Some _) \<Rightarrow> [EmergencyEnd] | _ \<Rightarrow> []) \<and>
   (sg_had_emergency (observe_emergency q d t s) \<longleftrightarrow>
      sg_had_emergency s \<or> emergency_now (observe_emergency q d t s) \<noteq> None \<and> sg_emergency_declared s = None)"
proof -
  have log: "emergency_log (s\<lparr>sg_emergency_declared := x\<rparr>) = emergency_log s"
    "emergency_log (s\<lparr>sg_had_emergency := b\<rparr>) = emergency_log s"
    "emergency_log (s\<lparr>sg_flush_immediately := b\<rparr>) = emergency_log s"
    "emergency_log (emit e t' ps s) = emergency_log s @
       (if e = EmergencyStart \<or> e = EmergencyEnd then [e] else [])" for x b e t' ps s
    by (simp_all add: emergency_log_def emit_def)
  obtain s2 where s2:
    "emergency_log s2 = emergency_log s" "sg_emergency_declared s2 = sg_emergency_declared s"
    "sg_had_emergency s2 = sg_had_emergency s" "emergency_now (observe_emergency q d t s) = emergency_now s2"
    "observe_emergency q d t s =
       (case (emergency_now s2, sg_emergency_declared s2) of
          (Some (source, kind), None) \<Rightarrow>
            emit EmergencyStart t [(''squawk'', q), (''source'', Some source), (''kind'', Some kind)]
              (s2\<lparr>sg_emergency_declared := Some (source, kind), sg_had_emergency := True,
                  sg_flush_immediately := True\<rparr>)
        | (None, Some (source, kind)) \<Rightarrow>
            emit EmergencyEnd t [(''squawk'', q), (''source'', Some source), (''kind'', Some kind)]
              (s2\<lparr>sg_emergency_declared := None, sg_flush_immediately := True\<rparr>)
        | (Some (source, kind), Some _) \<Rightarrow> s2\<lparr>sg_emergency_declared := Some (source, kind)\<rparr>
        | (None, None) \<Rightarrow> s2)"
    by (rule observe_emergency_cases [of s q d t])
  have had: "sg_had_emergency (emit e t' ps s) = sg_had_emergency s" for e t' ps s
    by (simp add: emit_def)
  show ?thesis
    unfolding s2(4) unfolding s2(5) s2(1) [symmetric] s2(2) [symmetric] s2(3) [symmetric]
    by (cases "emergency_now s2"; cases "sg_emergency_declared s2") (auto simp: log had)
qed

lemma episodes_ok_emergency:
  assumes "episodes_ok s"
  shows "episodes_ok (observe_emergency q d t s)"
proof -
  obtain n where n: "emergency_log s = episodes n (sg_emergency_declared s \<noteq> None)"
    using assms by (auto simp: episodes_ok_def)
  have had: "sg_had_emergency s \<longleftrightarrow> emergency_log s \<noteq> []" using assms by (simp add: episodes_ok_def)
  let ?s = "observe_emergency q d t s"
  note log = emergency_log_emergency [of q d t s]
  show ?thesis
  proof (cases "emergency_now ?s"; cases "sg_emergency_declared s")
    fix d1 assume "emergency_now ?s = None" "sg_emergency_declared s = Some d1"
    with n had log show ?thesis
      by (auto simp: episodes_ok_def episodes_step intro!: exI [of _ "Suc n"])
  next
    fix d1 assume "emergency_now ?s = Some d1" "sg_emergency_declared s = None"
    with n had log show ?thesis
      by (auto simp: episodes_ok_def episodes_step intro!: exI [of _ n])
  next
    fix d1 d2 assume "emergency_now ?s = Some d1" "sg_emergency_declared s = Some d2"
    with n had log show ?thesis by (auto simp: episodes_ok_def intro!: exI [of _ n])
  next
    assume "emergency_now ?s = None" "sg_emergency_declared s = None"
    with n had log show ?thesis by (auto simp: episodes_ok_def intro!: exI [of _ n])
  qed
qed

lemma episodes_ok_cong: "context_view s = context_view s' \<Longrightarrow> episodes_ok s = episodes_ok s'"
  by (simp add: episodes_ok_def context_view_def emergency_log_def)

lemma episodes_ok_observe: "episodes_ok s \<Longrightarrow> episodes_ok (observe r s)"
proof -
  assume ok: "episodes_ok s"
  obtain s1 where s1: "context_view s1 = context_view s"
    "context_view (observe r s) = context_view (observe_flight_context r (observed_ms r) s1)"
    by (rule observe_groups [of s r])
  let ?s2 = "observe_squawk (la_squawk r) (observed_ms r) (observe_callsign (la_callsign r) (observed_ms r) s1)"
  have "episodes_ok s1" using ok episodes_ok_cong [OF s1(1)] by simp
  then have "episodes_ok ?s2" by (simp add: episodes_ok_def)
  then show ?thesis
    unfolding episodes_ok_cong [OF s1(2)] observe_flight_context_def by (rule episodes_ok_emergency)
qed

lemma observe_declares:
  "sg_emergency_declared (observe r s) = emergency_now (observe r s)"
proof -
  obtain s1 where s1: "context_view s1 = context_view s"
    "context_view (observe r s) = context_view (observe_flight_context r (observed_ms r) s1)"
    by (rule observe_groups [of s r])
  then have "sg_emergency_declared (observe r s) =
      sg_emergency_declared (observe_flight_context r (observed_ms r) s1)"
    "emergency_now (observe r s) = emergency_now (observe_flight_context r (observed_ms r) s1)"
    by (simp_all add: context_view_def emergency_now_def)
  then show ?thesis by (simp add: observe_flight_context_def)
qed

section \<open>The checkpoint record\<close>

text \<open>
  The rows in the database next to the accumulator. A cycle that commits writes the batch and marks
  it; a cycle that fails writes nothing and marks nothing.
\<close>

type_synonym rows = "(nat \<times> track_sample) list"

datatype sighting_op = Observe live_aircraft | CommitCycle | FailedCycle

fun sighting_step :: "sighting_op \<Rightarrow> active_sighting \<times> rows \<Rightarrow> active_sighting \<times> rows" where
  "sighting_step (Observe r) (s, db) = (observe r s, db)"
| "sighting_step CommitCycle (s, db) = (case take_checkpoint s of
       None \<Rightarrow> (s, db)
     | Some batch \<Rightarrow> (mark_checkpointed batch s, db @ cb_rows batch))"
| "sighting_step FailedCycle (s, db) = (s, db)"

definition record_inv :: "active_sighting \<Rightarrow> rows \<Rightarrow> bool" where
  "record_inv s db \<longleftrightarrow>
     map fst db = [0..<length db] \<and> sg_checkpoint_seq s = length db \<and>
     sg_checkpoint_anchor s = (if db = [] then None else Some (snd (last db))) \<and>
     increasing (map snd db @ sg_pending_points s) \<and>
     (if map snd db @ sg_pending_points s = [] then sg_last_point_ms s = None
      else sg_last_point_ms s = Some (ts_ms (last (map snd db @ sg_pending_points s))))"

lemma increasing_snoc:
  "increasing (xs @ [x]) \<longleftrightarrow> increasing xs \<and> (xs \<noteq> [] \<longrightarrow> ts_ms (last xs) < ts_ms x)"
  by (induction xs rule: rev_induct) (auto simp: increasing_def sorted_wrt_append)

lemma increasing_drop_middle: "increasing (xs @ ys @ zs) \<Longrightarrow> increasing (xs @ zs)"
  by (auto simp: increasing_def sorted_wrt_append)

lemma record_inv_append:
  assumes "record_inv s db" "case sg_last_point_ms s of None \<Rightarrow> True | Some m \<Rightarrow> m < ts_ms p"
  shows "record_inv ((append_pending p s)\<lparr>sg_last_point_ms := Some (ts_ms p)\<rparr>) db"
proof -
  let ?all = "map snd db @ sg_pending_points s"
  have "increasing (?all @ [p])"
    unfolding increasing_snoc using assms by (auto simp: record_inv_def split: if_splits)
  moreover obtain lost where "sg_pending_points s @ [p] = lost @ last_n MAX_PENDING_POINTS (sg_pending_points s @ [p])"
    using suffix_last_n by blast
  ultimately have inc: "increasing (map snd db @ last_n MAX_PENDING_POINTS (sg_pending_points s @ [p]))"
    by (metis append.assoc increasing_drop_middle)
  have "last_n MAX_PENDING_POINTS (sg_pending_points s @ [p]) =
      last_n (MAX_PENDING_POINTS - 1) (sg_pending_points s) @ [p]"
    by (rule last_n_snoc) (simp add: MAX_PENDING_POINTS_def)
  then show ?thesis
    using assms(1) inc
    by (simp add: record_inv_def append_pending_def deque_append_def)
qed

lemma record_inv_harvest: "record_inv s db \<Longrightarrow> record_inv (harvest_loop ps s) db"
proof (induction ps s rule: harvest_loop.induct)
  case (2 point points s)
  let ?s1 = "s\<lparr>sg_last_point_at := Some (tp_timestamp point)\<rparr>"
  let ?p = "from_track_point point"
  have s1: "record_inv ?s1 db" using "2.prems" by (simp add: record_inv_def)
  show ?case
  proof (cases "case sg_last_point_ms ?s1 of None \<Rightarrow> False | Some m \<Rightarrow> ts_ms ?p \<le> m")
    case True
    from "2.IH"(1) [OF refl refl True s1] True show ?thesis by (simp add: Let_def)
  next
    case False
    have "record_inv ((append_pending ?p ?s1)\<lparr>sg_last_point_ms := Some (ts_ms ?p)\<rparr>) db"
      by (rule record_inv_append [OF s1]) (use False in \<open>auto split: option.splits\<close>)
    from "2.IH"(2) [OF refl refl False this] False show ?thesis by (simp add: Let_def)
  qed
qed simp

lemma record_inv_cong: "track_view s = track_view s' \<Longrightarrow> record_inv s db = record_inv s' db"
  by (simp add: record_inv_def track_view_def)

lemma record_inv_observe: "record_inv s db \<Longrightarrow> record_inv (observe r s) db"
proof -
  assume inv: "record_inv s db"
  obtain s6 where s6: "track_view s6 = track_view s"
    "track_view (observe r s) = track_view (harvest_track r s6)"
    by (rule observe_groups [of s r])
  from inv record_inv_cong [OF s6(1)] have "record_inv s6 db" by simp
  then show ?thesis
    unfolding record_inv_cong [OF s6(2)] harvest_track_def by (rule record_inv_harvest)
qed

lemma numbered_rows:
  "map fst (map (\<lambda>(i, x). (n + i, x)) (List.enumerate k xs)) = [n + k..<n + k + length xs]"
  "map snd (map (\<lambda>(i, x). (n + i, x)) (List.enumerate k xs)) = xs"
  by (induction xs arbitrary: k) (simp_all add: upt_rec)

lemma take_checkpoint_rows:
  assumes "take_checkpoint s = Some b"
  shows "sg_pending_points s \<noteq> []" "cb_consumed b = length (sg_pending_points s)"
    "map fst (cb_rows b) = [sg_checkpoint_seq s..<sg_checkpoint_seq s + length (cb_rows b)]"
    "subseq (map snd (cb_rows b)) (sg_pending_points s)" "cb_rows b \<noteq> []"
    "batch_newest b = last (sg_pending_points s)"
proof -
  let ?kept = "thin_for_checkpoint (sg_pending_points s) (sg_checkpoint_anchor s)"
  have b: "sg_pending_points s \<noteq> []" "cb_consumed b = length (sg_pending_points s)"
    "cb_rows b = map (\<lambda>(i, x). (sg_checkpoint_seq s + i, x)) (List.enumerate 0 ?kept)"
    using assms by (auto simp: take_checkpoint_def Let_def split: if_splits)
  have snd: "map snd (cb_rows b) = ?kept" unfolding b(3) by (rule numbered_rows)
  have kept: "?kept \<noteq> []" "last ?kept = last (sg_pending_points s)"
    using thin_loop_final [OF b(1)] by (simp_all add: thin_for_checkpoint_def)
  show "sg_pending_points s \<noteq> []" "cb_consumed b = length (sg_pending_points s)" by (rule b)+
  show "map fst (cb_rows b) = [sg_checkpoint_seq s..<sg_checkpoint_seq s + length (cb_rows b)]"
    using numbered_rows(1) [of "sg_checkpoint_seq s" 0 ?kept] unfolding b(3) by simp
  show "subseq (map snd (cb_rows b)) (sg_pending_points s)"
    unfolding snd thin_for_checkpoint_def by (rule thin_loop_subseq)
  show ne: "cb_rows b \<noteq> []" using snd kept(1) by auto
  then show "batch_newest b = last (sg_pending_points s)"
    using snd kept(2) by (simp add: batch_newest_def flip: last_map)
qed

lemma record_inv_commit:
  assumes "record_inv s db" "take_checkpoint s = Some b"
  shows "record_inv (mark_checkpointed b s) (db @ cb_rows b)"
proof -
  note rows = take_checkpoint_rows [OF assms(2)]
  have "subseq (map snd db @ map snd (cb_rows b)) (map snd db @ sg_pending_points s)"
    using rows(4) by (intro list_emb_append_mono) simp_all
  then have inc: "increasing (map snd db @ map snd (cb_rows b))"
    using increasing_subseq assms(1) by (auto simp: record_inv_def)
  have "snd (last (cb_rows b)) = last (sg_pending_points s)"
    using rows(6) by (simp add: batch_newest_def)
  then show ?thesis
    using assms(1) rows inc
    by (simp add: record_inv_def mark_checkpointed_def last_map upt_add_eq_append [of 0, symmetric])
qed

lemma record_inv_run: "record_inv s db \<Longrightarrow> fold sighting_step ops (s, db) = (s', db') \<Longrightarrow> record_inv s' db'"
proof (induction ops arbitrary: s db)
  case (Cons op ops)
  obtain t tb where t: "sighting_step op (s, db) = (t, tb)" by fastforce
  then have "record_inv t tb"
    using Cons.prems(1)
    by (cases op) (auto simp: record_inv_observe record_inv_commit split: option.splits)
  from Cons.IH [OF this] Cons.prems(2) t show ?case by simp
qed simp

lemma record_inv_new: "record_inv (new_sighting icao a b) []"
  by (simp add: record_inv_def new_sighting_def increasing_def)

section \<open>Alert severities\<close>

fun alert_run :: "(string \<times> string \<times> int) list \<Rightarrow> active_sighting \<Rightarrow> active_sighting result" where
  "alert_run [] s = Inr s"
| "alert_run ((severity, reason, at_ms) # alerts) s =
     bindE (apply_alert_severity severity reason at_ms s) (\<lambda>(s', changed). alert_run alerts s')"

definition rank_of :: "string \<Rightarrow> nat" where
  "rank_of severity = projr (alert_severity_rank severity)"

lemma rank_of_ok: "severity_ok s \<Longrightarrow> alert_severity_rank s = Inr (rank_of s)"
  by (auto simp: alert_severity_rank_ok rank_of_def)

lemma rank_of_bound: "severity_ok s \<Longrightarrow> rank_of s \<le> 3"
  by (auto simp: severity_ok_def rank_of_def alert_severity_rank_def ALERT_SEVERITIES_def)

definition severity_inv :: "event_type list \<Rightarrow> string list \<Rightarrow> active_sighting \<Rightarrow> bool" where
  "severity_inv before seen s \<longleftrightarrow> (case sg_max_alert_severity s of
       None \<Rightarrow> seen = [] \<and> map pe_type (sg_pending_events s) = before
     | Some m \<Rightarrow> severity_ok m \<and> m \<in> set seen \<and> (\<forall>x \<in> set seen. rank_of x \<le> rank_of m) \<and>
         (\<exists>k \<le> rank_of m. map pe_type (sg_pending_events s) =
            before @ AlertMatched # replicate k AlertSeverityUpgraded))"

lemma severity_inv_step:
  assumes "severity_inv before seen s" "severity_ok severity"
  shows "\<exists>s' c. apply_alert_severity severity reason t s = Inr (s', c) \<and>
     severity_inv before (seen @ [severity]) s'"
proof (cases "sg_max_alert_severity s")
  case None
  with assms show ?thesis
    by (auto simp: apply_alert_severity_def outranks_severity_def rank_of_ok severity_inv_def touch_def
        emit_def Let_def)
next
  case (Some m)
  with assms(1) obtain k where m: "severity_ok m" "m \<in> set seen" "\<forall>x \<in> set seen. rank_of x \<le> rank_of m"
    "k \<le> rank_of m" "map pe_type (sg_pending_events s) = before @ AlertMatched # replicate k AlertSeverityUpgraded"
    by (auto simp: severity_inv_def)
  show ?thesis
  proof (cases "rank_of m < rank_of severity")
    case True
    have "replicate k AlertSeverityUpgraded @ [AlertSeverityUpgraded] =
        replicate (Suc k) AlertSeverityUpgraded" by (simp add: replicate_append_same)
    with True m Some assms(2) show ?thesis
      by (auto simp: apply_alert_severity_def outranks_severity_def rank_of_ok severity_inv_def
          touch_def emit_def Let_def intro!: exI [of _ "Suc k"] dest: less_le_trans)
  next
    case False
    with m Some assms(2) show ?thesis
      by (auto simp: apply_alert_severity_def outranks_severity_def rank_of_ok severity_inv_def)
  qed
qed

lemma severity_inv_run:
  "severity_inv before seen s \<Longrightarrow> \<forall>(x, _) \<in> set alerts. severity_ok x \<Longrightarrow>
     \<exists>s'. alert_run alerts s = Inr s' \<and> severity_inv before (seen @ map fst alerts) s'"
proof (induction alerts arbitrary: s seen)
  case (Cons a alerts)
  obtain severity reason t where a: "a = (severity, reason, t)" by (cases a) auto
  from severity_inv_step [OF Cons.prems(1), of severity reason t] Cons.prems(2) obtain s1 c where
    s1: "apply_alert_severity severity reason t s = Inr (s1, c)"
    "severity_inv before (seen @ [severity]) s1" by (auto simp: a)
  from Cons.IH [OF s1(2)] Cons.prems(2) show ?case by (simp add: a s1(1))
qed simp

section \<open>Reception statistics\<close>

text \<open>The observations whose statistics are counted: each later than all counted before it.\<close>

fun counted_from :: "int option \<Rightarrow> live_aircraft list \<Rightarrow> live_aircraft list" where
  "counted_from m [] = []"
| "counted_from m (r # rs) =
     (if case m of None \<Rightarrow> True | Some t \<Rightarrow> t < observed_ms r
      then r # counted_from (Some (observed_ms r)) rs else counted_from m rs)"

definition reported :: "('r \<Rightarrow> 'a option) \<Rightarrow> 'r list \<Rightarrow> 'a list" where
  "reported f rs = List.map_filter f rs"

lemma reported_simps [simp]:
  "reported f [] = []"
  "reported f (r # rs) = (case f r of None \<Rightarrow> [] | Some v \<Rightarrow> [v]) @ reported f rs"
  "reported f (xs @ ys) = reported f xs @ reported f ys"
  by (simp_all add: reported_def List.map_filter_simps split: option.split)
     (simp_all add: List.map_filter_def)

definition signal_of :: "active_sighting \<Rightarrow> real list \<Rightarrow> bool" where
  "signal_of s v \<longleftrightarrow>
     sg_rssi_samples s = length v \<and> sg_rssi_total_db s = sum_list v \<and>
     sg_rssi_peak_db s = (if v = [] then None else Some (Max (set v))) \<and>
     sg_rssi_min_db s = (if v = [] then None else Some (Min (set v)))"

fun message_total :: "int option \<Rightarrow> int list \<Rightarrow> int" where
  "message_total seen [] = 0"
| "message_total seen (m # ms) =
     max 0 (case seen of None \<Rightarrow> m | Some n \<Rightarrow> if m < n then m else m - n) + message_total (Some m) ms"

lemma message_total_snoc:
  "message_total seen (ms @ [m]) = message_total seen ms +
     max 0 (case (if ms = [] then seen else Some (last ms)) of None \<Rightarrow> m | Some n \<Rightarrow> if m < n then m else m - n)"
  by (induction seen ms rule: message_total.induct) simp_all

lemma message_total_monotone:
  "sorted ms \<Longrightarrow> \<forall>m \<in> set ms. 0 \<le> m \<Longrightarrow> message_total None ms = (if ms = [] then 0 else last ms)"
proof (induction ms rule: rev_induct)
  case (snoc m ms)
  then have "ms \<noteq> [] \<Longrightarrow> \<not> m < last ms" by (auto simp: sorted_append not_less)
  with snoc show ?case by (cases "ms = []") (auto simp: message_total_snoc sorted_append)
qed simp

definition messages_of :: "active_sighting \<Rightarrow> int list \<Rightarrow> bool" where
  "messages_of s ms \<longleftrightarrow>
     sg_msg_count s = message_total None ms \<and>
     sg_messages_seen s = (if ms = [] then None else Some (last ms))"

lemma signal_step:
  "signal_of s v \<Longrightarrow> signal_of (observe_reception r t s) (v @ reported la_rssi_db [r])"
  by (cases "la_rssi_db r"; cases "v = []")
     (auto simp: signal_of_def observe_reception_def Let_def max.commute min.commute
      split: option.split)

lemma messages_step:
  "messages_of s ms \<Longrightarrow> messages_of (observe_reception r t s) (ms @ reported la_messages [r])"
  by (cases "la_messages r")
     (auto simp: messages_of_def observe_reception_def Let_def message_total_snoc split: option.split)

lemma reception_cong:
  "reception_view s = reception_view s' \<Longrightarrow>
     signal_of s v = signal_of s' v \<and> messages_of s ms = messages_of s' ms"
  by (simp add: reception_view_def signal_of_def messages_of_def)

lemma reception_observe:
  assumes "signal_of s v" "messages_of s ms"
  shows "if case sg_stats_ms s of None \<Rightarrow> True | Some m \<Rightarrow> m < observed_ms r
    then signal_of (observe r s) (v @ reported la_rssi_db [r]) \<and>
      messages_of (observe r s) (ms @ reported la_messages [r]) \<and> sg_stats_ms (observe r s) = Some (observed_ms r)
    else signal_of (observe r s) v \<and> messages_of (observe r s) ms \<and> sg_stats_ms (observe r s) = sg_stats_ms s"
proof -
  let ?c = "case sg_stats_ms s of None \<Rightarrow> True | Some m \<Rightarrow> m < observed_ms r"
  obtain s5 where s5: "reception_view s5 = reception_view s" "sg_stats_ms s5 = sg_stats_ms s"
    "reception_view (observe r s) =
       (if ?c then reception_view (observe_reception r (observed_ms r) s5) else reception_view s)"
    "sg_stats_ms (observe r s) = (if ?c then Some (observed_ms r) else sg_stats_ms s)"
    by (rule observe_groups [of s r])
  have "signal_of s5 v" "messages_of s5 ms" using assms reception_cong [OF s5(1)] by auto
  from signal_step [OF this(1)] messages_step [OF this(2)] show ?thesis
    using s5(3,4) assms reception_cong by (cases ?c) (metis (full_types))+
qed

lemma reception_run:
  "signal_of s v \<Longrightarrow> messages_of s ms \<Longrightarrow>
     signal_of (observe_all rs s) (v @ reported la_rssi_db (counted_from (sg_stats_ms s) rs)) \<and>
     messages_of (observe_all rs s) (ms @ reported la_messages (counted_from (sg_stats_ms s) rs))"
proof (induction rs arbitrary: s v ms)
  case (Cons r rs)
  note step = reception_observe [OF Cons.prems, of r]
  show ?case
  proof (cases "case sg_stats_ms s of None \<Rightarrow> True | Some m \<Rightarrow> m < observed_ms r")
    case True
    with step have "signal_of (observe r s) (v @ reported la_rssi_db [r])"
      "messages_of (observe r s) (ms @ reported la_messages [r])"
      "sg_stats_ms (observe r s) = Some (observed_ms r)" by (simp_all only: if_True)
    with Cons.IH [OF this(1,2)] True show ?thesis by simp
  next
    case False
    with step have "signal_of (observe r s) v" "messages_of (observe r s) ms"
      "sg_stats_ms (observe r s) = sg_stats_ms s" by (simp_all only: if_False)
    with Cons.IH [OF this(1,2)] False show ?thesis by simp
  qed
qed simp

section \<open>Properties\<close>

text \<open>
  Replaying a record that was just folded in has no effect at all: no value moves, no
  statistic counts twice, no event is queued and no track point is taken again.
\<close>

theorem observe_idempotent:
  assumes "track_inv (la_track r)"
  shows "observe r (observe r s) = observe r s"
  by (rule settled_id [OF observe_settles [OF assms]])

definition heard_at :: "int \<Rightarrow> string \<Rightarrow> live_aircraft" where
  "heard_at t callsign =
     \<lparr>la_icao = ''400abc'', la_first_seen = 0, la_last_seen = t, la_first_seen_monotonic = 0,
      la_last_seen_monotonic = 0, la_state = Live,
      la_track = \<lparr>ct_capacity = 10, ct_points = [], ct_dropped = 0\<rparr>, la_position = None,
      la_position_source = SrcNone, la_position_seen = None, la_position_seen_monotonic = None,
      la_callsign = Some callsign, la_callsign_seen = Some t, la_squawk = None, la_squawk_seen = None,
      la_altitude_ft = None, la_altitude_geometric_ft = None, la_ground_speed_kt = None,
      la_track_deg = None, la_vertical_rate_fpm = None, la_on_ground = None,
      la_ground_state = UnknownGround, la_emitter_category = None, la_selected_altitude_ft = None,
      la_decoder_emergency = None, la_rssi_db = None, la_messages = None, la_seen_s = None,
      la_seen_pos_s = None, la_distance_nm = None, la_bearing_deg = None, la_observations = 1,
      la_provenance = []\<rparr>"

text \<open>
  A replay out of order is not without effect, although the module says that replaying
  cannot move a value backwards or emit an event again: observing callsign A, then B, then the
  first record again sets the callsign back and queues a second callsign change.
\<close>

theorem stale_replay_moves_callsign_back:
  "let s = observe_all [heard_at 1000000 ''A'', heard_at 2000000 ''B'', heard_at 1000000 ''A'']
       (new_sighting ''400abc'' 0 0)
   in sg_callsign_last s = Some ''A'' \<and>
      filter (\<lambda>e. e = CallsignChange) (map pe_type (sg_pending_events s)) =
        [CallsignChange, CallsignChange]"
  by code_simp

text \<open>
  The extremes of a sighting are the true extremes of everything observed: the least
  and greatest distance and the lowest and highest whole-feet altitude among the records folded in,
  each with the instant of the first record that reached it.
\<close>

theorem extremes_are_exact:
  "let s = observe_all rs (new_sighting icao a b)
   in first_best (<) la_distance_nm observed_ms rs (sg_closest_approach_nm s, sg_closest_approach_ms s) \<and>
      first_best (>) la_distance_nm observed_ms rs (sg_max_range_nm s, sg_max_range_ms s) \<and>
      first_best (<) whole_feet observed_ms rs (sg_lowest_alt_ft s, sg_lowest_alt_ms s) \<and>
      first_best (>) whole_feet observed_ms rs (sg_highest_alt_ft s, sg_highest_alt_ms s)"
proof -
  let ?s = "observe_all rs (new_sighting icao a b)"
  have "nearest_of (new_sighting icao a b) = (None, None)" "farthest_of (new_sighting icao a b) = (None, None)"
    "lowest_of (new_sighting icao a b) = (None, None)" "highest_of (new_sighting icao a b) = (None, None)"
    by (simp_all add: extreme_pairs new_sighting_def)
  then have "first_best (<) la_distance_nm observed_ms rs (nearest_of ?s)"
    "first_best (>) la_distance_nm observed_ms rs (farthest_of ?s)"
    "first_best (<) whole_feet observed_ms rs (lowest_of ?s)"
    "first_best (>) whole_feet observed_ms rs (highest_of ?s)"
    unfolding observe_all_extremes
    by (simp_all add: nearest.first_best_fold farthest.first_best_fold lowest.first_best_fold
        highest.first_best_fold)
  then show ?thesis by (simp add: extreme_pairs Let_def)
qed

text \<open>
  Reception statistics count every observation once, whatever is replayed: the mean,
  peak and minimum signal and the message count are those of the observations that were each later
  than all before, and a decoder counter that never goes back is simply the final count.
\<close>

theorem reception_statistics_exact:
  "let s = observe_all rs (new_sighting icao a b); cs = counted_from None rs;
       signal = reported la_rssi_db cs; counter = reported la_messages cs
   in rssi_avg_db s = (if signal = [] then None else Some (sum_list signal / of_nat (length signal))) \<and>
      sg_rssi_peak_db s = (if signal = [] then None else Some (Max (set signal))) \<and>
      sg_rssi_min_db s = (if signal = [] then None else Some (Min (set signal))) \<and>
      (sorted counter \<and> (\<forall>m \<in> set counter. 0 \<le> m) \<longrightarrow>
         sg_msg_count s = (if counter = [] then 0 else last counter))"
proof -
  let ?new = "new_sighting icao a b"
  have new: "signal_of ?new []" "messages_of ?new []" "sg_stats_ms ?new = None"
    by (simp_all add: signal_of_def messages_of_def new_sighting_def)
  from reception_run [OF new(1,2), of rs] show ?thesis
    by (simp add: new(3) Let_def signal_of_def messages_of_def rssi_avg_db_def message_total_monotone)
qed

text \<open>
  Emergencies are recorded as whole episodes: over any observations the emergency
  events alternate, starting with a start, an episode is open exactly while the squawk or the
  decoder declares an emergency, and the flag of the sighting is set as soon as one began.
\<close>

theorem emergency_episodes:
  "let s = observe_all (rs @ [r]) (new_sighting icao a b)
   in (\<exists>n. emergency_log s = episodes n (emergency_now s \<noteq> None)) \<and>
      (sg_had_emergency s \<longleftrightarrow> EmergencyStart \<in> set (emergency_log s))"
proof -
  have ok: "episodes_ok (observe_all qs (new_sighting icao a b))" for qs
  proof (induction qs rule: rev_induct)
    case Nil
    show ?case
      by (auto simp: episodes_ok_def new_sighting_def emergency_log_def episodes_def
          intro!: exI [of _ 0])
  qed (simp add: episodes_ok_observe)
  let ?s = "observe_all (rs @ [r]) (new_sighting icao a b)"
  have d: "sg_emergency_declared ?s = emergency_now ?s" by (simp add: observe_declares)
  from ok [of "rs @ [r]"] obtain n where n: "emergency_log ?s = episodes n (emergency_now ?s \<noteq> None)"
    "sg_had_emergency ?s \<longleftrightarrow> emergency_log ?s \<noteq> []"
    unfolding episodes_ok_def d by blast
  moreover have "EmergencyStart \<in> set (episodes n p) \<longleftrightarrow> episodes n p \<noteq> []" for p
    by (auto simp: episodes_def)
  ultimately show ?thesis unfolding Let_def by metis
qed

text \<open>
  Property C24. The checkpoint record survives any mix of observations, commits and failed cycles:
  the rows written are numbered 0, 1, 2, ... without gap, their timestamps strictly increase and are
  older than every point still pending, the next number is the number of rows, and a commit leaves
  nothing pending and ends the record at the newest point taken.
\<close>

theorem checkpoint_record:
  "let (s, db) = fold sighting_step ops (new_sighting icao a b, [])
   in map fst db = [0..<length db] \<and> sg_checkpoint_seq s = length db \<and>
      increasing (map snd db @ sg_pending_points s) \<and>
      (case sighting_step CommitCycle (s, db) of (s', db') \<Rightarrow>
         sg_pending_points s' = [] \<and>
         sg_last_point_ms s' = (if db' = [] then None else Some (ts_ms (snd (last db')))))"
proof -
  obtain s db where run: "fold sighting_step ops (new_sighting icao a b, []) = (s, db)" by fastforce
  from record_inv_run [OF record_inv_new run] have inv: "record_inv s db" .
  obtain s' db' where commit: "sighting_step CommitCycle (s, db) = (s', db')" by fastforce
  have inv': "record_inv s' db'"
    using record_inv_run [of s db "[CommitCycle]" s' db'] inv commit by simp
  have "sg_pending_points s' = []"
  proof (cases "take_checkpoint s")
    case None
    then show ?thesis using commit by (auto simp: take_checkpoint_def Let_def split: if_splits)
  next
    case (Some batch)
    from take_checkpoint_rows(2) [OF Some] show ?thesis
      using commit Some by (auto simp: mark_checkpointed_def)
  qed
  with inv inv' run commit show ?thesis
    by (simp add: record_inv_def last_map split: if_splits)
qed

text \<open>
  The alert severity of a sighting is the highest it reached: after any sequence of
  matches, in any order and with repeats, it is one of them and none outranks it, and the timeline
  holds one match event followed by at most three upgrades.
\<close>

theorem alert_severity_is_maximum:
  assumes "\<forall>(x, _) \<in> set alerts. severity_ok x" "alerts \<noteq> []"
  shows "\<exists>s m k. alert_run alerts (new_sighting icao a b) = Inr s \<and> sg_max_alert_severity s = Some m \<and>
     m \<in> set (map fst alerts) \<and> (\<forall>x \<in> set (map fst alerts). rank_of x \<le> rank_of m) \<and> k \<le> 3 \<and>
     map pe_type (sg_pending_events s) = AlertMatched # replicate k AlertSeverityUpgraded"
proof -
  have "severity_inv [] [] (new_sighting icao a b)" by (simp add: severity_inv_def new_sighting_def)
  from severity_inv_run [OF this assms(1)] obtain s where
    s: "alert_run alerts (new_sighting icao a b) = Inr s" "severity_inv [] (map fst alerts) s" by auto
  then obtain m where m: "sg_max_alert_severity s = Some m"
    using assms(2) by (cases "sg_max_alert_severity s") (auto simp: severity_inv_def)
  with s(2) obtain k where "severity_ok m" "m \<in> set (map fst alerts)"
    "\<forall>x \<in> set (map fst alerts). rank_of x \<le> rank_of m" "k \<le> rank_of m"
    "map pe_type (sg_pending_events s) = AlertMatched # replicate k AlertSeverityUpgraded"
    by (auto simp: severity_inv_def)
  moreover from this have "k \<le> 3" using rank_of_bound [of m] by simp
  ultimately show ?thesis
    using s(1) m by (intro exI [of _ s] exI [of _ m] exI [of _ k]) simp
qed

section \<open>Witnesses\<close>

theorem observe_idempotent_witness:
  "observe (heard_at 5 ''A'') (observe (heard_at 5 ''A'') (new_sighting ''400abc'' 0 0)) =
     observe (heard_at 5 ''A'') (new_sighting ''400abc'' 0 0)"
  by (rule observe_idempotent) (simp add: heard_at_def track_inv_def)

definition counted_reports :: "live_aircraft list" where
  "counted_reports = [(heard_at 1000000 ''A'')\<lparr>la_messages := Some 7\<rparr>,
     (heard_at 2000000 ''A'')\<lparr>la_messages := Some 9\<rparr>]"

theorem reception_statistics_exact_witness:
  "sg_msg_count (observe_all counted_reports (new_sighting ''400abc'' 0 0)) = 9"
proof -
  have "reported la_messages (counted_from None counted_reports) = [7, 9]" by code_simp
  with reception_statistics_exact [of counted_reports "''400abc''" 0 0] show ?thesis
    by (simp add: Let_def)
qed

theorem alert_severity_is_maximum_witness:
  "\<exists>s. alert_run [(''high'', ''watchlist'', 1), (''info'', ''first seen'', 2)]
      (new_sighting ''400abc'' 0 0) = Inr s"
  using alert_severity_is_maximum [of "[(''high'', ''watchlist'', 1), (''info'', ''first seen'', 2)]"
      "''400abc''" 0 0]
  by (auto simp: severity_ok_def ALERT_SEVERITIES_def simp del: alert_run.simps)

end
