(* ===== verification/TrackCodec.thy ===== *)
theory TrackCodec
  imports SightingTracks SightingVocab "HOL-Library.Word"
begin

text \<open>
  \<^verbatim>\<open>sightings/track_codec.py\<close>: the packed track, version 1. A byte is an \<open>8 word\<close>. Of
  Python's \<^verbatim>\<open>struct\<close> the code uses the little-endian formats of fixed width, each of which
  raises \<^verbatim>\<open>struct.error\<close> on a value outside its range; each is a provider of the \<open>field_codec\<close>
  interface below.
\<close>

type_synonym byte = "8 word"

section \<open>Little-endian integers\<close>

fun le_bytes :: "nat \<Rightarrow> int \<Rightarrow> byte list" where
  "le_bytes 0 v = []"
| "le_bytes (Suc n) v = word_of_int v # le_bytes n (v div 256)"

fun le_value :: "byte list \<Rightarrow> int" where
  "le_value [] = 0"
| "le_value (b # bs) = uint b + 256 * le_value bs"

definition pack_unsigned :: "nat \<Rightarrow> int \<Rightarrow> byte list result" where
  "pack_unsigned width v =
     (if 0 \<le> v \<and> v < 256 ^ width then Inr (le_bytes width v) else Inl StructError)"

definition pack_signed :: "nat \<Rightarrow> int \<Rightarrow> byte list result" where
  "pack_signed width v =
     (if - (256 ^ width) \<le> 2 * v \<and> 2 * v < 256 ^ width then Inr (le_bytes width v) else Inl StructError)"

definition unpack_unsigned :: "byte list \<Rightarrow> int" where
  "unpack_unsigned bs = le_value bs"

definition unpack_signed :: "nat \<Rightarrow> byte list \<Rightarrow> int" where
  "unpack_signed width bs =
     (if 2 * le_value bs < 256 ^ width then le_value bs else le_value bs - 256 ^ width)"

lemma length_le_bytes [simp]: "length (le_bytes n v) = n"
  by (induction n arbitrary: v) simp_all

lemma le_value_bytes: "le_value (le_bytes n v) = v mod 256 ^ n"
proof (induction n arbitrary: v)
  case (Suc n)
  have "uint (word_of_int v :: byte) = v mod 256" by (simp add: uint_word_of_int)
  moreover have "v mod (256 * 256 ^ n) = 256 * (v div 256 mod 256 ^ n) + v mod 256"
    by (rule zmod_zmult2_eq) simp
  ultimately show ?case by (simp add: Suc)
qed simp

lemma le_value_bounds: "0 \<le> le_value bs \<and> le_value bs < 256 ^ length bs"
proof (induction bs)
  case (Cons b bs)
  have "uint b < 256" using uint_lt2p [of b] by simp
  moreover have "0 \<le> uint b" by simp
  ultimately show ?case using Cons by (simp add: algebra_simps)
qed simp

section \<open>Fixed-width fields\<close>

text \<open>What the codec relies on for each column of a record.\<close>

locale field_codec =
  fixes pack :: "int \<Rightarrow> byte list result" and unpack :: "byte list \<Rightarrow> int" and width :: nat
    and fits :: "int \<Rightarrow> bool"
  assumes pack_fits: "fits v \<Longrightarrow> \<exists>bs. pack v = Inr bs"
    and pack_rejects: "\<not> fits v \<Longrightarrow> pack v = Inl StructError"
    and pack_width: "pack v = Inr bs \<Longrightarrow> length bs = width"
    and unpack_pack: "pack v = Inr bs \<Longrightarrow> unpack bs = v"
begin

lemma pack_Inr_fits: "pack v = Inr bs \<Longrightarrow> fits v"
  using pack_rejects by fastforce

lemma pack_eq: "fits v \<longleftrightarrow> (\<exists>bs. pack v = Inr bs \<and> length bs = width \<and> unpack bs = v)"
  using pack_fits pack_Inr_fits pack_width unpack_pack by blast

lemma pack_prefix:
  "pack v = Inr bs \<Longrightarrow> unpack (take width (bs @ rest)) = v \<and> drop width (bs @ rest) = rest"
  by (simp add: pack_width [symmetric] unpack_pack)

lemma pack_inj: "pack v = Inr bs \<Longrightarrow> pack w = Inr bs \<Longrightarrow> v = w"
  using unpack_pack by blast

end

definition int32_ok :: "int \<Rightarrow> bool" where "int32_ok v \<longleftrightarrow> - (2 ^ 31) \<le> v \<and> v < 2 ^ 31"
definition uint32_ok :: "int \<Rightarrow> bool" where "uint32_ok v \<longleftrightarrow> 0 \<le> v \<and> v < 2 ^ 32"
definition uint16_ok :: "int \<Rightarrow> bool" where "uint16_ok v \<longleftrightarrow> 0 \<le> v \<and> v < 2 ^ 16"
definition uint8_ok :: "int \<Rightarrow> bool" where "uint8_ok v \<longleftrightarrow> 0 \<le> v \<and> v < 2 ^ 8"

lemma unpack_signed_bytes:
  assumes "- (256 ^ n) \<le> 2 * v" "2 * v < (256 :: int) ^ n"
  shows "unpack_signed n (le_bytes n v) = v"
proof (cases "0 \<le> v")
  case True
  then have "v mod 256 ^ n = v" using assms by (intro mod_pos_pos_trivial) auto
  then show ?thesis using assms by (simp add: unpack_signed_def le_value_bytes)
next
  case False
  have "v mod 256 ^ n = (v + 256 ^ n) mod 256 ^ n" by simp
  also have "\<dots> = v + 256 ^ n" using assms False by (intro mod_pos_pos_trivial) auto
  finally have "v mod 256 ^ n = v + 256 ^ n" .
  then show ?thesis using assms False by (simp add: unpack_signed_def le_value_bytes)
qed

interpretation i32: field_codec "pack_signed 4" "unpack_signed 4" 4 int32_ok
  by unfold_locales (auto simp: pack_signed_def int32_ok_def unpack_signed_bytes split: if_splits)

interpretation u32: field_codec "pack_unsigned 4" unpack_unsigned 4 uint32_ok
  by unfold_locales
    (auto simp: pack_unsigned_def uint32_ok_def unpack_unsigned_def le_value_bytes split: if_splits)

interpretation u16: field_codec "pack_unsigned 2" unpack_unsigned 2 uint16_ok
  by unfold_locales
    (auto simp: pack_unsigned_def uint16_ok_def unpack_unsigned_def le_value_bytes split: if_splits)

interpretation u8: field_codec "pack_unsigned 1" unpack_unsigned 1 uint8_ok
  by unfold_locales
    (auto simp: pack_unsigned_def uint8_ok_def unpack_unsigned_def uint_word_of_int split: if_splits)

section \<open>Packing and unpacking\<close>

definition ENCODING_VERSION :: int where "ENCODING_VERSION = 1"
definition SUPPORTED_VERSIONS :: "int list" where "SUPPORTED_VERSIONS = [ENCODING_VERSION]"
definition HEADER_SIZE :: nat where "HEADER_SIZE = 5"
definition POINT_SIZE :: nat where "POINT_SIZE = 21"
definition COORD_SCALE :: real where "COORD_SCALE = 100000"
definition SPEED_SCALE :: real where "SPEED_SCALE = 10"
definition TRACK_SCALE :: real where "TRACK_SCALE = 100"
definition NO_ALTITUDE :: int where "NO_ALTITUDE = - (2 ^ 31)"
definition NO_VALUE_16 :: int where "NO_VALUE_16 = 65535"
definition MAX_UINT16 :: int where "MAX_UINT16 = 65534"
definition MIN_INT32 :: int where "MIN_INT32 = - (2 ^ 31) + 1"
definition MAX_INT32 :: int where "MAX_INT32 = 2 ^ 31 - 1"

lemmas codec_consts = ENCODING_VERSION_def SUPPORTED_VERSIONS_def HEADER_SIZE_def POINT_SIZE_def
  COORD_SCALE_def SPEED_SCALE_def TRACK_SCALE_def NO_ALTITUDE_def NO_VALUE_16_def MAX_UINT16_def
  MIN_INT32_def MAX_INT32_def

record packed_track =
  pt_encoding_version :: int
  pt_point_count :: int
  pt_started_ms :: int
  pt_points_blob :: "byte list"

definition clamp :: "int \<Rightarrow> int \<Rightarrow> int \<Rightarrow> int" where
  "clamp value low high = max low (min high value)"

definition encode_scaled :: "real option \<Rightarrow> real \<Rightarrow> int" where
  "encode_scaled value scale = (case value of
       None \<Rightarrow> NO_VALUE_16
     | Some v \<Rightarrow> clamp (py_round (v * scale)) 0 MAX_UINT16)"

definition decode_scaled :: "int \<Rightarrow> real \<Rightarrow> real option" where
  "decode_scaled stored scale = (if stored = NO_VALUE_16 then None else Some (of_int stored / scale))"

definition decode_source :: "int \<Rightarrow> position_source result" where
  "decode_source code = (case position_source_name (nat code) of
       Inl _ \<Rightarrow> Inl UnsupportedTrackEncoding
     | Inr source \<Rightarrow> Inr source)"

type_synonym point = "int \<times> int \<times> int \<times> int \<times> int \<times> int \<times> int"

fun pack_point :: "point \<Rightarrow> byte list result" where
  "pack_point (dt, dlat, dlon, alt, gs, trk, src) =
     bindE (pack_signed 4 dt) (\<lambda>b1. bindE (pack_signed 4 dlat) (\<lambda>b2.
     bindE (pack_signed 4 dlon) (\<lambda>b3. bindE (pack_signed 4 alt) (\<lambda>b4.
     bindE (pack_unsigned 2 gs) (\<lambda>b5. bindE (pack_unsigned 2 trk) (\<lambda>b6.
     bindE (pack_unsigned 1 src) (\<lambda>b7. Inr (b1 @ b2 @ b3 @ b4 @ b5 @ b6 @ b7))))))))"

definition unpack_point :: "byte list \<Rightarrow> point" where
  "unpack_point bs =
     (let r1 = drop 4 bs; r2 = drop 4 r1; r3 = drop 4 r2; r4 = drop 4 r3; r5 = drop 2 r4; r6 = drop 2 r5
      in (unpack_signed 4 (take 4 bs), unpack_signed 4 (take 4 r1), unpack_signed 4 (take 4 r2),
          unpack_signed 4 (take 4 r3), unpack_unsigned (take 2 r4), unpack_unsigned (take 2 r5),
          unpack_unsigned (take 1 r6)))"

definition pack_header :: "int \<Rightarrow> int \<Rightarrow> byte list result" where
  "pack_header version point_count =
     bindE (pack_unsigned 1 version) (\<lambda>b1. bindE (pack_unsigned 4 point_count) (\<lambda>b2. Inr (b1 @ b2)))"

definition unpack_header :: "byte list \<Rightarrow> int \<times> int" where
  "unpack_header bs = (unpack_unsigned (take 1 bs), unpack_unsigned (take 4 (drop 1 bs)))"

text \<open>\<open>first\<close> is \<^verbatim>\<open>index == 0\<close>, where the loop does not compare timestamps.\<close>

fun pack_loop :: "bool \<Rightarrow> int \<Rightarrow> int \<Rightarrow> int \<Rightarrow> track_sample list \<Rightarrow> byte list result" where
  "pack_loop first previous_ms previous_lat previous_lon [] = Inr []"
| "pack_loop first previous_ms previous_lat previous_lon (sample # samples) =
     (if \<not> first \<and> ts_ms sample \<le> previous_ms then Inl ValueError
      else (let lat = py_round (ts_latitude sample * COORD_SCALE);
                lon = py_round (ts_longitude sample * COORD_SCALE)
            in bindE (pack_point
                 (clamp (ts_ms sample - previous_ms) 0 MAX_INT32,
                  lat - previous_lat,
                  lon - previous_lon,
                  (case ts_altitude_ft sample of None \<Rightarrow> NO_ALTITUDE | Some a \<Rightarrow> clamp a MIN_INT32 MAX_INT32),
                  encode_scaled (ts_ground_speed_kt sample) SPEED_SCALE,
                  encode_scaled (ts_track_deg sample) TRACK_SCALE,
                  int (position_source_code (ts_position_source sample))))
               (\<lambda>bytes. bindE (pack_loop False (ts_ms sample) lat lon samples)
                 (\<lambda>buffer. Inr (bytes @ buffer)))))"

definition pack_track :: "track_sample list \<Rightarrow> packed_track result" where
  "pack_track samples =
     (if samples = [] then Inl ValueError
      else (let base_ms = ts_ms (hd samples)
            in bindE (pack_header ENCODING_VERSION (int (length samples))) (\<lambda>header.
               bindE (pack_loop True base_ms 0 0 samples) (\<lambda>points.
               Inr \<lparr>pt_encoding_version = ENCODING_VERSION, pt_point_count = int (length samples),
                    pt_started_ms = base_ms, pt_points_blob = header @ points\<rparr>))))"

text \<open>The loop reads record after record; \<open>blob\<close> is what is left of the bytes.\<close>

fun unpack_loop :: "nat \<Rightarrow> byte list \<Rightarrow> int \<Rightarrow> int \<Rightarrow> int \<Rightarrow> track_sample list result" where
  "unpack_loop 0 blob ts lat lon = Inr []"
| "unpack_loop (Suc n) blob ts lat lon =
     (case unpack_point (take POINT_SIZE blob) of (delta_ms, delta_lat, delta_lon, altitude, speed, trk, source) \<Rightarrow>
        (let ts' = ts + delta_ms; lat' = lat + delta_lat; lon' = lon + delta_lon
         in bindE (decode_source source) (\<lambda>src.
            bindE (unpack_loop n (drop POINT_SIZE blob) ts' lat' lon') (\<lambda>samples.
            Inr (\<lparr>ts_ms = ts', ts_latitude = of_int lat' / COORD_SCALE,
                  ts_longitude = of_int lon' / COORD_SCALE, ts_position_source = src,
                  ts_altitude_ft = (if altitude = NO_ALTITUDE then None else Some altitude),
                  ts_ground_speed_kt = decode_scaled speed SPEED_SCALE,
                  ts_track_deg = decode_scaled trk TRACK_SCALE\<rparr> # samples)))))"

definition unpack_track :: "packed_track \<Rightarrow> track_sample list result" where
  "unpack_track packed =
     (let blob = pt_points_blob packed
      in if length blob < HEADER_SIZE then Inl UnsupportedTrackEncoding
         else (case unpack_header blob of (version, point_count) \<Rightarrow>
           if version \<notin> set SUPPORTED_VERSIONS then Inl UnsupportedTrackEncoding
           else if version \<noteq> pt_encoding_version packed \<or> point_count \<noteq> pt_point_count packed
             then Inl UnsupportedTrackEncoding
           else if int (length blob) \<noteq> int HEADER_SIZE + point_count * int POINT_SIZE
             then Inl UnsupportedTrackEncoding
           else unpack_loop (nat point_count) (drop HEADER_SIZE blob) (pt_started_ms packed) 0 0))"

section \<open>Round trip\<close>

fun point_ok :: "point \<Rightarrow> bool" where
  "point_ok (dt, dlat, dlon, alt, gs, trk, src) \<longleftrightarrow>
     int32_ok dt \<and> int32_ok dlat \<and> int32_ok dlon \<and> int32_ok alt \<and> uint16_ok gs \<and> uint16_ok trk \<and>
     uint8_ok src"

lemma pack_point_ok:
  assumes "point_ok p"
  shows "\<exists>bs. pack_point p = Inr bs \<and> length bs = POINT_SIZE \<and> unpack_point bs = p"
proof -
  obtain dt dlat dlon alt gs trk src where p: "p = (dt, dlat, dlon, alt, gs, trk, src)"
    by (metis prod_cases7)
  obtain b1 b2 b3 b4 where
    b: "pack_signed 4 dt = Inr b1" "pack_signed 4 dlat = Inr b2" "pack_signed 4 dlon = Inr b3"
      "pack_signed 4 alt = Inr b4"
    using assms i32.pack_fits by (fastforce simp: p)
  obtain b5 b6 b7 where
    c: "pack_unsigned 2 gs = Inr b5" "pack_unsigned 2 trk = Inr b6" "pack_unsigned 1 src = Inr b7"
    using assms u16.pack_fits u8.pack_fits by (fastforce simp: p)
  have "take 1 b7 = b7" "unpack_unsigned b7 = src"
    using u8.pack_width [OF c(3)] u8.unpack_pack [OF c(3)] by simp_all
  with b c show ?thesis
    by (simp add: p unpack_point_def Let_def POINT_SIZE_def b [THEN i32.unpack_pack]
        b [THEN i32.pack_width] c(1,2) [THEN u16.unpack_pack] c(1,2) [THEN u16.pack_width]
        c(3) [THEN u8.pack_width])
qed

lemma pack_header_ok:
  assumes "uint8_ok v" "uint32_ok n"
  shows "\<exists>bs. pack_header v n = Inr bs \<and> length bs = HEADER_SIZE \<and>
     (\<forall>rest. unpack_header (bs @ rest) = (v, n))"
proof -
  obtain b1 b2 where b: "pack_unsigned 1 v = Inr b1" "pack_unsigned 4 n = Inr b2"
    using u8.pack_fits [OF assms(1)] u32.pack_fits [OF assms(2)] by blast
  then show ?thesis
    using u8.pack_prefix [OF b(1)] u32.pack_prefix [OF b(2)] u8.pack_width [OF b(1)]
      u32.pack_width [OF b(2)]
    by (simp add: pack_header_def unpack_header_def HEADER_SIZE_def)
qed

lemma encode_scaled_ok: "uint16_ok (encode_scaled v scale)"
  by (auto simp: encode_scaled_def uint16_ok_def clamp_def NO_VALUE_16_def MAX_UINT16_def
      split: option.split)

lemma decode_encode_scaled:
  "decode_scaled (encode_scaled v scale) scale =
     map_option (\<lambda>x. of_int (clamp (py_round (x * scale)) 0 MAX_UINT16) / scale) v"
  by (auto simp: decode_scaled_def encode_scaled_def clamp_def NO_VALUE_16_def MAX_UINT16_def
      split: option.split)

lemma decode_source_code: "decode_source (int (position_source_code s)) = Inr s"
  by (simp add: decode_source_def)

text \<open>What the format keeps of a sample.\<close>

definition quantized :: "track_sample \<Rightarrow> track_sample" where
  "quantized s = s
     \<lparr>ts_latitude := of_int (py_round (ts_latitude s * COORD_SCALE)) / COORD_SCALE,
      ts_longitude := of_int (py_round (ts_longitude s * COORD_SCALE)) / COORD_SCALE,
      ts_altitude_ft := map_option (\<lambda>a. clamp a MIN_INT32 MAX_INT32) (ts_altitude_ft s),
      ts_ground_speed_kt :=
        map_option (\<lambda>v. of_int (clamp (py_round (v * SPEED_SCALE)) 0 MAX_UINT16) / SPEED_SCALE)
          (ts_ground_speed_kt s),
      ts_track_deg :=
        map_option (\<lambda>v. of_int (clamp (py_round (v * TRACK_SCALE)) 0 MAX_UINT16) / TRACK_SCALE)
          (ts_track_deg s)\<rparr>"

definition on_globe :: "track_sample \<Rightarrow> bool" where
  "on_globe s \<longleftrightarrow> \<bar>ts_latitude s\<bar> \<le> 90 \<and> \<bar>ts_longitude s\<bar> \<le> 180"

fun steps_fit :: "bool \<Rightarrow> int \<Rightarrow> track_sample list \<Rightarrow> bool" where
  "steps_fit first prev [] = True"
| "steps_fit first prev (s # ss) \<longleftrightarrow>
     (if first then prev \<le> ts_ms s else prev < ts_ms s) \<and> ts_ms s - prev \<le> MAX_INT32 \<and>
     steps_fit False (ts_ms s) ss"

lemma steps_fit_increasing:
  "increasing (p # ss) \<Longrightarrow> \<forall>s \<in> set ss. ts_ms s - ts_ms p \<le> MAX_INT32 \<Longrightarrow> steps_fit False (ts_ms p) ss"
proof (induction ss arbitrary: p)
  case (Cons s ss)
  have "increasing (s # ss)" "ts_ms p < ts_ms s" using Cons.prems(1) by (auto simp: increasing_def)
  moreover from this Cons.prems(2) have "\<forall>t \<in> set ss. ts_ms t - ts_ms s \<le> MAX_INT32" by fastforce
  ultimately show ?case using Cons.IH Cons.prems(2) by simp
qed simp

lemma scaled_coordinate:
  assumes "\<bar>x\<bar> \<le> of_int m"
  shows "\<bar>py_round (x * COORD_SCALE)\<bar> \<le> 100000 * m"
proof -
  have "- of_int (100000 * m) \<le> x * COORD_SCALE" "x * COORD_SCALE \<le> of_int (100000 * m)"
    using assms by (auto simp: COORD_SCALE_def abs_le_iff)
  then have "- (100000 * m) \<le> py_round (x * COORD_SCALE)" "py_round (x * COORD_SCALE) \<le> 100000 * m"
    using py_round_ge_of_int [of "- (100000 * m)"] py_round_le_of_int by auto
  then show ?thesis by simp
qed

lemma pack_loop_roundtrip:
  "steps_fit first prev_ms samples \<Longrightarrow> \<forall>s \<in> set samples. on_globe s \<Longrightarrow>
     \<bar>prev_lat\<bar> \<le> 9000000 \<Longrightarrow> \<bar>prev_lon\<bar> \<le> 18000000 \<Longrightarrow>
     \<exists>bs. pack_loop first prev_ms prev_lat prev_lon samples = Inr bs \<and>
       length bs = length samples * POINT_SIZE \<and>
       unpack_loop (length samples) bs prev_ms prev_lat prev_lon = Inr (map quantized samples)"
proof (induction samples arbitrary: first prev_ms prev_lat prev_lon)
  case (Cons s samples)
  let ?lat = "py_round (ts_latitude s * COORD_SCALE)" and ?lon = "py_round (ts_longitude s * COORD_SCALE)"
  let ?alt = "case ts_altitude_ft s of None \<Rightarrow> NO_ALTITUDE | Some a \<Rightarrow> clamp a MIN_INT32 MAX_INT32"
  let ?p = "(ts_ms s - prev_ms, ?lat - prev_lat, ?lon - prev_lon, ?alt,
     encode_scaled (ts_ground_speed_kt s) SPEED_SCALE, encode_scaled (ts_track_deg s) TRACK_SCALE,
     int (position_source_code (ts_position_source s)))"
  have coords: "\<bar>?lat\<bar> \<le> 9000000" "\<bar>?lon\<bar> \<le> 18000000"
    using scaled_coordinate [of "ts_latitude s" 90] scaled_coordinate [of "ts_longitude s" 180]
      Cons.prems(2) by (simp_all add: on_globe_def)
  have time: "clamp (ts_ms s - prev_ms) 0 MAX_INT32 = ts_ms s - prev_ms" "int32_ok (ts_ms s - prev_ms)"
    "\<not> (\<not> first \<and> ts_ms s \<le> prev_ms)"
    using Cons.prems(1) by (auto simp: clamp_def int32_ok_def MAX_INT32_def split: if_splits)
  have deltas: "int32_ok (?lat - prev_lat)" "int32_ok (?lon - prev_lon)"
    using coords Cons.prems(3,4) by (auto simp: int32_ok_def abs_le_iff)
  have alt: "int32_ok ?alt" "(if ?alt = NO_ALTITUDE then None else Some ?alt) =
      map_option (\<lambda>a. clamp a MIN_INT32 MAX_INT32) (ts_altitude_ft s)"
    by (auto simp: int32_ok_def NO_ALTITUDE_def clamp_def MIN_INT32_def MAX_INT32_def
        split: option.split)
  have src: "uint8_ok (int (position_source_code (ts_position_source s)))"
    using position_source_code_byte [of "ts_position_source s"] by (simp add: uint8_ok_def)
  have "point_ok ?p" using time(2) deltas alt(1) src by (simp add: encode_scaled_ok)
  from pack_point_ok [OF this] obtain b where
    b: "pack_point ?p = Inr b" "length b = POINT_SIZE" "unpack_point b = ?p" by blast
  from Cons.IH [of False "ts_ms s" ?lat ?lon] Cons.prems coords obtain bs where
    bs: "pack_loop False (ts_ms s) ?lat ?lon samples = Inr bs"
      "length bs = length samples * POINT_SIZE"
      "unpack_loop (length samples) bs (ts_ms s) ?lat ?lon = Inr (map quantized samples)" by auto
  have "pack_loop first prev_ms prev_lat prev_lon (s # samples) = Inr (b @ bs)"
    using time(1,3) b(1) bs(1) by (simp add: Let_def del: pack_point.simps)
  moreover have "unpack_loop (length (s # samples)) (b @ bs) prev_ms prev_lat prev_lon =
      Inr (map quantized (s # samples))"
    using b(2,3) bs(3) alt(2)
    by (simp add: Let_def decode_source_code decode_encode_scaled quantized_def)
  ultimately show ?case using b(2) bs(2) by (intro exI [of _ "b @ bs"]) simp
qed simp

section \<open>Rejection\<close>

lemma unpack_loop_errors: "unpack_loop n bs t lat lon = Inl x \<Longrightarrow> x = UnsupportedTrackEncoding"
proof (induction n arbitrary: bs t lat lon)
  case (Suc n)
  then show ?case
    by (auto simp: Let_def bindE_Inl_iff decode_source_def split: prod.splits sum.splits)
qed simp

lemma unpack_loop_length: "unpack_loop n bs t lat lon = Inr ss \<Longrightarrow> length ss = n"
  by (induction n arbitrary: bs t lat lon ss)
     (auto simp: Let_def bindE_Inr_iff split: prod.splits)

lemma pack_loop_ordered:
  "pack_loop False prev lat lon samples = Inr bs \<Longrightarrow>
     sorted_wrt (<) (prev # map ts_ms samples)"
proof (induction samples arbitrary: prev lat lon bs)
  case (Cons s samples)
  then obtain rest where "pack_loop False (ts_ms s) (py_round (ts_latitude s * COORD_SCALE))
      (py_round (ts_longitude s * COORD_SCALE)) samples = Inr rest" "prev < ts_ms s"
    by (auto simp: Let_def bindE_Inr_iff split: if_splits)
  from Cons.IH [OF this(1)] this(2) show ?case by (auto intro: less_trans)
qed simp

lemma increasing_last: "increasing xs \<Longrightarrow> t \<in> set xs \<Longrightarrow> ts_ms t \<le> ts_ms (last xs)"
  by (induction xs rule: rev_induct) (auto simp: increasing_def sorted_wrt_append)

lemma track_roundtrip_lemma:
  assumes "samples \<noteq> []" "increasing samples" "\<forall>s \<in> set samples. on_globe s"
    and "ts_ms (last samples) - ts_ms (hd samples) \<le> MAX_INT32" "length samples < 2 ^ 32"
  shows "\<exists>p. pack_track samples = Inr p \<and> length (pt_points_blob p) = 5 + 21 * length samples \<and>
     unpack_track p = Inr (map quantized samples)"
proof -
  obtain s ss where ss: "samples = s # ss" using assms(1) by (cases samples) auto
  have "\<forall>t \<in> set ss. ts_ms t \<le> ts_ms (last samples)"
    using increasing_last [OF assms(2)] by (simp add: ss)
  then have "\<forall>t \<in> set ss. ts_ms t - ts_ms s \<le> MAX_INT32" using assms(4) by (fastforce simp: ss)
  with steps_fit_increasing assms(2) have "steps_fit False (ts_ms s) ss" by (simp add: ss)
  then have "steps_fit True (ts_ms s) samples" by (simp add: ss MAX_INT32_def)
  from pack_loop_roundtrip [OF this assms(3), of 0 0] obtain bs where
    bs: "pack_loop True (ts_ms s) 0 0 samples = Inr bs" "length bs = length samples * POINT_SIZE"
      "unpack_loop (length samples) bs (ts_ms s) 0 0 = Inr (map quantized samples)" by auto
  have "uint8_ok ENCODING_VERSION" "uint32_ok (int (length samples))"
    using assms(5) by (simp_all add: uint8_ok_def uint32_ok_def ENCODING_VERSION_def)
  from pack_header_ok [OF this] obtain h where
    h: "pack_header ENCODING_VERSION (int (length samples)) = Inr h" "length h = HEADER_SIZE"
      "\<And>rest. unpack_header (h @ rest) = (ENCODING_VERSION, int (length samples))" by blast
  let ?p = "\<lparr>pt_encoding_version = ENCODING_VERSION, pt_point_count = int (length samples),
    pt_started_ms = ts_ms s, pt_points_blob = h @ bs\<rparr>"
  have "hd samples = s" by (simp add: ss)
  then have "pack_track samples = Inr ?p"
    using h(1) bs(1) assms(1) by (simp add: pack_track_def)
  moreover have "unpack_track ?p = Inr (map quantized samples)"
    using h(2,3) bs(2,3) by (simp add: unpack_track_def SUPPORTED_VERSIONS_def)
  moreover have "length (h @ bs) = 5 + 21 * length samples"
    using h(2) bs(2) by (simp add: HEADER_SIZE_def POINT_SIZE_def)
  ultimately show ?thesis by (intro exI [of _ ?p]) simp
qed

section \<open>Properties\<close>

text \<open>
  Property C11. A stored track decodes to what was stored: for ordered samples on the globe that
  span less than the 32-bit range of milliseconds, packing succeeds, takes 5 bytes and 21 per
  sample, and unpacking returns every sample with its instant, source and missing values intact and
  its numbers quantized.
\<close>

theorem track_roundtrip:
  assumes "samples \<noteq> []" "increasing samples" "\<forall>s \<in> set samples. on_globe s"
    and "ts_ms (last samples) - ts_ms (hd samples) \<le> MAX_INT32" "length samples < 2 ^ 32"
  shows "\<exists>p. pack_track samples = Inr p \<and> length (pt_points_blob p) = 5 + 21 * length samples \<and>
     unpack_track p = Inr (map quantized samples)"
  using assms by (rule track_roundtrip_lemma)

text \<open>
  Quantization is bounded as documented: 5e-6 degrees of latitude and longitude, no
  loss of time, source or a whole-feet altitude of 32 bits, 0.05 kt of speed up to 6553.4 kt, and
  0.005 degrees of track.
\<close>

theorem quantization_error:
  assumes "opt_all (\<lambda>a. MIN_INT32 \<le> a \<and> a \<le> MAX_INT32) (ts_altitude_ft s)"
    and "ts_ground_speed_kt s = Some v" "0 \<le> v" "v \<le> 65534 / 10"
    and "ts_track_deg s = Some d" "0 \<le> d" "d \<le> 360"
  shows "ts_ms (quantized s) = ts_ms s \<and> ts_position_source (quantized s) = ts_position_source s \<and>
     ts_altitude_ft (quantized s) = ts_altitude_ft s \<and>
     \<bar>ts_latitude (quantized s) - ts_latitude s\<bar> \<le> 5 / 1000000 \<and>
     \<bar>ts_longitude (quantized s) - ts_longitude s\<bar> \<le> 5 / 1000000 \<and>
     (\<exists>v'. ts_ground_speed_kt (quantized s) = Some v' \<and> \<bar>v' - v\<bar> \<le> 5 / 100) \<and>
     (\<exists>d'. ts_track_deg (quantized s) = Some d' \<and> \<bar>d' - d\<bar> \<le> 5 / 1000)"
proof -
  have scaled: "\<bar>of_int (py_round (x * c)) / c - x\<bar> \<le> 1 / 2 / c" if "0 < c" for x c :: real
  proof -
    have "\<bar>of_int (py_round (x * c)) - x * c\<bar> \<le> 1 / 2" by (rule py_round_error)
    then have "\<bar>of_int (py_round (x * c)) - x * c\<bar> / c \<le> 1 / 2 / c"
      using that by (intro divide_right_mono) simp_all
    moreover have "of_int (py_round (x * c)) / c - x = (of_int (py_round (x * c)) - x * c) / c"
      using that by (simp add: field_simps)
    ultimately show ?thesis using that by simp
  qed
  have v: "clamp (py_round (v * SPEED_SCALE)) 0 MAX_UINT16 = py_round (v * SPEED_SCALE)"
    using py_round_nonneg [of "v * SPEED_SCALE"] py_round_le_of_int [of "v * SPEED_SCALE" 65534] assms(3,4)
    by (simp add: clamp_def MAX_UINT16_def SPEED_SCALE_def)
  have d: "clamp (py_round (d * TRACK_SCALE)) 0 MAX_UINT16 = py_round (d * TRACK_SCALE)"
    using py_round_nonneg [of "d * TRACK_SCALE"] py_round_le_of_int [of "d * TRACK_SCALE" 65534] assms(6,7)
    by (simp add: clamp_def MAX_UINT16_def TRACK_SCALE_def)
  have alt: "map_option (\<lambda>a. clamp a MIN_INT32 MAX_INT32) (ts_altitude_ft s) = ts_altitude_ft s"
    using assms(1) by (cases "ts_altitude_ft s") (auto simp: clamp_def)
  show ?thesis
    using scaled [of COORD_SCALE "ts_latitude s"] scaled [of COORD_SCALE "ts_longitude s"]
      scaled [of SPEED_SCALE v] scaled [of TRACK_SCALE d]
    by (simp add: quantized_def alt assms(2,5) v d)
       (simp add: COORD_SCALE_def SPEED_SCALE_def TRACK_SCALE_def)
qed

text \<open>
  Property C40. A damaged row is reported, never guessed at: unpacking raises nothing but
  UnsupportedTrackEncoding, and if it returns samples then the version is supported, the blob has
  exactly the length its header and the row's point count call for, and there are that many samples.
\<close>

theorem unpack_checks_everything:
  "case unpack_track p of
     Inl x \<Rightarrow> x = UnsupportedTrackEncoding
   | Inr samples \<Rightarrow>
       pt_encoding_version p \<in> set SUPPORTED_VERSIONS \<and>
       int (length (pt_points_blob p)) = 5 + 21 * pt_point_count p \<and>
       int (length samples) = pt_point_count p \<and>
       unpack_header (pt_points_blob p) = (pt_encoding_version p, pt_point_count p)"
proof (cases "unpack_track p")
  case (Inl x)
  then show ?thesis
    by (auto simp: unpack_track_def Let_def dest: unpack_loop_errors split: if_splits prod.splits)
next
  case (Inr samples)
  obtain v n where h: "unpack_header (pt_points_blob p) = (v, n)" by fastforce
  have "0 \<le> n" using h le_value_bounds by (auto simp: unpack_header_def unpack_unsigned_def)
  then show ?thesis
    using Inr h unpack_loop_length
    by (auto simp: unpack_track_def Let_def HEADER_SIZE_def POINT_SIZE_def split: if_splits)
qed

text \<open>
  Nothing out of order is ever written: if packing succeeds, the samples are non-empty
  and their timestamps strictly increase.
\<close>

theorem packed_is_ordered:
  assumes "pack_track samples = Inr p"
  shows "samples \<noteq> [] \<and> increasing samples"
proof -
  obtain s ss where ss: "samples = s # ss" using assms by (cases samples) (auto simp: pack_track_def)
  obtain bs where "pack_loop False (ts_ms s) (py_round (ts_latitude s * COORD_SCALE))
      (py_round (ts_longitude s * COORD_SCALE)) ss = Inr bs"
    using assms by (auto simp: ss pack_track_def Let_def bindE_Inr_iff)
  from pack_loop_ordered [OF this] show ?thesis
    by (simp add: ss increasing_def sorted_wrt_map)
qed

definition long_silence :: "track_sample list" where
  "long_silence = [equator_sample 0 0 0, equator_sample 3000000000 0 0]"

text \<open>
  Time is not exact across a silence longer than the 32-bit range of milliseconds,
  about 25 days: the encoder clamps the step, and every later sample decodes too early. The module
  documents milliseconds as exact.
\<close>

theorem long_silence_loses_time:
  "map ts_ms long_silence = [0, 3000000000] \<and>
   bindE (pack_track long_silence) (\<lambda>p. bindE (unpack_track p) (\<lambda>ss. Inr (map ts_ms ss))) =
     Inr [0, 2147483647]"
proof
  show "map ts_ms long_silence = [0, 3000000000]" by (simp add: long_silence_def equator_sample_def)
  show "bindE (pack_track long_silence) (\<lambda>p. bindE (unpack_track p) (\<lambda>ss. Inr (map ts_ms ss))) =
     Inr [0, 2147483647]"
    by code_simp
qed

section \<open>Witnesses\<close>

theorem track_roundtrip_witness:
  "\<exists>p. pack_track level_leg = Inr p \<and> unpack_track p = Inr (map quantized level_leg)"
  using track_roundtrip [of level_leg]
  by (auto simp: level_leg_def increasing_def equator_sample_def on_globe_def MAX_INT32_def)

definition cruise_sample :: track_sample where
  "cruise_sample =
     \<lparr>ts_ms = 0, ts_latitude = 475 / 10, ts_longitude = - 122, ts_position_source = SrcMlat,
      ts_altitude_ft = Some 35000, ts_ground_speed_kt = Some 450, ts_track_deg = Some 90\<rparr>"

theorem quantization_error_witness:
  "ts_altitude_ft (quantized cruise_sample) = Some 35000 \<and>
   \<bar>ts_latitude (quantized cruise_sample) - 475 / 10\<bar> \<le> 5 / 1000000"
  using quantization_error [of cruise_sample 450 90]
  by (simp add: cruise_sample_def MIN_INT32_def MAX_INT32_def)

theorem packed_is_ordered_witness: "increasing [cruise_sample]"
proof -
  have "\<exists>p. pack_track [cruise_sample] = Inr p"
  proof -
    have "steps_fit True 0 [cruise_sample]" by (simp add: cruise_sample_def MAX_INT32_def)
    from pack_loop_roundtrip [OF this, of 0 0] obtain bs where
      "pack_loop True 0 0 0 [cruise_sample] = Inr bs" by (auto simp: cruise_sample_def on_globe_def)
    moreover obtain h where "pack_header ENCODING_VERSION 1 = Inr h"
      using pack_header_ok [of ENCODING_VERSION 1]
      by (auto simp: uint8_ok_def uint32_ok_def ENCODING_VERSION_def)
    ultimately show ?thesis
      by (auto simp: pack_track_def Let_def cruise_sample_def simp del: pack_loop.simps)
  qed
  with packed_is_ordered show ?thesis by blast
qed

end
