(* ===== verification/Repository.thy ===== *)
theory Repository
  imports SightingState TrackCodec
begin

text \<open>
  \<^verbatim>\<open>sightings/repository.py\<close>: the statements of the sighting lifecycle on the tables they
  touch. A table is an association list from its primary key to the row; a statement is the change
  it makes, so SQL itself and its sessions are not modelled. SQLite gives a new row the greatest
  key in use plus one. \<open>session.get\<close> on a missing row makes the code raise LookupError.
\<close>

section \<open>Tables\<close>

record airframe =
  af_icao24 :: string
  af_first_seen_ms :: int
  af_last_seen_ms :: int
  af_sighting_count :: nat
  af_total_observed_ms :: int
  af_closest_approach_nm :: "real option"
  af_closest_approach_ms :: "int option"
  af_max_range_nm :: "real option"
  af_max_range_ms :: "int option"
  af_lowest_alt_ft :: "int option"
  af_lowest_alt_ms :: "int option"
  af_highest_alt_ft :: "int option"
  af_highest_alt_ms :: "int option"
  af_emitter_category :: "string option"

text \<open>The columns of \<^verbatim>\<open>_RUNNING_COLUMNS\<close>.\<close>

record running_columns =
  rc_callsign_first :: "string option"
  rc_callsign_last :: "string option"
  rc_squawk_last :: "string option"
  rc_closest_approach_nm :: "real option"
  rc_max_range_nm :: "real option"
  rc_lowest_alt_ft :: "int option"
  rc_highest_alt_ft :: "int option"
  rc_msg_count :: int
  rc_pos_count :: nat
  rc_rssi_peak_db :: "real option"
  rc_rssi_avg_db :: "real option"
  rc_rssi_min_db :: "real option"
  rc_pos_time_pct :: "real option"
  rc_origin_ident :: "string option"
  rc_destination_ident :: "string option"
  rc_route_source :: "string option"
  rc_inferred_airport_ident :: "string option"
  rc_inferred_phase :: "string option"
  rc_max_alert_severity :: "string option"

record sighting_row =
  sr_aircraft_id :: int
  sr_started_ms :: int
  sr_ended_ms :: "int option"
  sr_duration_ms :: "int option"
  sr_closure_reason :: "closure_reason option"
  sr_had_emergency :: bool
  sr_any_position :: bool
  sr_mlat_used :: bool
  sr_ground_seen :: bool
  sr_running :: running_columns

record database =
  db_aircraft :: "(int \<times> airframe) list"
  db_sightings :: "(int \<times> sighting_row) list"
  db_checkpoints :: "(int \<times> nat \<times> track_sample) list"
  db_events :: "(int \<times> pending_event) list"
  db_tracks :: "(int \<times> packed_track) list"

type_synonym sighting_ids = "int \<times> int"

definition fresh_key :: "(int \<times> 'r) list \<Rightarrow> int" where
  "fresh_key table = (if table = [] then 1 else Max (set (map fst table)) + 1)"

lemma fresh_key_new: "k \<in> set (map fst table) \<Longrightarrow> k < fresh_key table"
  using Max_ge [of "set (map fst table)" k] by (auto simp: fresh_key_def)

lemma fresh_key_unused: "map_of table (fresh_key table) = None"
  using fresh_key_new [of "fresh_key table" table] by (auto simp: map_of_eq_None_iff)

definition running_of :: "active_sighting \<Rightarrow> running_columns" where
  "running_of s =
     \<lparr>rc_callsign_first = sg_callsign_first s, rc_callsign_last = sg_callsign_last s,
      rc_squawk_last = sg_squawk_last s, rc_closest_approach_nm = sg_closest_approach_nm s,
      rc_max_range_nm = sg_max_range_nm s, rc_lowest_alt_ft = sg_lowest_alt_ft s,
      rc_highest_alt_ft = sg_highest_alt_ft s, rc_msg_count = sg_msg_count s,
      rc_pos_count = sg_pos_count s, rc_rssi_peak_db = sg_rssi_peak_db s,
      rc_rssi_avg_db = rssi_avg_db s, rc_rssi_min_db = sg_rssi_min_db s,
      rc_pos_time_pct = pos_time_pct s, rc_origin_ident = sg_origin_ident s,
      rc_destination_ident = sg_destination_ident s, rc_route_source = sg_route_source s,
      rc_inferred_airport_ident = sg_inferred_airport_ident s,
      rc_inferred_phase = sg_inferred_phase s, rc_max_alert_severity = sg_max_alert_severity s\<rparr>"

definition better_extreme :: "'a::linorder option \<Rightarrow> 'a option \<Rightarrow> bool \<Rightarrow> bool" where
  "better_extreme current candidate larger = (case candidate of
       None \<Rightarrow> False
     | Some new \<Rightarrow> (case current of
           None \<Rightarrow> True
         | Some old \<Rightarrow> if larger then old < new else new < old))"

definition apply_running :: "active_sighting \<Rightarrow> sighting_row \<Rightarrow> sighting_row" where
  "apply_running s row = row
     \<lparr>sr_running := running_of s, sr_had_emergency := sg_had_emergency s,
      sr_any_position := sg_any_position s, sr_mlat_used := sg_mlat_used s,
      sr_ground_seen := sg_ground_seen s\<rparr>"

definition merge_records :: "active_sighting \<Rightarrow> airframe \<Rightarrow> airframe" where
  "merge_records s a =
     (let a1 = (if better_extreme (af_closest_approach_nm a) (sg_closest_approach_nm s) False
                then a\<lparr>af_closest_approach_nm := sg_closest_approach_nm s,
                       af_closest_approach_ms := sg_closest_approach_ms s\<rparr> else a);
          a2 = (if better_extreme (af_max_range_nm a1) (sg_max_range_nm s) True
                then a1\<lparr>af_max_range_nm := sg_max_range_nm s, af_max_range_ms := sg_max_range_ms s\<rparr>
                else a1);
          a3 = (if better_extreme (af_lowest_alt_ft a2) (sg_lowest_alt_ft s) False
                then a2\<lparr>af_lowest_alt_ft := sg_lowest_alt_ft s, af_lowest_alt_ms := sg_lowest_alt_ms s\<rparr>
                else a2);
          a4 = (if better_extreme (af_highest_alt_ft a3) (sg_highest_alt_ft s) True
                then a3\<lparr>af_highest_alt_ft := sg_highest_alt_ft s, af_highest_alt_ms := sg_highest_alt_ms s\<rparr>
                else a3)
      in (if sg_emitter_category s \<noteq> None \<and> sg_emitter_category s \<noteq> af_emitter_category a4
          then a4\<lparr>af_emitter_category := sg_emitter_category s\<rparr> else a4))"

section \<open>Statements\<close>

definition require_sighting :: "database \<Rightarrow> sighting_ids \<Rightarrow> sighting_row result" where
  "require_sighting db ids = (case map_of (db_sightings db) (snd ids) of
       None \<Rightarrow> Inl LookupError | Some row \<Rightarrow> Inr row)"

definition require_aircraft :: "database \<Rightarrow> sighting_ids \<Rightarrow> airframe result" where
  "require_aircraft db ids = (case map_of (db_aircraft db) (fst ids) of
       None \<Rightarrow> Inl LookupError | Some row \<Rightarrow> Inr row)"

definition new_airframe :: "active_sighting \<Rightarrow> airframe" where
  "new_airframe s =
     \<lparr>af_icao24 = sg_icao s, af_first_seen_ms = sg_started_ms s, af_last_seen_ms = sg_last_seen_ms s,
      af_sighting_count = 0, af_total_observed_ms = 0, af_closest_approach_nm = None,
      af_closest_approach_ms = None, af_max_range_nm = None, af_max_range_ms = None,
      af_lowest_alt_ft = None, af_lowest_alt_ms = None, af_highest_alt_ft = None,
      af_highest_alt_ms = None, af_emitter_category = None\<rparr>"

text \<open>\<^verbatim>\<open>select(Aircraft).where(icao24 == ...)\<close>; the column is unique.\<close>

fun airframe_by_icao :: "(int \<times> airframe) list \<Rightarrow> string \<Rightarrow> (int \<times> airframe) option" where
  "airframe_by_icao [] icao = None"
| "airframe_by_icao ((i, a) # rows) icao =
     (if af_icao24 a = icao then Some (i, a) else airframe_by_icao rows icao)"

definition open_sighting :: "active_sighting \<Rightarrow> database \<Rightarrow> sighting_ids \<times> database" where
  "open_sighting s db =
     (let (aircraft_id, aircraft) = (case airframe_by_icao (db_aircraft db) (sg_icao s) of
             Some (i, a) \<Rightarrow> (i, a)
           | None \<Rightarrow> (fresh_key (db_aircraft db), new_airframe s));
          a1 = aircraft\<lparr>af_first_seen_ms := min (af_first_seen_ms aircraft) (sg_started_ms s),
                        af_last_seen_ms := max (af_last_seen_ms aircraft) (sg_last_seen_ms s),
                        af_sighting_count := Suc (af_sighting_count aircraft)\<rparr>;
          a2 = merge_records s a1;
          sighting_id = fresh_key (db_sightings db);
          row = \<lparr>sr_aircraft_id = aircraft_id, sr_started_ms = sg_started_ms s, sr_ended_ms = None,
                 sr_duration_ms = None, sr_closure_reason = None,
                 sr_had_emergency = sg_had_emergency s, sr_any_position = sg_any_position s,
                 sr_mlat_used = sg_mlat_used s, sr_ground_seen = sg_ground_seen s,
                 sr_running = running_of s\<rparr>
      in ((aircraft_id, sighting_id),
          db\<lparr>db_aircraft := AList.update aircraft_id a2 (db_aircraft db),
             db_sightings := AList.update sighting_id row (db_sightings db)\<rparr>))"

definition flush_sighting :: "sighting_ids \<Rightarrow> active_sighting \<Rightarrow> database \<Rightarrow> database result" where
  "flush_sighting ids s db =
     bindE (require_sighting db ids) (\<lambda>row.
     bindE (require_aircraft db ids) (\<lambda>aircraft.
     Inr (db\<lparr>db_sightings := AList.update (snd ids) (apply_running s row) (db_sightings db),
             db_aircraft := AList.update (fst ids)
               (merge_records s (aircraft\<lparr>af_last_seen_ms := max (af_last_seen_ms aircraft) (sg_last_seen_ms s)\<rparr>))
               (db_aircraft db)\<rparr>)))"

definition append_checkpoints :: "int \<Rightarrow> (nat \<times> track_sample) list \<Rightarrow> database \<Rightarrow> database" where
  "append_checkpoints sighting_id rows db =
     db\<lparr>db_checkpoints := db_checkpoints db @ map (\<lambda>(seq, sample). (sighting_id, seq, sample)) rows\<rparr>"

definition append_events :: "int \<Rightarrow> pending_event list \<Rightarrow> database \<Rightarrow> database" where
  "append_events sighting_id events db =
     db\<lparr>db_events := db_events db @ map (Pair sighting_id) events\<rparr>"

text \<open>
  The rows of one sighting in order of \<^verbatim>\<open>seq\<close>, united with what is in memory: a dictionary by
  timestamp, read out in its order.
\<close>

definition checkpoint_rows :: "int \<Rightarrow> database \<Rightarrow> (nat \<times> track_sample) list" where
  "checkpoint_rows sighting_id db =
     sort_key fst (map snd (filter (\<lambda>(sid, _). sid = sighting_id) (db_checkpoints db)))"

definition by_timestamp :: "track_sample list \<Rightarrow> (int \<times> track_sample) list \<Rightarrow> (int \<times> track_sample) list" where
  "by_timestamp samples merged = fold (\<lambda>sample. AList.update (ts_ms sample) sample) samples merged"

definition collect_points :: "int \<Rightarrow> active_sighting \<Rightarrow> database \<Rightarrow> track_sample list" where
  "collect_points sighting_id s db =
     (let stored = by_timestamp (map snd (checkpoint_rows sighting_id db)) [];
          merged = by_timestamp (sg_pending_points s) stored
      in map (\<lambda>ts. the (map_of merged ts)) (sort (map fst merged)))"

definition pack_closed_track :: "int \<Rightarrow> active_sighting \<Rightarrow> database \<Rightarrow> ((nat \<times> nat) \<times> database) result" where
  "pack_closed_track sighting_id s db =
     (let samples = collect_points sighting_id s db;
          db1 = db\<lparr>db_checkpoints := filter (\<lambda>(sid, _). sid \<noteq> sighting_id) (db_checkpoints db)\<rparr>
      in if samples = [] then Inr ((0, 0), db1)
         else bindE (pack_track (simplify_default samples)) (\<lambda>packed.
           Inr ((nat (pt_point_count packed), length (pt_points_blob packed)),
                db1\<lparr>db_tracks := AList.update sighting_id packed (db_tracks db1)\<rparr>)))"

definition close_sighting ::
  "sighting_ids \<Rightarrow> active_sighting \<Rightarrow> closure_reason \<Rightarrow> database \<Rightarrow> ((nat \<times> nat) \<times> database) result" where
  "close_sighting ids s reason db =
     bindE (require_sighting db ids) (\<lambda>row.
     bindE (require_aircraft db ids) (\<lambda>aircraft.
     (let row' = (apply_running s row)\<lparr>sr_ended_ms := Some (sg_last_seen_ms s),
                  sr_duration_ms := Some (duration_ms s), sr_closure_reason := Some reason\<rparr>;
          aircraft' = merge_records s (aircraft
                  \<lparr>af_last_seen_ms := max (af_last_seen_ms aircraft) (sg_last_seen_ms s),
                   af_total_observed_ms := af_total_observed_ms aircraft + duration_ms s\<rparr>)
      in pack_closed_track (snd ids) s
           (db\<lparr>db_sightings := AList.update (snd ids) row' (db_sightings db),
               db_aircraft := AList.update (fst ids) aircraft' (db_aircraft db)\<rparr>))))"

definition load_track :: "int \<Rightarrow> database \<Rightarrow> track_sample list result" where
  "load_track sighting_id db = (case map_of (db_tracks db) sighting_id of
       None \<Rightarrow> Inr []
     | Some packed \<Rightarrow> unpack_track packed)"

section \<open>Startup\<close>

record open_sighting_row =
  os_ids :: sighting_ids
  os_icao24 :: string
  os_row :: sighting_row
  os_last_known_ms :: int
  os_checkpoint_seq :: nat
  os_checkpoint_ms :: "int option"

definition newest :: "'a::linorder list \<Rightarrow> 'a option" where
  "newest xs = (if xs = [] then None else Some (Max (set xs)))"

text \<open>The join of \<^verbatim>\<open>load_open_sightings\<close>; a sighting's foreign key always has its airframe.\<close>

definition open_row :: "database \<Rightarrow> int \<times> sighting_row \<Rightarrow> open_sighting_row list" where
  "open_row db = (\<lambda>(sid, row). (case map_of (db_aircraft db) (sr_aircraft_id row) of
       None \<Rightarrow> []
     | Some aircraft \<Rightarrow>
         if sr_ended_ms row \<noteq> None then []
         else [\<lparr>os_ids = (sr_aircraft_id row, sid), os_icao24 = af_icao24 aircraft, os_row = row,
                os_last_known_ms = max (sr_started_ms row) (af_last_seen_ms aircraft),
                os_checkpoint_seq =
                  (case newest (map fst (checkpoint_rows sid db)) of None \<Rightarrow> 0 | Some seq \<Rightarrow> seq + 1),
                os_checkpoint_ms = newest (map (ts_ms \<circ> snd) (checkpoint_rows sid db))\<rparr>]))"

definition load_open_sightings :: "database \<Rightarrow> open_sighting_row list" where
  "load_open_sightings db =
     sort_key (\<lambda>r. sr_started_ms (os_row r)) (concat (map (open_row db) (db_sightings db)))"

text \<open>\<^verbatim>\<open>x or None\<close> and \<^verbatim>\<open>x or 0.0\<close> replace a zero and a missing value alike.\<close>

definition to_accumulator :: "open_sighting_row \<Rightarrow> active_sighting" where
  "to_accumulator r =
     (let row = os_row r; rc = sr_running row;
          rssi_samples = (if rc_rssi_avg_db rc \<noteq> None then rc_pos_count rc else 0);
          elapsed_ms = max 0 (os_last_known_ms r - sr_started_ms row)
      in (new_sighting (os_icao24 r) (sr_started_ms row) (os_last_known_ms r))
           \<lparr>sg_aircraft_id := Some (fst (os_ids r)), sg_sighting_id := Some (snd (os_ids r)),
            sg_callsign_first := rc_callsign_first rc, sg_callsign_last := rc_callsign_last rc,
            sg_squawk_last := rc_squawk_last rc, sg_had_emergency := sr_had_emergency row,
            sg_origin_ident := rc_origin_ident rc, sg_destination_ident := rc_destination_ident rc,
            sg_route_source := rc_route_source rc,
            sg_inferred_airport_ident := rc_inferred_airport_ident rc,
            sg_inferred_phase := rc_inferred_phase rc,
            sg_max_alert_severity := rc_max_alert_severity rc,
            sg_emergency_active :=
              (case rc_squawk_last rc of None \<Rightarrow> False | Some q \<Rightarrow> q \<in> set EMERGENCY_SQUAWKS),
            sg_emergency_declared := declared_emergency (rc_squawk_last rc) None,
            sg_any_position := sr_any_position row, sg_mlat_used := sr_mlat_used row,
            sg_ground_seen := sr_ground_seen row,
            sg_closest_approach_nm := rc_closest_approach_nm rc,
            sg_max_range_nm := rc_max_range_nm rc, sg_lowest_alt_ft := rc_lowest_alt_ft rc,
            sg_highest_alt_ft := rc_highest_alt_ft rc, sg_msg_count := rc_msg_count rc,
            sg_messages_seen := (if rc_msg_count rc = 0 then None else Some (rc_msg_count rc)),
            sg_pos_count := rc_pos_count rc, sg_rssi_peak_db := rc_rssi_peak_db rc,
            sg_rssi_min_db := rc_rssi_min_db rc,
            sg_rssi_total_db := (case rc_rssi_avg_db rc of None \<Rightarrow> 0 | Some a \<Rightarrow> a) * of_nat rssi_samples,
            sg_rssi_samples := rssi_samples,
            sg_positioned_ms := py_round ((case rc_pos_time_pct rc of None \<Rightarrow> 0 | Some p \<Rightarrow> p)
              * of_int elapsed_ms / 100),
            sg_stats_ms := Some (os_last_known_ms r), sg_checkpoint_seq := os_checkpoint_seq r,
            sg_last_point_ms := os_checkpoint_ms r, sg_dirty := False\<rparr>)"

section \<open>Lemmas\<close>

lemma better_extreme_least:
  "(if better_extreme c d False then d else c) = (case (c, d) of (Some x, Some y) \<Rightarrow> Some (min x y) | _ \<Rightarrow> or_else c d)"
  by (cases c; cases d) (auto simp: better_extreme_def)

lemma better_extreme_greatest:
  "(if better_extreme c d True then d else c) = (case (c, d) of (Some x, Some y) \<Rightarrow> Some (max x y) | _ \<Rightarrow> or_else c d)"
  by (cases c; cases d) (auto simp: better_extreme_def)

lemma merge_records_keeps [simp]:
  "af_icao24 (merge_records s a) = af_icao24 a"
  "af_last_seen_ms (merge_records s a) = af_last_seen_ms a"
  "af_first_seen_ms (merge_records s a) = af_first_seen_ms a"
  "af_sighting_count (merge_records s a) = af_sighting_count a"
  "af_total_observed_ms (merge_records s a) = af_total_observed_ms a"
  by (simp_all add: merge_records_def Let_def)

lemma merge_records_extremes:
  "af_closest_approach_nm (merge_records s a) =
     (if better_extreme (af_closest_approach_nm a) (sg_closest_approach_nm s) False
      then sg_closest_approach_nm s else af_closest_approach_nm a)"
  "af_max_range_nm (merge_records s a) =
     (if better_extreme (af_max_range_nm a) (sg_max_range_nm s) True
      then sg_max_range_nm s else af_max_range_nm a)"
  "af_lowest_alt_ft (merge_records s a) =
     (if better_extreme (af_lowest_alt_ft a) (sg_lowest_alt_ft s) False
      then sg_lowest_alt_ft s else af_lowest_alt_ft a)"
  "af_highest_alt_ft (merge_records s a) =
     (if better_extreme (af_highest_alt_ft a) (sg_highest_alt_ft s) True
      then sg_highest_alt_ft s else af_highest_alt_ft a)"
  by (simp_all add: merge_records_def Let_def)

lemma merge_records_category:
  "af_emitter_category (merge_records s a) = or_else (sg_emitter_category s) (af_emitter_category a)"
  by (cases "sg_emitter_category s") (auto simp: merge_records_def Let_def)

lemma better_extreme_same [simp]: "\<not> better_extreme x x b"
  by (cases x) (simp_all add: better_extreme_def)

lemma merge_records_fixed:
  "\<not> better_extreme (af_closest_approach_nm a) (sg_closest_approach_nm s) False \<Longrightarrow>
   \<not> better_extreme (af_max_range_nm a) (sg_max_range_nm s) True \<Longrightarrow>
   \<not> better_extreme (af_lowest_alt_ft a) (sg_lowest_alt_ft s) False \<Longrightarrow>
   \<not> better_extreme (af_highest_alt_ft a) (sg_highest_alt_ft s) True \<Longrightarrow>
   sg_emitter_category s = None \<or> sg_emitter_category s = af_emitter_category a \<Longrightarrow>
   merge_records s a = a"
  by (auto simp: merge_records_def Let_def)

lemma merge_records_idem: "merge_records s (merge_records s a) = merge_records s a"
proof (rule merge_records_fixed)
  show "sg_emitter_category s = None \<or> sg_emitter_category s = af_emitter_category (merge_records s a)"
    unfolding merge_records_category by (cases "sg_emitter_category s") simp_all
qed (simp_all add: merge_records_extremes)

text \<open>The union of stored and pending points.\<close>

definition keyed :: "(int \<times> track_sample) list \<Rightarrow> bool" where
  "keyed m \<longleftrightarrow> distinct (map fst m) \<and> (\<forall>(k, p) \<in> set m. ts_ms p = k)"

lemma by_timestamp_simps [simp]:
  "by_timestamp [] m = m"
  "by_timestamp (p # ps) m = by_timestamp ps (AList.update (ts_ms p) p m)"
  by (simp_all add: by_timestamp_def)

lemma by_timestamp_keyed: "keyed m \<Longrightarrow> keyed (by_timestamp ps m)"
proof (induction ps arbitrary: m)
  case (Cons p ps)
  have "keyed (AList.update (ts_ms p) p m)"
    using Cons.prems by (auto simp: keyed_def AList.distinct_update dict_set_update)
  from Cons.IH [OF this] show ?case by simp
qed simp

lemma by_timestamp_keys: "fst ` set (by_timestamp ps m) = fst ` set m \<union> ts_ms ` set ps"
  by (induction ps arbitrary: m) (auto simp: AList.dom_update)

lemma by_timestamp_lookup:
  "map_of (by_timestamp ps m) t =
     (case filter (\<lambda>p. ts_ms p = t) ps of [] \<Rightarrow> map_of m t | qs \<Rightarrow> Some (last qs))"
  by (induction ps arbitrary: m) (auto simp: dict_simps split: list.split)

lemma collect_points_merged:
  obtains merged where "keyed merged"
    "collect_points i s db = map (\<lambda>t. the (map_of merged t)) (sort (map fst merged))"
    "fst ` set merged = ts_ms ` (snd ` set (checkpoint_rows i db) \<union> set (sg_pending_points s))"
    "\<And>t. map_of merged t = (case filter (\<lambda>p. ts_ms p = t) (sg_pending_points s) of
        [] \<Rightarrow> map_of (by_timestamp (map snd (checkpoint_rows i db)) []) t | qs \<Rightarrow> Some (last qs))"
proof (rule that)
  let ?m = "by_timestamp (sg_pending_points s) (by_timestamp (map snd (checkpoint_rows i db)) [])"
  show "keyed ?m" by (intro by_timestamp_keyed) (simp add: keyed_def)
  show "collect_points i s db = map (\<lambda>t. the (map_of ?m t)) (sort (map fst ?m))"
    by (simp add: collect_points_def Let_def)
  show "fst ` set ?m = ts_ms ` (snd ` set (checkpoint_rows i db) \<union> set (sg_pending_points s))"
    by (auto simp: by_timestamp_keys)
  show "map_of ?m t = (case filter (\<lambda>p. ts_ms p = t) (sg_pending_points s) of
        [] \<Rightarrow> map_of (by_timestamp (map snd (checkpoint_rows i db)) []) t | qs \<Rightarrow> Some (last qs))" for t
    by (rule by_timestamp_lookup)
qed

lemma keyed_lookup: "keyed m \<Longrightarrow> t \<in> fst ` set m \<Longrightarrow> \<exists>p. map_of m t = Some p \<and> ts_ms p = t"
  by (auto simp: keyed_def map_of_eq_Some_iff) blast

lemma collect_points_times:
  "map ts_ms (collect_points i s db) =
     sorted_list_of_set (ts_ms ` (snd ` set (checkpoint_rows i db) \<union> set (sg_pending_points s)))"
proof -
  obtain m where m: "keyed m" "collect_points i s db = map (\<lambda>t. the (map_of m t)) (sort (map fst m))"
    "fst ` set m = ts_ms ` (snd ` set (checkpoint_rows i db) \<union> set (sg_pending_points s))"
    by (rule collect_points_merged)
  have "map ts_ms (collect_points i s db) = sort (map fst m)"
    unfolding m(2) map_map by (rule map_idI) (use keyed_lookup [OF m(1)] in fastforce)
  also have "\<dots> = sorted_list_of_set (fst ` set m)"
    using m(1) by (simp add: keyed_def sorted_list_of_set_sort_remdups distinct_remdups_id flip: set_map)
  finally show ?thesis by (simp add: m(3))
qed

lemma collect_points_increasing: "increasing (collect_points i s db)"
proof -
  have "sorted_wrt (<) (map ts_ms (collect_points i s db))"
    unfolding collect_points_times by (rule strict_sorted_list_of_set)
  then show ?thesis by (simp add: increasing_def sorted_wrt_map)
qed

lemma collect_points_cong:
  "db_checkpoints db = db_checkpoints db' \<Longrightarrow> collect_points i s db = collect_points i s db'"
  by (simp add: collect_points_def checkpoint_rows_def)

lemma increasing_hd: "increasing xs \<Longrightarrow> t \<in> set xs \<Longrightarrow> ts_ms (hd xs) \<le> ts_ms t"
  by (cases xs) (auto simp: increasing_def)

lemma pack_simplified:
  assumes "samples \<noteq> []" "increasing samples" "\<forall>p \<in> set samples. on_globe p"
    and "ts_ms (last samples) - ts_ms (hd samples) \<le> MAX_INT32" "length samples < 2 ^ 32"
  shows "simplify_default samples \<noteq> [] \<and> increasing (simplify_default samples) \<and>
     (\<forall>p \<in> set (simplify_default samples). on_globe p) \<and>
     ts_ms (last (simplify_default samples)) - ts_ms (hd (simplify_default samples)) \<le> MAX_INT32 \<and>
     length (simplify_default samples) < 2 ^ 32"
proof -
  let ?s = "simplify_default samples"
  have sub: "subseq ?s samples" by (rule simplify_subseq)
  then have set: "set ?s \<subseteq> set samples" by (auto elim: list_emb_set)
  have ne: "?s \<noteq> []"
  proof (cases "length samples \<le> 2")
    case False
    have "0 \<in> kept_indices samples SIMPLIFY_EPSILON_DEG (Fin SIMPLIFY_ALTITUDE_FT)"
      using simplify_indices_ends [of "length samples"] by (auto simp: kept_indices_def)
    moreover have "kept_indices samples SIMPLIFY_EPSILON_DEG (Fin SIMPLIFY_ALTITUDE_FT) \<subseteq> {..<length samples}"
      using kept_indices_below assms(1) by blast
    ultimately show ?thesis
      using False finite_subset by (fastforce simp: simplify_def)
  qed (use assms(1) in \<open>simp add: simplify_def\<close>)
  have inc: "increasing ?s" using increasing_subseq [OF sub assms(2)] .
  have "last ?s \<in> set samples" "hd ?s \<in> set samples" using ne set by auto
  then have "ts_ms (last ?s) \<le> ts_ms (last samples)" "ts_ms (hd samples) \<le> ts_ms (hd ?s)"
    using increasing_last [OF assms(2)] increasing_hd [OF assms(2)] by auto
  moreover have "length ?s \<le> length samples" using sub by (rule list_emb_length)
  ultimately show ?thesis using ne inc set assms(3-5) by auto
qed

lemma close_sighting_pack:
  assumes "map_of (db_sightings db) (snd ids) = Some row" "map_of (db_aircraft db) (fst ids) = Some aircraft"
  obtains row' aircraft' where "close_sighting ids s reason db = pack_closed_track (snd ids) s
     (db\<lparr>db_sightings := AList.update (snd ids) row' (db_sightings db),
         db_aircraft := AList.update (fst ids) aircraft' (db_aircraft db)\<rparr>)"
    "row' = (apply_running s row)\<lparr>sr_ended_ms := Some (sg_last_seen_ms s),
        sr_duration_ms := Some (duration_ms s), sr_closure_reason := Some reason\<rparr>"
    "af_total_observed_ms aircraft' = af_total_observed_ms aircraft + duration_ms s"
  using assms
  by (simp add: close_sighting_def require_sighting_def require_aircraft_def Let_def)

lemma checkpoint_rows_other:
  "checkpoint_rows j (db\<lparr>db_checkpoints := filter (\<lambda>(sid, _). sid \<noteq> i) (db_checkpoints db)\<rparr>) =
     (if j = i then [] else checkpoint_rows j db)"
proof -
  have "filter (\<lambda>(sid, _). sid = j) (filter (\<lambda>(sid, _). sid \<noteq> i) (db_checkpoints db)) =
      (if j = i then [] else filter (\<lambda>(sid, _). sid = j) (db_checkpoints db))"
    by (auto simp: filter_empty_conv intro!: filter_cong)
  then show ?thesis by (simp add: checkpoint_rows_def)
qed

section \<open>Properties\<close>


text \<open>
  Flushing an open sighting twice is flushing it once: the row and the lifetime
  records of the airframe, with the instants they were set, do not change the second time.
\<close>

theorem flush_idempotent:
  assumes "flush_sighting ids s db = Inr db'"
  shows "flush_sighting ids s db' = Inr db'"
proof -
  from assms obtain row aircraft where ra: "map_of (db_sightings db) (snd ids) = Some row"
    "map_of (db_aircraft db) (fst ids) = Some aircraft"
    by (auto simp: flush_sighting_def require_sighting_def require_aircraft_def bindE_Inr_iff
        split: option.splits)
  let ?a = "merge_records s (aircraft\<lparr>af_last_seen_ms := max (af_last_seen_ms aircraft) (sg_last_seen_ms s)\<rparr>)"
  have db': "db' = db\<lparr>db_sightings := AList.update (snd ids) (apply_running s row) (db_sightings db),
      db_aircraft := AList.update (fst ids) ?a (db_aircraft db)\<rparr>"
    using assms ra by (simp add: flush_sighting_def require_sighting_def require_aircraft_def)
  have 1: "?a\<lparr>af_last_seen_ms := max (af_last_seen_ms ?a) (sg_last_seen_ms s)\<rparr> = ?a" by simp
  have 2: "apply_running s (apply_running s row) = apply_running s row" by (simp add: apply_running_def)
  have 3: "AList.update k v (AList.update k v m) = AList.update k v m" for k v and m :: "('k \<times> 'v) list"
    by (induction m) auto
  have look: "map_of (db_sightings db') (snd ids) = Some (apply_running s row)"
    "map_of (db_aircraft db') (fst ids) = Some ?a" by (simp_all add: db' dict_simps)
  have "flush_sighting ids s db' = Inr (db'
      \<lparr>db_sightings := AList.update (snd ids) (apply_running s row) (db_sightings db'),
       db_aircraft := AList.update (fst ids) ?a (db_aircraft db')\<rparr>)"
    unfolding flush_sighting_def require_sighting_def require_aircraft_def look
    by (simp only: option.case bindE_simps 1 2 merge_records_idem)
  then show ?thesis by (simp add: db' 3)
qed

text \<open>
  A restart brings back every stored column of an open sighting, with two exceptions:
  the share of time with positions is recomputed, and the mean signal, which comes back weighted by
  the position count, is lost altogether for a sighting that never had a position. The module says
  a mean built over an hour survives the observations after a restart.
\<close>

theorem restart_restores_columns:
  "running_of (to_accumulator r) = (sr_running (os_row r))
     \<lparr>rc_rssi_avg_db := if rc_pos_count (sr_running (os_row r)) = 0 then None
                        else rc_rssi_avg_db (sr_running (os_row r)),
      rc_pos_time_pct := pos_time_pct (to_accumulator r)\<rparr>"
proof -
  have "rssi_avg_db (to_accumulator r) =
      (if rc_pos_count (sr_running (os_row r)) = 0 then None else rc_rssi_avg_db (sr_running (os_row r)))"
    by (simp add: rssi_avg_db_def to_accumulator_def Let_def split: option.split)
  then show ?thesis
    by (simp add: running_of_def) (simp add: to_accumulator_def new_sighting_def Let_def)
qed

section \<open>Witnesses\<close>

definition sample_sighting :: active_sighting where
  "sample_sighting = (new_sighting ''400abc'' 0 5000)\<lparr>sg_pending_points := level_leg\<rparr>"

definition empty_database :: database where
  "empty_database = \<lparr>db_aircraft = [], db_sightings = [], db_checkpoints = [], db_events = [], db_tracks = []\<rparr>"

lemma sample_open:
  "open_sighting sample_sighting empty_database = ((1, 1), snd (open_sighting sample_sighting empty_database))"
  "map_of (db_sightings (snd (open_sighting sample_sighting empty_database))) 1 \<noteq> None"
  "map_of (db_aircraft (snd (open_sighting sample_sighting empty_database))) 1 \<noteq> None"
  "db_checkpoints (snd (open_sighting sample_sighting empty_database)) = []"
  "db_tracks (snd (open_sighting sample_sighting empty_database)) = []"
  by (simp_all add: open_sighting_def empty_database_def fresh_key_def sample_sighting_def
      new_sighting_def Let_def)

lemma sample_points:
  "db_checkpoints db = [] \<Longrightarrow> collect_points 1 sample_sighting db = level_leg"
  by (simp add: collect_points_def checkpoint_rows_def sample_sighting_def level_leg_def
      equator_sample_def Let_def)


theorem flush_idempotent_witness:
  "\<exists>db. flush_sighting (1, 1) sample_sighting (snd (open_sighting sample_sighting empty_database)) = Inr db
     \<and> flush_sighting (1, 1) sample_sighting db = Inr db"
proof -
  let ?db = "snd (open_sighting sample_sighting empty_database)"
  obtain db' where "flush_sighting (1, 1) sample_sighting ?db = Inr db'"
    using sample_open(2,3)
    by (auto simp: flush_sighting_def require_sighting_def require_aircraft_def)
  with flush_idempotent [OF this] show ?thesis by blast
qed

end
