(* ===== verification/Recovery.thy ===== *)
theory Recovery
  imports Repository
begin

text \<open>
  \<^verbatim>\<open>sightings/recovery.py\<close>: what a start does with the sightings the previous process left
  open. Each batch is one transaction; whether the engine lets the i-th one commit is the parameter
  \<open>commits\<close>, and a batch that raises or does not commit changes nothing.
\<close>

definition DEFAULT_RECOVERY_BATCH :: nat where "DEFAULT_RECOVERY_BATCH = 16"
definition DELETE_CHUNK :: nat where "DELETE_CHUNK = 500"

record recovery_report =
  rr_recovered :: nat
  rr_continued :: nat
  rr_points_recovered :: nat
  rr_orphan_checkpoints :: nat
  rr_orphan_sightings :: nat
  rr_transactions :: nat
  rr_failed :: nat

definition anomalies :: "recovery_report \<Rightarrow> nat" where
  "anomalies r = rr_orphan_sightings r + rr_failed r"

definition acted :: "recovery_report \<Rightarrow> bool" where
  "acted r \<longleftrightarrow> 0 < rr_recovered r \<or> 0 < rr_continued r \<or> 0 < rr_orphan_sightings r \<or> 0 < rr_failed r"

definition last_data_ms :: "open_sighting_row \<Rightarrow> int" where
  "last_data_ms r = (case os_checkpoint_ms r of
       None \<Rightarrow> os_last_known_ms r
     | Some c \<Rightarrow> max (os_last_known_ms r) c)"

definition accumulator :: "open_sighting_row \<Rightarrow> active_sighting" where
  "accumulator r = (to_accumulator r)\<lparr>sg_last_seen_ms := last_data_ms r\<rparr>"

text \<open>\<^verbatim>\<open>range\<close> refuses a step of zero; the batch size is the positive default.\<close>

function chunks :: "nat \<Rightarrow> 'a list \<Rightarrow> 'a list list" where
  "chunks step items =
     (if items = [] \<or> step = 0 then [] else take step items # chunks step (drop step items))"
  by pat_completeness auto
termination by (relation "measure (\<lambda>(_, items). length items)") auto

declare chunks.simps [simp del]

definition continuing :: "int \<Rightarrow> open_sighting_row \<Rightarrow> active_sighting" where
  "continuing close_ms r = (let adopted = accumulator r
     in adopted\<lparr>sg_close_deadline_ms := Some (sg_last_seen_ms adopted + close_ms)\<rparr>)"

definition retrying :: "int \<Rightarrow> open_sighting_row \<Rightarrow> active_sighting" where
  "retrying close_ms r = (let retried = accumulator r
     in retried\<lparr>sg_close_deadline_ms := Some (sg_last_seen_ms retried + close_ms),
               sg_closure_reason := ShutdownRecovery\<rparr>)"

text \<open>Stale rows first, continuing ones second, each in the given order.\<close>

fun partition_rows ::
  "int \<Rightarrow> int \<Rightarrow> int list \<Rightarrow> open_sighting_row list \<Rightarrow> open_sighting_row list \<times> open_sighting_row list" where
  "partition_rows close_ms now_ms packed [] = ([], [])"
| "partition_rows close_ms now_ms packed (r # rows) =
     (case partition_rows close_ms now_ms packed rows of (stale, cont) \<Rightarrow>
        if last_data_ms r + close_ms \<le> now_ms \<or> snd (os_ids r) \<in> set packed then (r # stale, cont)
        else (stale, r # cont))"

fun close_rows :: "open_sighting_row list \<Rightarrow> nat \<Rightarrow> database \<Rightarrow> (nat \<times> database) result" where
  "close_rows [] points db = Inr (points, db)"
| "close_rows (r # rows) points db =
     bindE (close_sighting (os_ids r) (accumulator r) ShutdownRecovery db)
       (\<lambda>(track, db'). close_rows rows (points + fst track) db')"

definition close_batch :: "bool \<Rightarrow> open_sighting_row list \<Rightarrow> database \<Rightarrow> (nat \<times> database) option" where
  "close_batch commit batch db = (case close_rows batch 0 db of
       Inl _ \<Rightarrow> None
     | Inr (points, db') \<Rightarrow> if commit then Some (points, db') else None)"

definition orphaned :: "database \<Rightarrow> int \<Rightarrow> bool" where
  "orphaned db sid \<longleftrightarrow> (case map_of (db_sightings db) sid of
       None \<Rightarrow> True
     | Some row \<Rightarrow> sr_ended_ms row \<noteq> None \<or> map_of (db_tracks db) sid \<noteq> None)"

definition scan_orphans :: "database \<Rightarrow> int list \<times> nat" where
  "scan_orphans db =
     (sort (remdups (filter (orphaned db) (map fst (db_checkpoints db)))),
      length (filter (\<lambda>(sid, _). orphaned db sid) (db_checkpoints db)))"

definition delete_orphans :: "int list \<Rightarrow> database \<Rightarrow> database" where
  "delete_orphans ids db =
     db\<lparr>db_checkpoints := fold (\<lambda>chunk rows. filter (\<lambda>(sid, _). sid \<notin> set chunk) rows)
        (chunks DELETE_CHUNK ids) (db_checkpoints db)\<rparr>"

definition packed_open_ids :: "database \<Rightarrow> int list" where
  "packed_open_ids db =
     map fst (filter (\<lambda>(sid, row). sr_ended_ms row = None \<and> map_of (db_tracks db) sid \<noteq> None)
       (db_sightings db))"

record batch_tally =
  bt_recovered :: nat
  bt_points :: nat
  bt_failed :: "open_sighting_row list"
  bt_transactions :: nat

fun close_batches ::
  "(nat \<Rightarrow> bool) \<Rightarrow> open_sighting_row list list \<Rightarrow> batch_tally \<Rightarrow> database \<Rightarrow> batch_tally \<times> database" where
  "close_batches commits [] tally db = (tally, db)"
| "close_batches commits (batch # batches) tally db =
     (let n = bt_transactions tally; tally1 = tally\<lparr>bt_transactions := Suc n\<rparr>
      in case close_batch (commits n) batch db of
           None \<Rightarrow> close_batches commits batches (tally1\<lparr>bt_failed := bt_failed tally @ batch\<rparr>) db
         | Some (points, db') \<Rightarrow>
             close_batches commits batches
               (tally1\<lparr>bt_recovered := bt_recovered tally + length batch,
                       bt_points := bt_points tally + points\<rparr>) db')"

text \<open>An orphan cleanup that raises aborts the start; here it is taken to commit.\<close>

definition run_recovery ::
  "(nat \<Rightarrow> bool) \<Rightarrow> int \<Rightarrow> nat \<Rightarrow> int \<Rightarrow> database \<Rightarrow> recovery_report \<times> active_sighting list \<times> database" where
  "run_recovery commits close_ms batch_size now_ms db =
     (let (orphans, orphan_rows) = scan_orphans db;
          db1 = (if orphans = [] then db else delete_orphans orphans db);
          rows = load_open_sightings db1;
          packed = (if rows = [] then [] else packed_open_ids db1);
          (stale, cont) = partition_rows close_ms now_ms packed rows;
          (tally, db2) = close_batches commits (chunks batch_size stale)
            \<lparr>bt_recovered = 0, bt_points = 0, bt_failed = [],
             bt_transactions = (if orphans = [] then 0 else 1)\<rparr> db1
      in (\<lparr>rr_recovered = bt_recovered tally, rr_continued = length cont,
           rr_points_recovered = bt_points tally, rr_orphan_checkpoints = orphan_rows,
           rr_orphan_sightings = length orphans, rr_transactions = bt_transactions tally,
           rr_failed = length (bt_failed tally)\<rparr>,
          map (continuing close_ms) cont @ map (retrying close_ms) (bt_failed tally), db2))"

section \<open>Lemmas\<close>

lemma chunks_Nil [simp]: "chunks step [] = []"
  by (simp add: chunks.simps)

lemma concat_chunks: "0 < step \<Longrightarrow> concat (chunks step items) = items"
proof (induction step items rule: chunks.induct)
  case (1 step items)
  then show ?case by (cases "items = []") (simp_all add: chunks.simps [of step items])
qed

lemma delete_orphans_rows:
  "db_checkpoints (delete_orphans ids db) = filter (\<lambda>(sid, _). sid \<notin> set ids) (db_checkpoints db)"
proof -
  have "fold (\<lambda>chunk rows. filter (\<lambda>(sid, _). sid \<notin> set chunk) rows) cs rows =
      filter (\<lambda>(sid, _). sid \<notin> set (concat cs)) rows" for cs :: "int list list" and rows :: "(int \<times> 'r) list"
    by (induction cs arbitrary: rows) (auto intro!: filter_cong)
  from this [of "chunks DELETE_CHUNK ids" "db_checkpoints db"] show ?thesis
    using concat_chunks [of DELETE_CHUNK ids]
    by (simp add: delete_orphans_def DELETE_CHUNK_def del: set_concat)
qed

lemma partition_rows_eq:
  "partition_rows close_ms now_ms packed rows =
     (filter (\<lambda>r. last_data_ms r + close_ms \<le> now_ms \<or> snd (os_ids r) \<in> set packed) rows,
      filter (\<lambda>r. \<not> (last_data_ms r + close_ms \<le> now_ms \<or> snd (os_ids r) \<in> set packed)) rows)"
  by (induction rows) auto

lemma close_batches_tally:
  "close_batches commits batches tally db = (tally', db') \<Longrightarrow>
     bt_recovered tally' + length (bt_failed tally') =
       bt_recovered tally + length (bt_failed tally) + length (concat batches) \<and>
     set (bt_failed tally') \<subseteq> set (bt_failed tally) \<union> set (concat batches) \<and>
     bt_transactions tally' = bt_transactions tally + length batches"
proof (induction commits batches tally db rule: close_batches.induct)
  case (2 commits batch batches tally db)
  show ?case
  proof (cases "close_batch (commits (bt_transactions tally)) batch db")
    case None
    from "2.IH"(1) [OF refl refl None] "2.prems" None show ?thesis by (auto simp: Let_def)
  next
    case (Some x)
    from "2.IH"(2) [OF refl refl Some surjective_pairing [symmetric]] "2.prems" Some show ?thesis
      by (auto simp: Let_def split_beta)
  qed
qed simp

text \<open>A run, taken apart: the rows found after the cleanup, which of them are stale, and the failures.\<close>

definition recovery_parts where
  "recovery_parts commits close_ms batch_size now_ms db report pending db' rows stale failed \<longleftrightarrow>
     rows = load_open_sightings (delete_orphans (fst (scan_orphans db)) db) \<and>
     rr_recovered report + length failed = length (filter stale rows) \<and>
     rr_failed report = length failed \<and>
     rr_continued report = length (filter (\<lambda>r. \<not> stale r) rows) \<and>
     pending = map (continuing close_ms) (filter (\<lambda>r. \<not> stale r) rows) @ map (retrying close_ms) failed \<and>
     set failed \<subseteq> set rows \<and>
     (\<forall>r. \<not> stale r \<longrightarrow> now_ms < last_data_ms r + close_ms) \<and>
     (\<exists>t t'. bt_failed t = [] \<and> bt_failed t' = failed \<and>
        close_batches commits (chunks batch_size (filter stale rows)) t
          (delete_orphans (fst (scan_orphans db)) db) = (t', db'))"

lemma run_recovery_parts:
  assumes "run_recovery commits close_ms batch_size now_ms db = (report, pending, db')" "0 < batch_size"
  shows "\<exists>rows stale failed.
     recovery_parts commits close_ms batch_size now_ms db report pending db' rows stale failed"
proof -
  let ?o = "fst (scan_orphans db)"
  let ?db1 = "if ?o = [] then db else delete_orphans ?o db"
  have db1: "?db1 = delete_orphans ?o db"
    by (simp add: delete_orphans_def chunks.simps)
  let ?rows = "load_open_sightings (delete_orphans ?o db)"
  obtain packed where packed: "packed = (if ?rows = [] then [] else packed_open_ids (delete_orphans ?o db))"
    by blast
  let ?stale = "\<lambda>r. last_data_ms r + close_ms \<le> now_ms \<or> snd (os_ids r) \<in> set packed"
  obtain tally where tally: "close_batches commits (chunks batch_size (filter ?stale ?rows))
      \<lparr>bt_recovered = 0, bt_points = 0, bt_failed = [], bt_transactions = (if ?o = [] then 0 else 1)\<rparr>
      (delete_orphans ?o db) = (tally, db')"
    and r: "rr_recovered report = bt_recovered tally" "rr_failed report = length (bt_failed tally)"
      "rr_continued report = length (filter (\<lambda>r. \<not> ?stale r) ?rows)"
      "pending = map (continuing close_ms) (filter (\<lambda>r. \<not> ?stale r) ?rows)
        @ map (retrying close_ms) (bt_failed tally)"
    using assms(1) unfolding run_recovery_def Let_def split_beta db1 partition_rows_eq packed [symmetric]
    by (auto simp: prod_eq_iff)
  note tallied = close_batches_tally [OF tally, unfolded concat_chunks [OF assms(2)]]
  have "recovery_parts commits close_ms batch_size now_ms db report pending db' ?rows ?stale (bt_failed tally)"
    unfolding recovery_parts_def
  proof (intro conjI)
    show "\<exists>t t'. bt_failed t = [] \<and> bt_failed t' = bt_failed tally \<and>
        close_batches commits (chunks batch_size (filter ?stale ?rows)) t
          (delete_orphans (fst (scan_orphans db)) db) = (t', db')"
      by (intro exI conjI) (rule batch_tally.simps refl tally)+
  qed (use tallied r in auto)
  then show ?thesis by blast
qed

lemma orphan_ids:
  "set (fst (scan_orphans db)) = {sid \<in> fst ` set (db_checkpoints db). orphaned db sid}"
  by (auto simp: scan_orphans_def)

lemma orphaned_delete [simp]: "orphaned (delete_orphans ids db) = orphaned db"
  by (intro ext) (simp add: orphaned_def delete_orphans_def split: option.split)

lemma no_orphans_left:
  "fst (scan_orphans (delete_orphans (fst (scan_orphans db)) db)) = []"
proof -
  let ?db = "delete_orphans (fst (scan_orphans db)) db"
  have "sid \<notin> set (fst (scan_orphans ?db))" for sid
  proof
    assume "sid \<in> set (fst (scan_orphans ?db))"
    then have kept: "sid \<in> fst ` set (db_checkpoints ?db)" and "orphaned db sid"
      unfolding orphan_ids [of ?db] by simp_all
    from kept have "sid \<notin> set (fst (scan_orphans db))" "sid \<in> fst ` set (db_checkpoints db)"
      unfolding delete_orphans_rows by auto
    with \<open>orphaned db sid\<close> show False by (simp add: orphan_ids)
  qed
  then show ?thesis by (metis list.set_intros(1) neq_Nil_conv)
qed

section \<open>Properties\<close>


text \<open>
  What recovery hands back is ready to run: every accumulator it returns stands for an
  open row, its last instant is the newest evidence of reception and its deadline is one closure
  gap after that; it is continued only while that deadline lies ahead, and a retry carries the
  shutdown reason.
\<close>

theorem recovery_hands_back:
  assumes "run_recovery commits close_ms batch_size now_ms db = (report, pending, db')"
    and "0 < batch_size" "s \<in> set pending"
  shows "\<exists>r \<in> set (load_open_sightings (delete_orphans (fst (scan_orphans db)) db)).
     sg_sighting_id s = Some (snd (os_ids r)) \<and> sg_last_seen_ms s = last_data_ms r \<and>
     sg_close_deadline_ms s = Some (last_data_ms r + close_ms) \<and>
     (sg_closure_reason s = ShutdownRecovery \<or>
      sg_closure_reason s = GapTimeout \<and> now_ms < last_data_ms r + close_ms)"
proof -
  have ids: "sg_sighting_id (to_accumulator r) = Some (snd (os_ids r))"
    "sg_closure_reason (to_accumulator r) = GapTimeout" for r
    by (simp_all add: to_accumulator_def new_sighting_def Let_def)
  from run_recovery_parts [OF assms(1,2)] obtain rows stale failed where
    parts: "recovery_parts commits close_ms batch_size now_ms db report pending db' rows stale failed"
    by blast
  note rows = parts [unfolded recovery_parts_def, THEN conjunct1]
  have pending: "pending = map (continuing close_ms) (filter (\<lambda>r. \<not> stale r) rows)
      @ map (retrying close_ms) failed"
    and failed: "set failed \<subseteq> set rows"
    and ahead: "\<And>r. \<not> stale r \<Longrightarrow> now_ms < last_data_ms r + close_ms"
    using parts by (auto simp: recovery_parts_def)
  from assms(3) consider r where "r \<in> set rows" "\<not> stale r" "s = continuing close_ms r"
    | r where "r \<in> set rows" "s = retrying close_ms r"
    using failed by (auto simp: pending)
  then show ?thesis
  proof cases
    case (1 r)
    with ahead [of r] rows show ?thesis
      by (intro bexI [of _ r]) (simp_all add: continuing_def ids Let_def accumulator_def)
  next
    case (2 r)
    with rows show ?thesis
      by (intro bexI [of _ r]) (simp_all add: retrying_def ids Let_def accumulator_def)
  qed
qed

section \<open>Witnesses\<close>

text \<open>A crash left one sighting open at 5 s with nothing checkpointed; the start is at 10 minutes.\<close>

definition crashed :: database where
  "crashed = snd (open_sighting sample_sighting empty_database)"

definition crash_run :: "recovery_report \<times> active_sighting list \<times> database" where
  "crash_run = run_recovery (\<lambda>_. True) 600000 DEFAULT_RECOVERY_BATCH 600000 crashed"

lemma crash_run_eq:
  "run_recovery (\<lambda>_. True) 600000 DEFAULT_RECOVERY_BATCH 600000 crashed =
     (fst crash_run, fst (snd crash_run), snd (snd crash_run))"
  by (simp add: crash_run_def)

lemma crashed_rows:
  "fst (scan_orphans crashed) = []"
  "length (load_open_sightings crashed) = 1"
  "\<forall>r \<in> set (load_open_sightings crashed). last_data_ms r = 5000"
  "packed_open_ids crashed = []"
  by code_simp+

lemma crashed_open:
  "\<exists>s. fst (snd crash_run) = [s]"
proof -
  from crashed_rows(2) obtain r where r: "load_open_sightings crashed = [r]"
    by (cases "load_open_sightings crashed") auto
  with crashed_rows(3) have "last_data_ms r = 5000" by simp
  with r crashed_rows show ?thesis
    by (simp add: crash_run_def run_recovery_def Let_def chunks.simps split_beta)
qed


theorem recovery_hands_back_witness:
  "\<exists>s \<in> set (fst (snd crash_run)). sg_closure_reason s = ShutdownRecovery \<or> sg_closure_reason s = GapTimeout"
proof -
  obtain s where s: "s \<in> set (fst (snd crash_run))" using crashed_open by auto
  with recovery_hands_back [OF crash_run_eq _ s] show ?thesis
    by (auto simp: DEFAULT_RECOVERY_BATCH_def)
qed

end
