(* ===== verification/Worker.thy ===== *)
theory Worker
  imports Recovery Events
begin

text \<open>
  \<^verbatim>\<open>sightings/worker.py\<close>: the write-behind worker, the only writer of the database. Its
  dictionaries of accumulators are association lists in insertion order. A cycle awaits the writer
  session between planning its work, writing it and recording that it was written; what other tasks
  push through the three \<open>apply_\<close> methods at those points is an argument (\<open>ce_before\<close> and
  \<open>ce_during\<close>), and so is whether the engine lets the transaction commit. A transaction that
  raises or does not commit changes nothing. Listeners are known by numbers.
\<close>

section \<open>State\<close>

definition DEFAULT_CLOSE_S :: real where "DEFAULT_CLOSE_S = 600"
definition DEFAULT_FLUSH_INTERVAL_S :: real where "DEFAULT_FLUSH_INTERVAL_S = 30"
definition DEFAULT_TICK_INTERVAL_S :: real where "DEFAULT_TICK_INTERVAL_S = 1"

record sighting_ref =
  sf_icao :: string
  sf_aircraft_id :: int
  sf_sighting_id :: int
  sf_started_ms :: int
  sf_ended_ms :: "int option"

record sighting_lifecycle =
  sl_at_ms :: int
  sl_opened :: "sighting_ref list"
  sl_closed :: "sighting_ref list"

definition lifecycle_empty :: "sighting_lifecycle \<Rightarrow> bool" where
  "lifecycle_empty event \<longleftrightarrow> sl_opened event = [] \<and> sl_closed event = []"

record cycle_result =
  cr_events :: nat
  cr_opened :: nat
  cr_flushed :: nat
  cr_closed :: nat
  cr_checkpointed :: nat
  cr_emitted :: nat
  cr_track_points :: nat
  cr_resynced :: bool
  cr_failed :: bool

definition no_result :: cycle_result where
  "no_result = \<lparr>cr_events = 0, cr_opened = 0, cr_flushed = 0, cr_closed = 0, cr_checkpointed = 0,
     cr_emitted = 0, cr_track_points = 0, cr_resynced = False, cr_failed = False\<rparr>"

definition result_wrote :: "cycle_result \<Rightarrow> bool" where
  "result_wrote r \<longleftrightarrow> cr_opened r \<noteq> 0 \<or> cr_flushed r \<noteq> 0 \<or> cr_closed r \<noteq> 0 \<or> cr_emitted r \<noteq> 0"

type_synonym accumulators = "(string \<times> active_sighting) list"

record worker =
  pw_active :: accumulators
  pw_pending :: accumulators
  pw_close_ms :: int
  pw_flush_interval_ms :: int
  pw_queue_size :: nat
  pw_subscription :: "live_event subscription option"
  pw_t0_established :: bool
  pw_recovery :: recovery_report
  pw_listeners :: "nat list"
  pw_db_errors :: nat

text \<open>What a cycle can reach on disk: the tables, and T0 in the key/value table.\<close>

record storage =
  st_db :: database
  st_t0 :: "int option"

definition no_recovery :: recovery_report where
  "no_recovery = \<lparr>rr_recovered = 0, rr_continued = 0, rr_points_recovered = 0,
     rr_orphan_checkpoints = 0, rr_orphan_sightings = 0, rr_transactions = 0, rr_failed = 0\<rparr>"

definition new_worker :: "real \<Rightarrow> real \<Rightarrow> real \<Rightarrow> nat \<Rightarrow> worker result" where
  "new_worker close_s flush_interval_s tick_interval_s queue_size =
     (if close_s \<le> 0 then Inl ValueError
      else if flush_interval_s \<le> 0 then Inl ValueError
      else if tick_interval_s \<le> 0 then Inl ValueError
      else Inr \<lparr>pw_active = [], pw_pending = [],
                pw_close_ms = py_trunc (close_s * of_int MS_PER_SECOND),
                pw_flush_interval_ms = py_trunc (flush_interval_s * of_int MS_PER_SECOND),
                pw_queue_size = queue_size, pw_subscription = None, pw_t0_established = False,
                pw_recovery = no_recovery, pw_listeners = [], pw_db_errors = 0\<rparr>)"

definition subscribe_lifecycle :: "nat \<Rightarrow> worker \<Rightarrow> worker" where
  "subscribe_lifecycle listener w =
     (if listener \<in> set (pw_listeners w) then w
      else w\<lparr>pw_listeners := pw_listeners w @ [listener]\<rparr>)"

definition unsubscribe_lifecycle :: "nat \<Rightarrow> worker \<Rightarrow> worker" where
  "unsubscribe_lifecycle listener w = w\<lparr>pw_listeners := remove1 listener (pw_listeners w)\<rparr>"

text \<open>Who is told what; a listener that raises is skipped.\<close>

definition notify_lifecycle :: "sighting_lifecycle \<Rightarrow> worker \<Rightarrow> (nat \<times> sighting_lifecycle) list" where
  "notify_lifecycle event w =
     (if lifecycle_empty event then [] else map (\<lambda>listener. (listener, event)) (pw_listeners w))"

section \<open>Reading and the seams of other tasks\<close>

definition sighting_for :: "string \<Rightarrow> worker \<Rightarrow> active_sighting option" where
  "sighting_for icao w = (case map_of (pw_active w) icao of
       Some s \<Rightarrow> Some s | None \<Rightarrow> map_of (pw_pending w) icao)"

definition sighting_id_for :: "string \<Rightarrow> worker \<Rightarrow> int option" where
  "sighting_id_for icao w = (case sighting_for icao w of None \<Rightarrow> None | Some s \<Rightarrow> sg_sighting_id s)"

definition route_for :: "string \<Rightarrow> worker \<Rightarrow> sighting_route option" where
  "route_for icao w = (case sighting_for icao w of None \<Rightarrow> None | Some s \<Rightarrow> sighting_route_of s)"

definition inferred_airport_for :: "string \<Rightarrow> worker \<Rightarrow> inferred_airport option" where
  "inferred_airport_for icao w =
     (case sighting_for icao w of None \<Rightarrow> None | Some s \<Rightarrow> inferred_airport_of s)"

definition max_alert_severity_for :: "string \<Rightarrow> worker \<Rightarrow> string option" where
  "max_alert_severity_for icao w =
     (case sighting_for icao w of None \<Rightarrow> None | Some s \<Rightarrow> sg_max_alert_severity s)"

text \<open>The accumulator is a shared object: writing to it is writing to the dictionary that holds it.\<close>

definition put_sighting :: "string \<Rightarrow> active_sighting \<Rightarrow> worker \<Rightarrow> worker" where
  "put_sighting icao s w =
     (if map_of (pw_active w) icao \<noteq> None
      then w\<lparr>pw_active := AList.update icao s (pw_active w)\<rparr>
      else w\<lparr>pw_pending := AList.update icao s (pw_pending w)\<rparr>)"

definition worker_apply_route :: "string \<Rightarrow> sighting_route \<Rightarrow> int \<Rightarrow> worker \<Rightarrow> worker \<times> bool" where
  "worker_apply_route icao route at_ms w = (case sighting_for icao w of
       None \<Rightarrow> (w, False)
     | Some s \<Rightarrow> (case apply_route route at_ms s of (s', changed) \<Rightarrow> (put_sighting icao s' w, changed)))"

definition worker_apply_inferred_airport ::
  "string \<Rightarrow> inferred_airport \<Rightarrow> int \<Rightarrow> worker \<Rightarrow> worker \<times> bool" where
  "worker_apply_inferred_airport icao inferred at_ms w = (case sighting_for icao w of
       None \<Rightarrow> (w, False)
     | Some s \<Rightarrow> (case apply_inferred_airport inferred at_ms s of
           (s', changed) \<Rightarrow> (put_sighting icao s' w, changed)))"

definition worker_apply_alert_severity ::
  "string \<Rightarrow> string \<Rightarrow> string \<Rightarrow> int \<Rightarrow> worker \<Rightarrow> (worker \<times> bool) result" where
  "worker_apply_alert_severity icao severity reason at_ms w = (case sighting_for icao w of
       None \<Rightarrow> Inr (w, False)
     | Some s \<Rightarrow> bindE (apply_alert_severity severity reason at_ms s)
         (\<lambda>(s', changed). Inr (put_sighting icao s' w, changed)))"

datatype seam_call =
    RouteCall string sighting_route int
  | AirportCall string inferred_airport int
  | SeverityCall string string string int

text \<open>A call made by another task; one that raises leaves the worker as it was.\<close>

fun seam_step :: "seam_call \<Rightarrow> worker \<Rightarrow> worker" where
  "seam_step (RouteCall icao route at_ms) w = fst (worker_apply_route icao route at_ms w)"
| "seam_step (AirportCall icao inferred at_ms) w = fst (worker_apply_inferred_airport icao inferred at_ms w)"
| "seam_step (SeverityCall icao severity reason at_ms) w =
     (case worker_apply_alert_severity icao severity reason at_ms w of
        Inl _ \<Rightarrow> w | Inr (w', _) \<Rightarrow> w')"

section \<open>Events of the live store\<close>

definition worker_observe :: "live_aircraft \<Rightarrow> worker \<Rightarrow> worker" where
  "worker_observe record w = (let icao = la_icao record
     in case map_of (pw_active w) icao of
          Some active \<Rightarrow> w\<lparr>pw_active := AList.update icao (observe record active) (pw_active w)\<rparr>
        | None \<Rightarrow> (case map_of (pw_pending w) icao of
              Some resumed \<Rightarrow>
                w\<lparr>pw_pending := AList.delete icao (pw_pending w),
                  pw_active := AList.update icao
                    (observe record (resumed\<lparr>sg_close_deadline_ms := None, sg_closure_reason := GapTimeout\<rparr>))
                    (pw_active w)\<rparr>
            | None \<Rightarrow> w\<lparr>pw_active := AList.update icao (open_from record) (pw_active w)\<rparr>))"

definition arm_closure :: "live_aircraft \<Rightarrow> worker \<Rightarrow> worker" where
  "arm_closure record w = (let icao = la_icao record;
       active = (case sighting_for icao w of
           None \<Rightarrow> open_from record
         | Some s \<Rightarrow> observe record s)
     in w\<lparr>pw_active := AList.delete icao (pw_active w),
          pw_pending := AList.update icao
            (active\<lparr>sg_close_deadline_ms := Some (sg_last_seen_ms active + pw_close_ms w)\<rparr>)
            (pw_pending w)\<rparr>)"

fun handle :: "live_event \<Rightarrow> worker \<Rightarrow> worker" where
  "handle (AircraftAppeared a _) w = worker_observe a w"
| "handle (AircraftUpdated a _ _) w = worker_observe a w"
| "handle (AircraftStale _ _) w = w"
| "handle (AircraftRemoved a _) w = arm_closure a w"

definition strand :: "string \<Rightarrow> worker \<Rightarrow> worker" where
  "strand icao w = (case map_of (pw_active w) icao of
       None \<Rightarrow> w
     | Some active \<Rightarrow>
         w\<lparr>pw_active := AList.delete icao (pw_active w),
           pw_pending := AList.update icao
             (active\<lparr>sg_close_deadline_ms := Some (sg_last_seen_ms active + pw_close_ms w),
                    sg_flush_immediately := True\<rparr>)
             (pw_pending w)\<rparr>)"

definition resync :: "live_aircraft list \<Rightarrow> live_event subscription \<Rightarrow> worker \<Rightarrow> worker" where
  "resync live sub w =
     (let live_icaos = map la_icao live;
          w1 = fold worker_observe live w;
          w2 = fold strand (filter (\<lambda>icao. icao \<notin> set live_icaos) (map fst (pw_active w1))) w1
      in w2\<lparr>pw_subscription := Some (fst (acknowledge_overflow sub))\<rparr>)"

section \<open>The write cycle\<close>

record cycle_env =
  ce_now_ms :: int
  ce_force :: bool
  ce_commits :: bool
  ce_meta_commits :: bool
  ce_before :: "seam_call list"
  ce_during :: "seam_call list"

definition worker_accumulators :: "worker \<Rightarrow> active_sighting list" where
  "worker_accumulators w = map snd (pw_active w) @ map snd (pw_pending w)"

text \<open>Objects are named by their ICAO address, which is the key of the dictionary holding them.\<close>

record cycle_plan =
  cp_now_ms :: int
  cp_due :: "string list"
  cp_opens :: "string list"
  cp_flushes :: "string list"
  cp_batches :: "(string \<times> checkpoint_batch) list"
  cp_queued :: "(string \<times> pending_event list) list"

definition due_now :: "int \<Rightarrow> active_sighting \<Rightarrow> bool" where
  "due_now now_ms s = (case sg_close_deadline_ms s of None \<Rightarrow> False | Some d \<Rightarrow> d \<le> now_ms)"

definition plan_cycle :: "int \<Rightarrow> bool \<Rightarrow> worker \<Rightarrow> cycle_plan" where
  "plan_cycle now_ms force w =
     (let due = filter (due_now now_ms) (map snd (pw_pending w));
          closing = map sg_icao due;
          opens = filter (\<lambda>s. sg_sighting_id s = None) (worker_accumulators w);
          flushes = filter (\<lambda>s. sg_icao s \<notin> set closing \<and> sg_sighting_id s \<noteq> None \<and>
            needs_flush now_ms (pw_flush_interval_ms w) force s) (worker_accumulators w)
      in \<lparr>cp_now_ms = now_ms, cp_due = closing, cp_opens = map sg_icao opens,
          cp_flushes = map sg_icao flushes,
          cp_batches = List.map_filter (\<lambda>s. if sg_icao s \<in> set closing then None
            else map_option (Pair (sg_icao s)) (take_checkpoint s)) (opens @ flushes),
          cp_queued = map (\<lambda>s. (sg_icao s, take_events s))
            (filter (\<lambda>s. sg_pending_events s \<noteq> []) (worker_accumulators w))\<rparr>)"

definition nothing_to_do :: "cycle_plan \<Rightarrow> bool" where
  "nothing_to_do p \<longleftrightarrow> cp_opens p = [] \<and> cp_flushes p = [] \<and> cp_due p = [] \<and> cp_queued p = []"

definition ids_of :: "active_sighting \<Rightarrow> sighting_ids result" where
  "ids_of s = (case (sg_aircraft_id s, sg_sighting_id s) of
       (Some a, Some i) \<Rightarrow> Inr (a, i) | _ \<Rightarrow> Inl LookupError)"

definition resolved :: "(string \<times> sighting_ids) list \<Rightarrow> active_sighting \<Rightarrow> sighting_ids result" where
  "resolved opened s = (case map_of opened (sg_icao s) of Some ids \<Rightarrow> Inr ids | None \<Rightarrow> ids_of s)"

fun write_opens :: "active_sighting list \<Rightarrow> database \<Rightarrow> (string \<times> sighting_ids) list \<times> database" where
  "write_opens [] db = ([], db)"
| "write_opens (s # ss) db =
     (let (ids, db1) = open_sighting s db; (opened, db2) = write_opens ss db1
      in ((sg_icao s, ids) # opened, db2))"

fun write_flushes :: "active_sighting list \<Rightarrow> database \<Rightarrow> database result" where
  "write_flushes [] db = Inr db"
| "write_flushes (s # ss) db =
     bindE (ids_of s) (\<lambda>ids. bindE (flush_sighting ids s db) (write_flushes ss))"

fun write_batches ::
  "(string \<times> sighting_ids) list \<Rightarrow> (string \<times> checkpoint_batch) list \<Rightarrow> active_sighting list \<Rightarrow>
     database \<Rightarrow> database result" where
  "write_batches opened batches [] db = Inr db"
| "write_batches opened batches (s # ss) db = (case map_of batches (sg_icao s) of
       None \<Rightarrow> write_batches opened batches ss db
     | Some batch \<Rightarrow> bindE (resolved opened s) (\<lambda>ids.
         write_batches opened batches ss (append_checkpoints (snd ids) (cb_rows batch) db)))"

fun write_events ::
  "(string \<times> sighting_ids) list \<Rightarrow> (string \<times> pending_event list) list \<Rightarrow> active_sighting list \<Rightarrow>
     database \<Rightarrow> database result" where
  "write_events opened queued [] db = Inr db"
| "write_events opened queued (s # ss) db = (case map_of queued (sg_icao s) of
       None \<Rightarrow> write_events opened queued ss db
     | Some events \<Rightarrow> bindE (resolved opened s) (\<lambda>ids.
         write_events opened queued ss (append_events (snd ids) events db)))"

fun write_closes ::
  "(string \<times> sighting_ids) list \<Rightarrow> active_sighting list \<Rightarrow> database \<Rightarrow> ((nat \<times> nat) list \<times> database) result" where
  "write_closes opened [] db = Inr ([], db)"
| "write_closes opened (s # ss) db =
     bindE (resolved opened s) (\<lambda>ids.
     bindE (close_sighting ids s (sg_closure_reason s) db) (\<lambda>(track, db1).
     bindE (write_closes opened ss db1) (\<lambda>(tracks, db2). Inr (track # tracks, db2))))"

text \<open>The accumulators a plan names, as they are when the statements are issued.\<close>

definition named :: "worker \<Rightarrow> string list \<Rightarrow> active_sighting list" where
  "named w icaos = List.map_filter (\<lambda>icao. sighting_for icao w) icaos"

definition write_cycle ::
  "cycle_plan \<Rightarrow> worker \<Rightarrow> database \<Rightarrow> ((string \<times> sighting_ids) list \<times> (nat \<times> nat) list \<times> database) result" where
  "write_cycle p w db =
     (let (opened, db1) = write_opens (named w (cp_opens p)) db
      in bindE (write_flushes (named w (cp_flushes p)) db1) (\<lambda>db2.
         bindE (write_batches opened (cp_batches p) (named w (cp_opens p @ cp_flushes p)) db2) (\<lambda>db3.
         bindE (write_events opened (cp_queued p) (worker_accumulators w) db3) (\<lambda>db4.
         bindE (write_closes opened (named w (cp_due p)) db4) (\<lambda>(tracks, db5).
         Inr (opened, tracks, db5))))))"

definition finish_one :: "cycle_plan \<Rightarrow> (string \<times> sighting_ids) list \<Rightarrow> active_sighting \<Rightarrow> active_sighting" where
  "finish_one p opened s =
     (let icao = sg_icao s;
          s1 = (case map_of opened icao of
              None \<Rightarrow> s
            | Some (aircraft_id, sighting_id) \<Rightarrow> mark_flushed (cp_now_ms p)
                (s\<lparr>sg_aircraft_id := Some aircraft_id, sg_sighting_id := Some sighting_id\<rparr>));
          s2 = (if icao \<in> set (cp_flushes p) then mark_flushed (cp_now_ms p) s1 else s1);
          s3 = (case map_of (cp_batches p) icao of None \<Rightarrow> s2 | Some batch \<Rightarrow> mark_checkpointed batch s2)
      in mark_events_written
           (case map_of (cp_queued p) icao of None \<Rightarrow> 0 | Some events \<Rightarrow> length events) s3)"

definition finish_all :: "cycle_plan \<Rightarrow> (string \<times> sighting_ids) list \<Rightarrow> worker \<Rightarrow> worker" where
  "finish_all p opened w =
     w\<lparr>pw_active := map (apsnd (finish_one p opened)) (pw_active w),
       pw_pending := map (apsnd (finish_one p opened)) (pw_pending w)\<rparr>"

definition pop_due :: "cycle_plan \<Rightarrow> worker \<Rightarrow> worker" where
  "pop_due p w = w\<lparr>pw_pending := fold AList.delete (cp_due p) (pw_pending w)\<rparr>"

fun reference :: "bool \<Rightarrow> active_sighting \<Rightarrow> sighting_ref list" where
  "reference ended s = (case ids_of s of
       Inl _ \<Rightarrow> []
     | Inr (aircraft_id, sighting_id) \<Rightarrow>
         [\<lparr>sf_icao = sg_icao s, sf_aircraft_id = aircraft_id, sf_sighting_id = sighting_id,
           sf_started_ms = sg_started_ms s,
           sf_ended_ms = (if ended then Some (sg_last_seen_ms s) else None)\<rparr>])"

text \<open>\<^verbatim>\<open>MetaRepository.set_t0_once\<close>: an insert that does nothing on a conflict.\<close>

definition set_t0_once :: "int \<Rightarrow> int option \<Rightarrow> (int option \<times> bool) result" where
  "set_t0_once t0_ms stored =
     (if t0_ms \<le> 0 then Inl ValueError
      else Inr (case stored of None \<Rightarrow> (Some t0_ms, True) | Some _ \<Rightarrow> (stored, False)))"

text \<open>Whether the call returned is the last component; it raises when its own transaction does.\<close>

definition establish_t0 :: "bool \<Rightarrow> active_sighting list \<Rightarrow> worker \<Rightarrow> int option \<Rightarrow> worker \<times> int option \<times> bool" where
  "establish_t0 commits opens w stored =
     (if pw_t0_established w \<or> opens = [] then (w, stored, True)
      else if \<not> commits then (w, stored, False)
      else (case set_t0_once (Min (set (map sg_started_ms opens))) stored of
              Inl _ \<Rightarrow> (w, stored, False)
            | Inr (stored', _) \<Rightarrow> (w\<lparr>pw_t0_established := True\<rparr>, stored', True)))"

record cycle_outcome =
  co_worker :: worker
  co_storage :: storage
  co_result :: "cycle_result option"
  co_notified :: "(nat \<times> sighting_lifecycle) list"

definition transaction :: "bool \<Rightarrow> 'a result \<Rightarrow> 'a option" where
  "transaction commits body = (case body of Inl _ \<Rightarrow> None | Inr x \<Rightarrow> if commits then Some x else None)"

text \<open>No result: the cycle raised out of \<^verbatim>\<open>_establish_t0\<close>, after everything else was done.\<close>

definition commit_cycle :: "cycle_env \<Rightarrow> worker \<Rightarrow> storage \<Rightarrow> cycle_outcome" where
  "commit_cycle env w st =
     (let p = plan_cycle (ce_now_ms env) (ce_force env) w
      in if nothing_to_do p
         then \<lparr>co_worker = w, co_storage = st, co_result = Some no_result, co_notified = []\<rparr>
         else let w1 = fold seam_step (ce_before env) w;
                  w2 = fold seam_step (ce_during env) w1
              in case transaction (ce_commits env) (write_cycle p w1 (st_db st)) of
                   None \<Rightarrow> \<lparr>co_worker = w2\<lparr>pw_db_errors := Suc (pw_db_errors w2)\<rparr>, co_storage = st,
                             co_result = Some (no_result\<lparr>cr_failed := True\<rparr>), co_notified = []\<rparr>
                 | Some (opened, tracks, db) \<Rightarrow>
                     let w3 = finish_all p opened w2;
                         opens = named w3 (cp_opens p);
                         due = named w3 (cp_due p);
                         w4 = pop_due p w3;
                         event = \<lparr>sl_at_ms = cp_now_ms p,
                                  sl_opened = concat (map (reference False) opens),
                                  sl_closed = concat (map (reference True) due)\<rparr>;
                         (w5, t0, returned) = establish_t0 (ce_meta_commits env) opens w4 (st_t0 st)
                     in \<lparr>co_worker = w5, co_storage = \<lparr>st_db = db, st_t0 = t0\<rparr>,
                         co_result = (if returned then Some (no_result
                             \<lparr>cr_opened := length (cp_opens p), cr_flushed := length (cp_flushes p),
                              cr_closed := length (cp_due p),
                              cr_checkpointed := sum_list (map (length \<circ> cb_rows \<circ> snd) (cp_batches p)),
                              cr_emitted := sum_list (map (length \<circ> snd) (cp_queued p)),
                              cr_track_points := sum_list (map fst tracks)\<rparr>) else None),
                         co_notified = notify_lifecycle event w4\<rparr>)"

definition process_pending :: "cycle_env \<Rightarrow> live_aircraft list \<Rightarrow> worker \<Rightarrow> storage \<Rightarrow> cycle_outcome" where
  "process_pending env live w st = (case pw_subscription w of
       None \<Rightarrow> \<lparr>co_worker = w, co_storage = st, co_result = Some no_result, co_notified = []\<rparr>
     | Some sub \<Rightarrow>
         (let (sub1, events) = drain sub;
              w1 = fold handle events (w\<lparr>pw_subscription := Some sub1\<rparr>);
              w2 = (if sub_overflowed sub1 then resync live sub1 w1 else w1);
              outcome = commit_cycle env w2 st
          in outcome\<lparr>co_result := map_option (\<lambda>r. r\<lparr>cr_events := length events,
                cr_resynced := sub_overflowed sub1\<rparr>) (co_result outcome)\<rparr>))"

section \<open>Start and stop\<close>

definition adopt :: "active_sighting \<Rightarrow> worker \<Rightarrow> worker" where
  "adopt s w = w\<lparr>pw_pending := AList.update (sg_icao s) s (pw_pending w)\<rparr>"

definition start_worker ::
  "(nat \<Rightarrow> bool) \<Rightarrow> int \<Rightarrow> live_event subscription \<Rightarrow> worker \<Rightarrow> storage \<Rightarrow> worker \<times> storage" where
  "start_worker commits now_ms sub w st =
     (case run_recovery commits (pw_close_ms w) DEFAULT_RECOVERY_BATCH now_ms (st_db st) of
        (report, adopted, db) \<Rightarrow>
          (fold adopt adopted (w\<lparr>pw_subscription := Some sub, pw_t0_established := st_t0 st \<noteq> None,
                                 pw_recovery := report\<rparr>),
           st\<lparr>st_db := db\<rparr>))"

text \<open>The drain task is gone by then; the subscription is closed after the last cycle.\<close>

definition stop_worker :: "cycle_env \<Rightarrow> live_aircraft list \<Rightarrow> worker \<Rightarrow> storage \<Rightarrow> cycle_outcome" where
  "stop_worker env live w st =
     (let outcome = process_pending (env\<lparr>ce_force := True\<rparr>) live w st
      in outcome\<lparr>co_worker := (co_worker outcome)\<lparr>pw_subscription := None\<rparr>\<rparr>)"

section \<open>What an operation leaves of a sighting's identity\<close>

definition identity_view where
  "identity_view s = (sg_icao s, sg_started_ms s, sg_aircraft_id s, sg_sighting_id s,
     sg_checkpoint_seq s, sg_close_deadline_ms s, sg_closure_reason s)"

lemma identity_emergency [simp]: "identity_view (observe_emergency q d t s) = identity_view s"
  by (simp add: observe_emergency_def emit_def Let_def identity_view_def split: option.split prod.split)

lemma identity_callsign [simp]: "identity_view (observe_callsign c t s) = identity_view s"
  by (simp add: observe_callsign_def emit_def Let_def identity_view_def)

lemma identity_squawk [simp]: "identity_view (observe_squawk c t s) = identity_view s"
  by (simp add: observe_squawk_def emit_def Let_def identity_view_def)

lemma identity_context [simp]: "identity_view (observe_flight_context r t s) = identity_view s"
  by (simp add: observe_flight_context_def)

lemma identity_character [simp]: "identity_view (observe_position_character r s) = identity_view s"
  by (simp add: observe_position_character_def identity_view_def)

lemma identity_extremes [simp]: "identity_view (observe_extremes r t s) = identity_view s"
  by (simp add: observe_extremes_def Let_def identity_view_def split: option.split)

lemma identity_reception [simp]: "identity_view (observe_reception r t s) = identity_view s"
  by (simp add: observe_reception_def Let_def identity_view_def split: option.split)

lemma identity_harvest [simp]: "identity_view (harvest_track r s) = identity_view s"
proof -
  have "identity_view (harvest_loop ps s) = identity_view s" for ps
    by (induction ps s rule: harvest_loop.induct)
       (simp_all add: Let_def append_pending_def identity_view_def split: option.split)
  then show ?thesis by (simp add: harvest_track_def)
qed

lemma identity_updates [simp]:
  "identity_view (s\<lparr>sg_last_seen_ms := m\<rparr>) = identity_view s"
  "identity_view (s\<lparr>sg_emitter_category := c\<rparr>) = identity_view s"
  "identity_view (s\<lparr>sg_stats_ms := x\<rparr>) = identity_view s"
  "identity_view (s\<lparr>sg_dirty := b\<rparr>) = identity_view s"
  by (simp_all add: identity_view_def)

lemma observe_identity: "identity_view (observe record s) = identity_view s"
  by (simp add: observe_def Let_def split: option.split)

lemma observe_last_seen:
  "sg_last_seen_ms (observe record s) = max (sg_last_seen_ms s) (to_epoch_ms (la_last_seen record))"
  by (simp add: observe_def Let_def split: option.split)

lemma identity_fields:
  "identity_view s = identity_view s' \<Longrightarrow>
     sg_icao s = sg_icao s' \<and> sg_started_ms s = sg_started_ms s' \<and> sg_aircraft_id s = sg_aircraft_id s' \<and>
     sg_sighting_id s = sg_sighting_id s' \<and> sg_checkpoint_seq s = sg_checkpoint_seq s' \<and>
     sg_close_deadline_ms s = sg_close_deadline_ms s' \<and> sg_closure_reason s = sg_closure_reason s'"
  by (simp add: identity_view_def)

lemmas observe_fields [simp] = identity_fields [OF observe_identity]

lemma open_from_fields [simp]:
  "sg_icao (open_from record) = la_icao record"
  "sg_close_deadline_ms (open_from record) = None"
  "sg_sighting_id (open_from record) = None"
  "sg_aircraft_id (open_from record) = None"
  "sg_checkpoint_seq (open_from record) = 0"
  "sg_started_ms (open_from record) = to_epoch_ms (la_first_seen record)"
  by (simp_all add: open_from_def new_sighting_def)

text \<open>What a call from another task does: some accumulator may change, in what it may change.\<close>

definition seam_change :: "active_sighting \<Rightarrow> active_sighting \<Rightarrow> bool" where
  "seam_change s s' \<longleftrightarrow> identity_view s' = identity_view s \<and> track_view s' = track_view s \<and>
     sg_last_seen_ms s' = sg_last_seen_ms s \<and> (\<exists>new. sg_pending_events s' = sg_pending_events s @ new)"

lemma seam_change_refl [simp]: "seam_change s s"
  by (simp add: seam_change_def)

lemma seam_change_trans: "seam_change s s' \<Longrightarrow> seam_change s' s'' \<Longrightarrow> seam_change s s''"
  by (auto simp: seam_change_def)

lemma seam_change_route: "apply_route route t s = (s', b) \<Longrightarrow> seam_change s s'"
  by (auto simp: apply_route_def seam_change_def identity_view_def track_view_def touch_def emit_def
      split: if_splits)

lemma seam_change_airport: "apply_inferred_airport inferred t s = (s', b) \<Longrightarrow> seam_change s s'"
  by (auto simp: apply_inferred_airport_def seam_change_def identity_view_def track_view_def touch_def
      Let_def split: if_splits)

lemma seam_change_severity: "apply_alert_severity severity reason t s = Inr (s', b) \<Longrightarrow> seam_change s s'"
  by (auto simp: apply_alert_severity_def seam_change_def identity_view_def track_view_def touch_def
      emit_def Let_def bindE_Inr_iff split: if_splits option.splits)

lemma seam_step_cases:
  "seam_step c w = w \<or>
     (\<exists>icao s s'. sighting_for icao w = Some s \<and> seam_change s s' \<and> seam_step c w = put_sighting icao s' w)"
proof (cases c)
  case (RouteCall icao route t)
  then show ?thesis
    by (auto simp: worker_apply_route_def split: option.splits prod.splits intro: seam_change_route)
next
  case (AirportCall icao inferred t)
  then show ?thesis
    by (auto simp: worker_apply_inferred_airport_def split: option.splits prod.splits
        intro: seam_change_airport)
next
  case (SeverityCall icao severity reason t)
  then show ?thesis
    by (auto simp: worker_apply_alert_severity_def bindE_Inr_iff split: option.splits sum.splits prod.splits
        intro: seam_change_severity)
qed

end
