(* ===== verification/WorkerLifecycle.thy ===== *)
theory WorkerLifecycle
  imports Worker
begin

text \<open>
  The life of a sighting inside the worker: one accumulator per aircraft, continued inside the
  closure gap and closed when the gap has run out. The lemmas follow \<^verbatim>\<open>sightings/worker.py\<close> method
  by method; the relation \<open>worker_step\<close> lets deliveries, calls from other tasks and cycles
  interleave in any order.
\<close>

section \<open>Dictionaries of accumulators\<close>

definition dict_ok :: "(active_sighting \<Rightarrow> bool) \<Rightarrow> accumulators \<Rightarrow> bool" where
  "dict_ok P al \<longleftrightarrow> distinct (map fst al) \<and> (\<forall>(k, s) \<in> set al. k = sg_icao s \<and> P s)"

lemma dict_ok_Nil [simp]: "dict_ok P []"
  by (simp add: dict_ok_def)

lemma dict_ok_update:
  "dict_ok P al \<Longrightarrow> sg_icao s = k \<Longrightarrow> P s \<Longrightarrow> dict_ok P (AList.update k s al)"
  by (auto simp: dict_ok_def dict_set_update distinct_update)

lemma dict_ok_delete: "dict_ok P al \<Longrightarrow> dict_ok P (AList.delete k al)"
  by (auto simp: dict_ok_def dict_set_delete distinct_delete)

lemma dict_ok_deletes: "dict_ok P al \<Longrightarrow> dict_ok P (fold AList.delete ks al)"
  by (induction ks arbitrary: al) (simp_all add: dict_ok_delete)

lemma dict_ok_lookup: "dict_ok P al \<Longrightarrow> map_of al k = Some s \<Longrightarrow> sg_icao s = k \<and> P s"
  by (auto simp: dict_ok_def dest!: map_of_SomeD)

lemma dict_ok_map:
  assumes "dict_ok P al" "\<And>s. sg_icao (f s) = sg_icao s" "\<And>s. P s \<Longrightarrow> P (f s)"
  shows "dict_ok P (map (apsnd f) al)"
  using assms by (auto simp: dict_ok_def comp_def)

lemma map_of_apsnd: "map_of (map (apsnd f) al) k = map_option f (map_of al k)"
  by (induction al) auto

lemma map_of_deletes: "map_of (fold AList.delete ks al) k = (if k \<in> set ks then None else map_of al k)"
  by (induction ks arbitrary: al) (auto simp: dict_simps restrict_map_def)

section \<open>The invariant\<close>

definition armed :: "int \<Rightarrow> active_sighting \<Rightarrow> bool" where
  "armed close_ms s \<longleftrightarrow> sg_close_deadline_ms s = Some (sg_last_seen_ms s + close_ms)"

definition worker_inv :: "worker \<Rightarrow> bool" where
  "worker_inv w \<longleftrightarrow>
     dict_ok (\<lambda>s. sg_close_deadline_ms s = None) (pw_active w) \<and>
     dict_ok (armed (pw_close_ms w)) (pw_pending w) \<and>
     (\<forall>k. map_of (pw_active w) k = None \<or> map_of (pw_pending w) k = None)"

lemma inv_sighting_for: "worker_inv w \<Longrightarrow> sighting_for k w = Some s \<Longrightarrow> sg_icao s = k"
  by (auto simp: worker_inv_def sighting_for_def dest: dict_ok_lookup split: option.splits)

lemma inv_disjoint:
  "worker_inv w \<Longrightarrow> map_of (pw_active w) k = Some s \<Longrightarrow> map_of (pw_pending w) k = None"
  unfolding worker_inv_def by (metis option.distinct(1))

lemma inv_observe: "worker_inv w \<Longrightarrow> worker_inv (worker_observe record w)"
  unfolding worker_inv_def worker_observe_def Let_def
  by (auto split: option.split intro!: dict_ok_update dict_ok_delete dest: dict_ok_lookup
      simp: dict_simps restrict_map_def)

lemma inv_arm: "worker_inv w \<Longrightarrow> worker_inv (arm_closure record w)"
  unfolding arm_closure_def Let_def
  using inv_sighting_for [of w "la_icao record"] unfolding worker_inv_def
  by (auto split: option.split intro!: dict_ok_update dict_ok_delete
      simp: armed_def dict_simps restrict_map_def)

lemma inv_strand: "worker_inv w \<Longrightarrow> worker_inv (strand icao w)"
  unfolding worker_inv_def strand_def
  by (auto split: option.split intro!: dict_ok_update dict_ok_delete dest: dict_ok_lookup
      simp: armed_def dict_simps restrict_map_def)

lemma inv_handle: "worker_inv w \<Longrightarrow> worker_inv (handle event w)"
  by (cases event) (simp_all add: inv_observe inv_arm)

lemma inv_subscription [simp]: "worker_inv (w\<lparr>pw_subscription := sub\<rparr>) = worker_inv w"
  by (simp add: worker_inv_def)

lemma inv_fold: "(\<And>x w. worker_inv w \<Longrightarrow> worker_inv (f x w)) \<Longrightarrow> worker_inv w \<Longrightarrow> worker_inv (fold f xs w)"
  by (induction xs arbitrary: w) simp_all

lemma inv_resync: "worker_inv w \<Longrightarrow> worker_inv (resync live sub w)"
  by (simp add: resync_def Let_def inv_fold inv_strand inv_observe)

lemma inv_put:
  assumes "worker_inv w" "sighting_for icao w = Some s" "seam_change s s'"
  shows "worker_inv (put_sighting icao s' w)"
proof -
  have "sg_icao s' = icao" "sg_close_deadline_ms s' = sg_close_deadline_ms s"
    "sg_last_seen_ms s' = sg_last_seen_ms s"
    using inv_sighting_for [OF assms(1,2)] assms(3) identity_fields [of s' s] by (auto simp: seam_change_def)
  with assms(1,2) inv_disjoint [OF assms(1), of icao] show ?thesis
    unfolding worker_inv_def put_sighting_def sighting_for_def
    by (auto split: option.splits intro!: dict_ok_update dest: dict_ok_lookup
        simp: armed_def dict_simps)
qed

lemma inv_seam: "worker_inv w \<Longrightarrow> worker_inv (seam_step c w)"
  using seam_step_cases [of c w] by (auto intro: inv_put)

lemma finish_one_fields [simp]:
  "sg_icao (finish_one p opened s) = sg_icao s"
  "sg_started_ms (finish_one p opened s) = sg_started_ms s"
  "sg_last_seen_ms (finish_one p opened s) = sg_last_seen_ms s"
  "sg_close_deadline_ms (finish_one p opened s) = sg_close_deadline_ms s"
  by (simp_all add: finish_one_def Let_def mark_events_written_def mark_checkpointed_def mark_flushed_def
      split: option.split prod.split)

lemma inv_finish: "worker_inv w \<Longrightarrow> worker_inv (finish_all p opened w)"
  unfolding worker_inv_def finish_all_def
  by (auto intro!: dict_ok_map simp: armed_def map_of_apsnd)

lemma inv_pop: "worker_inv w \<Longrightarrow> worker_inv (pop_due p w)"
  unfolding worker_inv_def pop_due_def by (auto simp: dict_ok_deletes map_of_deletes)

lemma sighting_for_flags [simp]:
  "sighting_for k (w\<lparr>pw_subscription := sub\<rparr>) = sighting_for k w"
  "sighting_for k (w\<lparr>pw_t0_established := b\<rparr>) = sighting_for k w"
  "sighting_for k (w\<lparr>pw_db_errors := n\<rparr>) = sighting_for k w"
  by (simp_all add: sighting_for_def split: option.split)

lemma inv_flags [simp]:
  "worker_inv (w\<lparr>pw_t0_established := b\<rparr>) = worker_inv w"
  "worker_inv (w\<lparr>pw_db_errors := n\<rparr>) = worker_inv w"
  "worker_inv (w\<lparr>pw_recovery := r\<rparr>) = worker_inv w"
  "worker_inv (w\<lparr>pw_listeners := ls\<rparr>) = worker_inv w"
  by (simp_all add: worker_inv_def)


section \<open>A cycle, taken apart\<close>

lemma establish_t0_worker:
  "establish_t0 commits opens w stored = (w', t0, returned) \<Longrightarrow>
     w' = w \<or> w' = w\<lparr>pw_t0_established := True\<rparr>"
  by (auto simp: establish_t0_def split: if_splits sum.splits)

definition cycle_failed :: "cycle_outcome \<Rightarrow> bool" where
  "cycle_failed co = (case co_result co of None \<Rightarrow> False | Some r \<Rightarrow> cr_failed r)"

lemma commit_cycle_cases [consumes 1, case_names idle failed written]:
  assumes "commit_cycle env w st = co"
  obtains
    (idle) "nothing_to_do (plan_cycle (ce_now_ms env) (ce_force env) w)"
      "co = \<lparr>co_worker = w, co_storage = st, co_result = Some no_result, co_notified = []\<rparr>"
  | (failed) w2 where "w2 = fold seam_step (ce_during env) (fold seam_step (ce_before env) w)"
      "co = \<lparr>co_worker = w2\<lparr>pw_db_errors := Suc (pw_db_errors w2)\<rparr>, co_storage = st,
             co_result = Some (no_result\<lparr>cr_failed := True\<rparr>), co_notified = []\<rparr>"
  | (written) p w1 w3 opened tracks db w5 t0 returned where
      "p = plan_cycle (ce_now_ms env) (ce_force env) w" "w1 = fold seam_step (ce_before env) w"
      "write_cycle p w1 (st_db st) = Inr (opened, tracks, db)"
      "w3 = finish_all p opened (fold seam_step (ce_during env) w1)"
      "establish_t0 (ce_meta_commits env) (named w3 (cp_opens p)) (pop_due p w3) (st_t0 st) = (w5, t0, returned)"
      "co_worker co = w5" "co_storage co = \<lparr>st_db = db, st_t0 = t0\<rparr>"
      "co_notified co = notify_lifecycle
         \<lparr>sl_at_ms = cp_now_ms p, sl_opened = concat (map (reference False) (named w3 (cp_opens p))),
          sl_closed = concat (map (reference True) (named w3 (cp_due p)))\<rparr> (pop_due p w3)"
      "\<not> cycle_failed co"
proof (cases "nothing_to_do (plan_cycle (ce_now_ms env) (ce_force env) w)")
  case True
  with assms show ?thesis by (intro idle) (simp_all add: commit_cycle_def Let_def)
next
  case False
  let ?p = "plan_cycle (ce_now_ms env) (ce_force env) w"
  let ?w1 = "fold seam_step (ce_before env) w"
  show ?thesis
  proof (cases "transaction (ce_commits env) (write_cycle ?p ?w1 (st_db st))")
    case None
    with False assms show ?thesis by (intro failed [OF refl]) (simp add: commit_cycle_def Let_def)
  next
    case (Some x)
    obtain opened tracks db where x: "x = (opened, tracks, db)" by (cases x)
    from Some x have "write_cycle ?p ?w1 (st_db st) = Inr (opened, tracks, db)"
      by (auto simp: transaction_def split: sum.splits if_splits)
    moreover obtain w5 t0 returned where
      "establish_t0 (ce_meta_commits env)
        (named (finish_all ?p opened (fold seam_step (ce_during env) ?w1)) (cp_opens ?p))
        (pop_due ?p (finish_all ?p opened (fold seam_step (ce_during env) ?w1))) (st_t0 st) = (w5, t0, returned)"
      by (metis prod_cases3)
    ultimately show ?thesis
      using False assms Some x
      by (intro written [OF refl refl _ refl, of opened tracks db w5 t0 returned])
         (auto simp: commit_cycle_def Let_def cycle_failed_def no_result_def split: if_splits)
  qed
qed

lemma inv_commit: "worker_inv w \<Longrightarrow> worker_inv (co_worker (commit_cycle env w st))"
  using refl [of "commit_cycle env w st"]
proof (cases rule: commit_cycle_cases)
  case (written p w1 w3 opened tracks db w5 t0 returned)
  assume "worker_inv w"
  then have "worker_inv (pop_due p w3)"
    by (simp add: written inv_pop inv_finish inv_fold inv_seam)
  with establish_t0_worker [OF written(5)] written(6) show ?thesis by auto
qed (auto simp: inv_fold inv_seam)

lemma inv_process: "worker_inv w \<Longrightarrow> worker_inv (co_worker (process_pending env live w st))"
  unfolding process_pending_def Let_def
  by (auto split: option.split prod.split intro!: inv_commit inv_resync inv_fold [of handle] inv_handle)


section \<open>Starting\<close>

lemma inv_adopt: "worker_inv w \<Longrightarrow> pw_active w = [] \<Longrightarrow> armed (pw_close_ms w) s \<Longrightarrow> worker_inv (adopt s w)"
  by (auto simp: worker_inv_def adopt_def intro!: dict_ok_update)

lemma adopt_fields [simp]:
  "pw_active (adopt s w) = pw_active w" "pw_close_ms (adopt s w) = pw_close_ms w"
  by (simp_all add: adopt_def)

lemma inv_adopts:
  "worker_inv w \<Longrightarrow> pw_active w = [] \<Longrightarrow> \<forall>s \<in> set ss. armed (pw_close_ms w) s \<Longrightarrow>
     worker_inv (fold adopt ss w)"
  by (induction ss arbitrary: w) (auto simp: inv_adopt)

lemma recovered_armed:
  assumes "run_recovery commits close_ms batch_size now_ms db = (report, pending, db')" "0 < batch_size"
    and "s \<in> set pending"
  shows "armed close_ms s"
proof -
  from run_recovery_parts [OF assms(1,2)] obtain rows stale failed where
    "recovery_parts commits close_ms batch_size now_ms db report pending db' rows stale failed" by blast
  then have "pending = map (continuing close_ms) (filter (\<lambda>r. \<not> stale r) rows) @ map (retrying close_ms) failed"
    by (simp add: recovery_parts_def)
  with assms(3) show ?thesis
    by (auto simp: armed_def continuing_def retrying_def Let_def)
qed

lemma inv_start:
  assumes "worker_inv w" "pw_active w = []" "start_worker commits now_ms sub w st = (w', st')"
  shows "worker_inv w'"
proof -
  obtain report pending db where
    run: "run_recovery commits (pw_close_ms w) DEFAULT_RECOVERY_BATCH now_ms (st_db st) = (report, pending, db)"
    by (metis prod_cases3)
  have "\<forall>s \<in> set pending. armed (pw_close_ms w) s"
    using recovered_armed [OF run] by (simp add: DEFAULT_RECOVERY_BATCH_def)
  with assms run show ?thesis
    by (auto simp: start_worker_def intro!: inv_adopts)
qed

lemma inv_new: "new_worker c f t q = Inr w \<Longrightarrow> worker_inv w \<and> pw_active w = []"
  by (auto simp: new_worker_def worker_inv_def split: if_splits)

section \<open>Interleavings\<close>

text \<open>
  What can happen to a running worker: the live store delivers an event into its queue, another
  task calls a seam, a listener comes or goes, the drain task runs a cycle.
\<close>

inductive worker_step :: "worker \<times> storage \<Rightarrow> worker \<times> storage \<Rightarrow> bool" where
  delivered: "pw_subscription w = Some sub \<Longrightarrow>
     worker_step (w, st) (w\<lparr>pw_subscription := Some (fst (deliver event sub))\<rparr>, st)"
| called: "worker_step (w, st) (seam_step c w, st)"
| listening: "worker_step (w, st) (subscribe_lifecycle listener w, st)"
| unlistening: "worker_step (w, st) (unsubscribe_lifecycle listener w, st)"
| cycled: "process_pending env live w st = co \<Longrightarrow> worker_step (w, st) (co_worker co, co_storage co)"

inductive_cases worker_stepE: "worker_step (w, st) (w', st')"

lemma inv_step: "worker_step (w, st) (w', st') \<Longrightarrow> worker_inv w \<Longrightarrow> worker_inv w'"
  by (auto elim!: worker_stepE simp: inv_seam inv_process subscribe_lifecycle_def unsubscribe_lifecycle_def)

lemma inv_run: "worker_step\<^sup>*\<^sup>* c c' \<Longrightarrow> worker_inv (fst c) \<Longrightarrow> worker_inv (fst c')"
  by (induction rule: rtranclp_induct) (auto simp: inv_step)

lemma dict_icaos: "dict_ok P al \<Longrightarrow> map sg_icao (map snd al) = map fst al"
  by (auto simp: dict_ok_def)

lemma inv_icaos:
  assumes "worker_inv w"
  shows "distinct (map sg_icao (worker_accumulators w))"
proof -
  have dicts: "distinct (map fst (pw_active w))" "distinct (map fst (pw_pending w))"
    using assms by (simp_all add: worker_inv_def dict_ok_def)
  have keys: "map sg_icao (map snd (pw_active w)) = map fst (pw_active w)"
    "map sg_icao (map snd (pw_pending w)) = map fst (pw_pending w)"
    using assms dict_icaos unfolding worker_inv_def by blast+
  have "set (map fst (pw_active w)) \<inter> set (map fst (pw_pending w)) = {}"
    using assms unfolding worker_inv_def map_of_eq_None_iff by fastforce
  with dicts show ?thesis
    unfolding worker_accumulators_def map_append keys by simp
qed

section \<open>Continuity\<close>

definition kept :: "active_sighting \<Rightarrow> active_sighting \<Rightarrow> bool" where
  "kept s s' \<longleftrightarrow> sg_icao s' = sg_icao s \<and> sg_started_ms s' = sg_started_ms s \<and>
     sg_aircraft_id s' = sg_aircraft_id s \<and> sg_sighting_id s' = sg_sighting_id s \<and>
     sg_last_seen_ms s \<le> sg_last_seen_ms s'"

definition continues :: "worker \<Rightarrow> worker \<Rightarrow> bool" where
  "continues w w' \<longleftrightarrow> worker_inv w' \<and>
     (\<forall>k s. sighting_for k w = Some s \<longrightarrow> (\<exists>s'. sighting_for k w' = Some s' \<and> kept s s'))"

lemma kept_refl [simp]: "kept s s"
  by (simp add: kept_def)

lemma kept_observe [simp]: "kept s (observe record s)"
  by (simp add: kept_def observe_last_seen)

lemma kept_trans: "kept s s' \<Longrightarrow> kept s' s'' \<Longrightarrow> kept s s''"
  by (auto simp: kept_def)

lemma kept_rearm [simp]:
  "kept s (s'\<lparr>sg_close_deadline_ms := d\<rparr>) = kept s s'"
  "kept s (s'\<lparr>sg_flush_immediately := b\<rparr>) = kept s s'"
  "kept (s\<lparr>sg_close_deadline_ms := d\<rparr>) s' = kept s s'"
  "kept (s\<lparr>sg_closure_reason := r\<rparr>) s' = kept s s'"
  by (simp_all add: kept_def)

lemma kept_resumed [simp]:
  "kept s (observe r (s\<lparr>sg_close_deadline_ms := d, sg_closure_reason := c\<rparr>))"
  by (simp add: kept_def observe_last_seen)

lemma continues_inv: "continues w w' \<Longrightarrow> worker_inv w'"
  by (simp only: continues_def)

lemma continues_refl: "worker_inv w \<Longrightarrow> continues w w"
  by (auto simp: continues_def)

lemma continues_trans: "continues w w' \<Longrightarrow> continues w' w'' \<Longrightarrow> continues w w''"
  unfolding continues_def by (metis kept_trans)

lemma continues_observe: "worker_inv w \<Longrightarrow> continues w (worker_observe record w)"
  unfolding continues_def
proof (intro conjI allI impI)
  fix k s
  assume "worker_inv w" and s: "sighting_for k w = Some s"
  then show "\<exists>s'. sighting_for k (worker_observe record w) = Some s' \<and> kept s s'"
    unfolding worker_observe_def sighting_for_def Let_def
    by (auto split: option.splits simp: dict_simps restrict_map_def kept_resumed)
qed (rule inv_observe)

lemma continues_arm: "worker_inv w \<Longrightarrow> continues w (arm_closure record w)"
  unfolding continues_def
proof (intro conjI allI impI)
  fix k s
  assume "worker_inv w" and s: "sighting_for k w = Some s"
  then show "\<exists>s'. sighting_for k (arm_closure record w) = Some s' \<and> kept s s'"
    unfolding arm_closure_def sighting_for_def Let_def
    by (auto split: option.splits simp: dict_simps restrict_map_def)
qed (rule inv_arm)

lemma continues_strand: "worker_inv w \<Longrightarrow> continues w (strand icao w)"
  unfolding continues_def
proof (intro conjI allI impI)
  fix k s
  assume "worker_inv w" and s: "sighting_for k w = Some s"
  then show "\<exists>s'. sighting_for k (strand icao w) = Some s' \<and> kept s s'"
    unfolding strand_def sighting_for_def
    by (auto split: option.splits simp: dict_simps restrict_map_def)
qed (rule inv_strand)

lemma continues_handle: "worker_inv w \<Longrightarrow> continues w (handle event w)"
  by (cases event) (simp_all add: continues_observe continues_arm continues_refl)

lemma continues_fold:
  assumes "\<And>x w. worker_inv w \<Longrightarrow> continues w (f x w)"
  shows "worker_inv w \<Longrightarrow> continues w (fold f xs w)"
proof (induction xs arbitrary: w)
  case (Cons x xs)
  have "worker_inv (f x w)" using assms [OF Cons.prems] by (simp add: continues_def)
  with Cons assms [OF Cons.prems, of x] show ?case by (auto intro: continues_trans)
qed (simp add: continues_refl)

lemma continues_resync:
  assumes "worker_inv w"
  shows "continues w (resync live sub w)"
proof -
  have sub: "continues w (w'\<lparr>pw_subscription := x\<rparr>) = continues w w'" for w' x
    by (simp add: continues_def)
  let ?w1 = "fold worker_observe live w"
  have w1: "continues w ?w1"
    by (rule continues_fold [OF continues_observe assms])
  have "continues ?w1 (fold strand icaos ?w1)" for icaos
    by (rule continues_fold [OF continues_strand continues_inv [OF w1]])
  with w1 show ?thesis
    unfolding resync_def Let_def sub by (rule continues_trans)
qed


section \<open>Which sightings a cycle ends\<close>

lemma seam_domain [simp]:
  "map_of (pw_active (seam_step c w)) k = None \<longleftrightarrow> map_of (pw_active w) k = None"
  "map_of (pw_pending (seam_step c w)) k = None \<longleftrightarrow> map_of (pw_pending w) k = None"
proof -
  have "(map_of (pw_active (put_sighting icao s' w)) k = None \<longleftrightarrow> map_of (pw_active w) k = None) \<and>
      (map_of (pw_pending (put_sighting icao s' w)) k = None \<longleftrightarrow> map_of (pw_pending w) k = None)"
    if "sighting_for icao w = Some s" for icao s s'
    using that by (cases "map_of (pw_active w) icao") (auto simp: put_sighting_def sighting_for_def dict_simps)
  with seam_step_cases [of c w] show
    "map_of (pw_active (seam_step c w)) k = None \<longleftrightarrow> map_of (pw_active w) k = None"
    "map_of (pw_pending (seam_step c w)) k = None \<longleftrightarrow> map_of (pw_pending w) k = None"
    by metis+
qed

lemma seams_domain [simp]:
  "map_of (pw_active (fold seam_step cs w)) k = None \<longleftrightarrow> map_of (pw_active w) k = None"
  "map_of (pw_pending (fold seam_step cs w)) k = None \<longleftrightarrow> map_of (pw_pending w) k = None"
  by (induction cs arbitrary: w) simp_all

lemma unknown_iff:
  "sighting_for k w = None \<longleftrightarrow> map_of (pw_active w) k = None \<and> map_of (pw_pending w) k = None"
  by (cases "map_of (pw_active w) k") (simp_all add: sighting_for_def)

lemma seams_known [simp]: "sighting_for k (fold seam_step cs w) = None \<longleftrightarrow> sighting_for k w = None"
  by (simp add: unknown_iff)

lemma finish_lookup [simp]:
  "map_of (pw_active (finish_all p opened w)) k = map_option (finish_one p opened) (map_of (pw_active w) k)"
  "map_of (pw_pending (finish_all p opened w)) k = map_option (finish_one p opened) (map_of (pw_pending w) k)"
  by (simp_all add: finish_all_def map_of_apsnd)

lemma pop_lookup [simp]:
  "map_of (pw_active (pop_due p w)) k = map_of (pw_active w) k"
  "map_of (pw_pending (pop_due p w)) k = (if k \<in> set (cp_due p) then None else map_of (pw_pending w) k)"
  by (simp_all add: pop_due_def map_of_deletes)

lemma plan_fields:
  "cp_now_ms (plan_cycle now_ms force w) = now_ms"
  "cp_due (plan_cycle now_ms force w) = map sg_icao (filter (due_now now_ms) (map snd (pw_pending w)))"
  "cp_opens (plan_cycle now_ms force w) =
     map sg_icao (filter (\<lambda>s. sg_sighting_id s = None) (worker_accumulators w))"
  "cp_queued (plan_cycle now_ms force w) =
     map (\<lambda>s. (sg_icao s, take_events s)) (filter (\<lambda>s. sg_pending_events s \<noteq> []) (worker_accumulators w))"
  by (simp_all add: plan_cycle_def Let_def)

lemma plan_due:
  assumes "worker_inv w"
  shows "k \<in> set (cp_due (plan_cycle now_ms force w)) \<longleftrightarrow>
     (\<exists>s. map_of (pw_pending w) k = Some s \<and> sg_last_seen_ms s + pw_close_ms w \<le> now_ms)"
proof -
  have ok: "dict_ok (armed (pw_close_ms w)) (pw_pending w)"
    using assms by (simp add: worker_inv_def)
  then have keys: "sg_icao s = k" if "(k, s) \<in> set (pw_pending w)" for k s
    using that by (auto simp: dict_ok_def)
  have "k \<in> set (cp_due (plan_cycle now_ms force w)) \<longleftrightarrow>
      (\<exists>s. (k, s) \<in> set (pw_pending w) \<and> due_now now_ms s)"
  proof
    assume "k \<in> set (cp_due (plan_cycle now_ms force w))"
    then obtain k' s where "(k', s) \<in> set (pw_pending w)" "due_now now_ms s" "sg_icao s = k"
      by (auto simp: plan_fields)
    moreover from this keys have "k' = k" by simp
    ultimately show "\<exists>s. (k, s) \<in> set (pw_pending w) \<and> due_now now_ms s" by blast
  next
    assume "\<exists>s. (k, s) \<in> set (pw_pending w) \<and> due_now now_ms s"
    then obtain s where s: "(k, s) \<in> set (pw_pending w)" "due_now now_ms s" by blast
    then have "s \<in> set (filter (due_now now_ms) (map snd (pw_pending w)))" by force
    then have "sg_icao s \<in> set (cp_due (plan_cycle now_ms force w))"
      unfolding plan_fields by (simp only: set_map imageI)
    with keys [OF s(1)] show "k \<in> set (cp_due (plan_cycle now_ms force w))" by simp
  qed
  also have "\<dots> \<longleftrightarrow> (\<exists>s. map_of (pw_pending w) k = Some s \<and> due_now now_ms s)"
    using ok by (auto simp: dict_ok_def)
  also have "\<dots> \<longleftrightarrow> (\<exists>s. map_of (pw_pending w) k = Some s \<and> sg_last_seen_ms s + pw_close_ms w \<le> now_ms)"
    using dict_ok_lookup [OF ok] by (auto simp: due_now_def armed_def)
  finally show ?thesis .
qed

text \<open>
  Property C8. A sighting ends exactly when its gap has run out: a cycle that does not fail drops
  the sightings whose aircraft left the live set and was last heard the closure gap ago or longer,
  and no other, whatever other tasks push in meanwhile; a cycle that fails drops none.
\<close>

theorem gap_ends_sighting:
  assumes "worker_inv w" "commit_cycle env w st = co"
  shows "sighting_for k (co_worker co) = None \<longleftrightarrow> sighting_for k w = None \<or>
     \<not> cycle_failed co \<and> (\<exists>s. map_of (pw_pending w) k = Some s \<and> sg_last_seen_ms s + pw_close_ms w \<le> ce_now_ms env)"
  using assms(2)
proof (cases rule: commit_cycle_cases)
  case idle
  then have "k \<notin> set (cp_due (plan_cycle (ce_now_ms env) (ce_force env) w))"
    by (simp add: nothing_to_do_def)
  with idle(2) show ?thesis
    unfolding plan_due [OF assms(1)] by auto
next
  case (failed w2)
  then show ?thesis
    by (simp add: cycle_failed_def)
next
  case (written p w1 w3 opened tracks db w5 t0 returned)
  have due: "k \<in> set (cp_due p) \<longleftrightarrow> (\<exists>s. map_of (pw_pending w) k = Some s \<and>
      sg_last_seen_ms s + pw_close_ms w \<le> ce_now_ms env)"
    unfolding written(1) by (rule plan_due [OF assms(1)])
  have "sighting_for k (co_worker co) = sighting_for k (pop_due p w3)"
    using establish_t0_worker [OF written(5)] written(6) by auto
  then have "sighting_for k (co_worker co) = None \<longleftrightarrow> map_of (pw_active w) k = None \<and>
      (k \<in> set (cp_due p) \<or> map_of (pw_pending w) k = None)"
    by (simp add: unknown_iff written(2,4))
  moreover have "k \<in> set (cp_due p) \<Longrightarrow> map_of (pw_active w) k = None"
    using due inv_disjoint [OF assms(1), of k] by (cases "map_of (pw_active w) k") auto
  ultimately show ?thesis
    unfolding unknown_iff [of k w] due [symmetric] using written(9) by blast
qed

text \<open>
  Property C5. There is never more than one open sighting for an aircraft: after any start of a new
  worker and any interleaving of deliveries, calls from other tasks and cycles, no two accumulators
  share an address, those of live aircraft have no deadline and every other one is due exactly the
  closure gap after it was last heard.
\<close>

theorem one_sighting_per_aircraft:
  assumes "new_worker close_s flush_interval_s tick_s queue_size = Inr w0"
    and "start_worker commits now_ms sub w0 st0 = (w, st)"
    and "worker_step\<^sup>*\<^sup>* (w, st) (w', st')"
  shows "distinct (map sg_icao (worker_accumulators w')) \<and>
     (\<forall>s \<in> set (map snd (pw_active w')). sg_close_deadline_ms s = None) \<and>
     (\<forall>s \<in> set (map snd (pw_pending w')).
        sg_close_deadline_ms s = Some (sg_last_seen_ms s + pw_close_ms w'))"
proof -
  have "worker_inv w" using inv_new [OF assms(1)] inv_start [OF _ _ assms(2)] by blast
  then have inv: "worker_inv w'" using inv_run [OF assms(3)] by simp
  show ?thesis
    using inv_icaos [OF inv] inv unfolding worker_inv_def dict_ok_def armed_def by auto
qed

text \<open>
  Property C23. Events never restart a sighting: an open sighting survives any run of events and a
  resynchronisation after an overflow, with its start, its row and its last instant at least as late
  as before.
\<close>

theorem events_continue_sightings:
  assumes "worker_inv w" "sighting_for k w = Some s"
  shows "\<exists>s'. sighting_for k (fold handle events w) = Some s' \<and> kept s s' \<and>
     (\<exists>s''. sighting_for k (resync live sub (fold handle events w)) = Some s'' \<and> kept s s'')"
proof -
  have handled: "continues w (fold handle events w)"
    by (rule continues_fold [OF continues_handle assms(1)])
  from assms(2) handled obtain s' where s': "sighting_for k (fold handle events w) = Some s'" "kept s s'"
    unfolding continues_def by blast
  moreover from s' continues_resync [OF continues_inv [OF handled], of live sub]
  obtain s'' where "sighting_for k (resync live sub (fold handle events w)) = Some s''" "kept s' s''"
    unfolding continues_def by blast
  ultimately show ?thesis using kept_trans [OF s'(2)] by blast
qed

section \<open>Resynchronisation\<close>

lemma observe_active:
  "map_of (pw_active (worker_observe a w)) k = None \<longleftrightarrow> k \<noteq> la_icao a \<and> map_of (pw_active w) k = None"
  by (auto simp: worker_observe_def Let_def dict_simps split: option.split)

lemma observe_known:
  "sighting_for k (worker_observe a w) = None \<longleftrightarrow> k \<noteq> la_icao a \<and> sighting_for k w = None"
  by (auto simp: worker_observe_def sighting_for_def Let_def dict_simps restrict_map_def split: option.split)

lemma observes_active:
  "map_of (pw_active (fold worker_observe live w)) k = None \<longleftrightarrow>
     k \<notin> la_icao ` set live \<and> map_of (pw_active w) k = None"
  by (induction live arbitrary: w) (auto simp: observe_active)

lemma observes_known:
  "sighting_for k (fold worker_observe live w) = None \<longleftrightarrow>
     k \<notin> la_icao ` set live \<and> sighting_for k w = None"
  by (induction live arbitrary: w) (auto simp: observe_known)

lemma strand_active:
  "map_of (pw_active (strand icao w)) k = (if k = icao then None else map_of (pw_active w) k)"
  by (auto simp: strand_def dict_simps restrict_map_def split: option.split)

lemma strands_active:
  "map_of (pw_active (fold strand icaos w)) k = (if k \<in> set icaos then None else map_of (pw_active w) k)"
  by (induction icaos arbitrary: w) (auto simp: strand_active)

lemma strand_known: "sighting_for k (strand icao w) = None \<longleftrightarrow> sighting_for k w = None"
  by (auto simp: strand_def sighting_for_def dict_simps restrict_map_def split: option.split)

lemma strands_known: "sighting_for k (fold strand icaos w) = None \<longleftrightarrow> sighting_for k w = None"
  by (induction icaos arbitrary: w) (simp_all add: strand_known)

text \<open>
  After an overflow the worker agrees with the live set again: exactly the live
  aircraft have a running sighting, every other sighting the worker knew has its closure gap
  running, none is lost, and the overflow is acknowledged.
\<close>

theorem resync_matches_live_set:
  assumes "worker_inv w"
  shows "(map_of (pw_active (resync live sub w)) k = None \<longleftrightarrow> k \<notin> la_icao ` set live) \<and>
     (map_of (pw_pending (resync live sub w)) k = None \<longleftrightarrow>
        sighting_for k w = None \<or> k \<in> la_icao ` set live) \<and>
     pw_subscription (resync live sub w) = Some (fst (acknowledge_overflow sub))"
proof -
  let ?w1 = "fold worker_observe live w"
  have active: "map_of (pw_active (resync live sub w)) k = None \<longleftrightarrow> k \<notin> la_icao ` set live"
    using observes_active [of live w k] map_of_eq_None_iff [of "pw_active ?w1" k]
    by (auto simp: resync_def Let_def strands_active)
  have known: "sighting_for k (resync live sub w) = None \<longleftrightarrow>
      k \<notin> la_icao ` set live \<and> sighting_for k w = None"
    by (simp add: resync_def Let_def strands_known observes_known)
  have "worker_inv (resync live sub w)" by (rule inv_resync [OF assms])
  then have "map_of (pw_active (resync live sub w)) k = None \<or> map_of (pw_pending (resync live sub w)) k = None"
    by (simp add: worker_inv_def)
  moreover have "pw_subscription (resync live sub w) = Some (fst (acknowledge_overflow sub))"
    by (simp add: resync_def Let_def)
  ultimately show ?thesis
    using active known unfolding unknown_iff by (cases "k \<in> la_icao ` set live") simp_all
qed

section \<open>Witnesses\<close>

text \<open>A live sighting with a row and a departed one without, on the database the crash left.\<close>

definition sample_call :: seam_call where
  "sample_call = RouteCall ''400abc'' \<lparr>rt_origin_ident = Some ''EGLL'', rt_destination_ident = Some ''KJFK'', rt_source = ''adsbdb''\<rparr> 90000"

definition sample_env :: cycle_env where
  "sample_env = \<lparr>ce_now_ms = 100000, ce_force = False, ce_commits = True, ce_meta_commits = True,
     ce_before = [], ce_during = [sample_call]\<rparr>"

definition sample_worker :: worker where
  "sample_worker = \<lparr>pw_active = [(''400abc'', (new_sighting ''400abc'' 0 5000)
       \<lparr>sg_aircraft_id := Some 1, sg_sighting_id := Some 1\<rparr>)],
     pw_pending = [(''4ca001'', (new_sighting ''4ca001'' 1000 5000)\<lparr>sg_close_deadline_ms := Some 605000\<rparr>)],
     pw_close_ms = 600000, pw_flush_interval_ms = 30000, pw_queue_size = 4096, pw_subscription = None,
     pw_t0_established = False, pw_recovery = no_recovery, pw_listeners = [7], pw_db_errors = 0\<rparr>"

definition sample_storage :: storage where
  "sample_storage = \<lparr>st_db = crashed, st_t0 = None\<rparr>"

lemma sample_worker_inv: "worker_inv sample_worker"
  by (simp add: worker_inv_def dict_ok_def armed_def sample_worker_def new_sighting_def)

definition sample_queue :: "live_event subscription" where
  "sample_queue = projr (new_subscription 0 ''persistence'' 4096)"

definition sample_start :: "worker \<times> storage" where
  "sample_start = start_worker (\<lambda>_. True) 600000 sample_queue (projr (new_worker 600 30 1 4096)) sample_storage"

lemma sample_new: "new_worker 600 30 1 4096 = Inr (projr (new_worker 600 30 1 4096))"
  by (simp add: new_worker_def)

lemma sample_started:
  "start_worker (\<lambda>_. True) 600000 sample_queue (projr (new_worker 600 30 1 4096)) sample_storage =
     (fst sample_start, snd sample_start)"
  by (simp add: sample_start_def)

text \<open>After the start another task calls and the drain task runs a cycle that cannot commit, then one that can.\<close>

definition sample_cycle :: "bool \<Rightarrow> worker \<times> storage \<Rightarrow> worker \<times> storage" where
  "sample_cycle commits c =
     (let co = process_pending (sample_env\<lparr>ce_commits := commits\<rparr>) [] (fst c) (snd c) in (co_worker co, co_storage co))"

definition sample_end :: "worker \<times> storage" where
  "sample_end = sample_cycle True (sample_cycle False (seam_step sample_call (fst sample_start), snd sample_start))"

lemma sample_cycle_step: "worker_step c (sample_cycle commits c)"
  by (cases c) (simp add: sample_cycle_def Let_def worker_step.cycled)

lemma sample_run: "worker_step\<^sup>*\<^sup>* (fst sample_start, snd sample_start) (fst sample_end, snd sample_end)"
proof -
  have "worker_step (fst sample_start, snd sample_start) (seam_step sample_call (fst sample_start), snd sample_start)"
    by (rule worker_step.called)
  then have "worker_step\<^sup>*\<^sup>* (fst sample_start, snd sample_start) sample_end"
    unfolding sample_end_def
    by (meson r_into_rtranclp rtranclp.rtrancl_into_rtrancl sample_cycle_step)
  then show ?thesis by simp
qed

theorem gap_ends_sighting_witness:
  "sighting_for ''4ca001'' (co_worker (commit_cycle (sample_env\<lparr>ce_now_ms := 100000\<rparr>) sample_worker sample_storage)) \<noteq> None"
  using gap_ends_sighting [OF sample_worker_inv refl, of "''4ca001''" "sample_env\<lparr>ce_now_ms := 100000\<rparr>" sample_storage]
  by (simp add: sample_worker_def sample_env_def sighting_for_def new_sighting_def)

theorem one_sighting_per_aircraft_witness:
  "distinct (map sg_icao (worker_accumulators (fst sample_end)))"
  using one_sighting_per_aircraft [OF sample_new sample_started sample_run] by blast

theorem events_continue_sightings_witness:
  "\<exists>s'. sighting_for ''400abc'' (fold handle [AircraftRemoved sample_live 0] sample_worker) = Some s' \<and>
     sg_started_ms s' = 0 \<and> sg_sighting_id s' = Some 1"
proof -
  have "sighting_for ''400abc'' sample_worker = Some ((new_sighting ''400abc'' 0 5000)
      \<lparr>sg_aircraft_id := Some 1, sg_sighting_id := Some 1\<rparr>)"
    by (simp add: sighting_for_def sample_worker_def)
  from events_continue_sightings [OF sample_worker_inv this, of "[AircraftRemoved sample_live 0]" "[]" sample_queue]
  show ?thesis by (auto simp: kept_def new_sighting_def)
qed

theorem resync_matches_live_set_witness:
  "map_of (pw_active (resync [] sample_queue sample_worker)) ''400abc'' = None \<and>
     map_of (pw_pending (resync [] sample_queue sample_worker)) ''400abc'' \<noteq> None"
  using resync_matches_live_set [OF sample_worker_inv, of "[]" sample_queue "''400abc''"]
  by (simp add: sighting_for_def sample_worker_def)

end
