(* ===== verification/WorkerLedger.thy ===== *)
theory WorkerLedger
  imports WorkerLifecycle SightingHistory
begin

text \<open>
  What a committed cycle leaves in the tables, against the accumulators it was planned from: every
  queued event is written once, checkpoint rows keep their primary key, the rows of open sightings
  stay open and those of ended ones carry their end. The lemmas follow the stages of
  \<open>write_cycle\<close>, then \<open>finish_all\<close>.
\<close>

section \<open>The tables\<close>

definition events_of :: "int \<Rightarrow> database \<Rightarrow> pending_event list" where
  "events_of i db = map snd (filter (\<lambda>(j, _). j = i) (db_events db))"

definition rows_of :: "int \<Rightarrow> database \<Rightarrow> (nat \<times> track_sample) list" where
  "rows_of i db = map snd (filter (\<lambda>(j, _). j = i) (db_checkpoints db))"

definition has_row :: "database \<Rightarrow> int \<Rightarrow> bool" where
  "has_row db i \<longleftrightarrow> map_of (db_sightings db) i \<noteq> None"

definition table_ok :: "database \<Rightarrow> bool" where
  "table_ok db \<longleftrightarrow> (\<forall>(i, _) \<in> set (db_events db). has_row db i) \<and>
     (\<forall>(i, _) \<in> set (db_checkpoints db). has_row db i) \<and>
     distinct (map (\<lambda>(i, q, _). (i, q)) (db_checkpoints db))"

definition stored :: "database \<Rightarrow> active_sighting \<Rightarrow> bool" where
  "stored db s = (case sg_sighting_id s of
       None \<Rightarrow> True
     | Some i \<Rightarrow> (case (sg_aircraft_id s, map_of (db_sightings db) i) of
           (Some a, Some row) \<Rightarrow> map_of (db_aircraft db) a \<noteq> None \<and> sr_ended_ms row = None \<and>
             sr_started_ms row = sg_started_ms s \<and> (\<forall>(q, _) \<in> set (rows_of i db). q < sg_checkpoint_seq s)
         | _ \<Rightarrow> False))"

definition separate :: "active_sighting list \<Rightarrow> bool" where
  "separate ss \<longleftrightarrow> distinct (map sg_icao ss) \<and>
     (\<forall>s \<in> set ss. \<forall>t \<in> set ss. sg_sighting_id s \<noteq> None \<longrightarrow> sg_sighting_id s = sg_sighting_id t \<longrightarrow> s = t)"

definition linked :: "worker \<Rightarrow> database \<Rightarrow> bool" where
  "linked w db \<longleftrightarrow> table_ok db \<and> separate (worker_accumulators w) \<and>
     (\<forall>s \<in> set (worker_accumulators w). stored db s)"

text \<open>What no stage before the closes changes of a row that was there.\<close>

definition frame :: "database \<Rightarrow> database \<Rightarrow> bool" where
  "frame db db' \<longleftrightarrow>
     (\<forall>i row. map_of (db_sightings db) i = Some row \<longrightarrow>
        (\<exists>row'. map_of (db_sightings db') i = Some row' \<and> sr_ended_ms row' = sr_ended_ms row \<and>
           sr_started_ms row' = sr_started_ms row)) \<and>
     (\<forall>a. map_of (db_aircraft db) a \<noteq> None \<longrightarrow> map_of (db_aircraft db') a \<noteq> None)"

lemma frame_refl [simp]: "frame db db"
  by (simp add: frame_def)

lemma frame_trans: "frame db db' \<Longrightarrow> frame db' db'' \<Longrightarrow> frame db db''"
  unfolding frame_def by metis

lemma frame_has_row: "frame db db' \<Longrightarrow> has_row db i \<Longrightarrow> has_row db' i"
  unfolding frame_def has_row_def by (metis not_None_eq)

lemma frame_children [simp]:
  "frame db (db'\<lparr>db_events := es\<rparr>) = frame db db'"
  "frame db (db'\<lparr>db_checkpoints := cs\<rparr>) = frame db db'"
  by (simp_all add: frame_def)

section \<open>The stages\<close>

lemma open_effect:
  assumes "open_sighting s db = ((a, i), db')"
  shows "frame db db'" "\<not> has_row db i" "map_of (db_aircraft db') a \<noteq> None"
    "\<exists>row. map_of (db_sightings db') i = Some row \<and> sr_ended_ms row = None \<and> sr_started_ms row = sg_started_ms s"
    "db_events db' = db_events db" "db_checkpoints db' = db_checkpoints db"
proof -
  have i: "i = fresh_key (db_sightings db)"
    using assms by (simp add: open_sighting_def Let_def split: prod.splits option.splits)
  then show "\<not> has_row db i" by (simp add: has_row_def fresh_key_unused)
  with assms show "frame db db'" "map_of (db_aircraft db') a \<noteq> None"
    "\<exists>row. map_of (db_sightings db') i = Some row \<and> sr_ended_ms row = None \<and> sr_started_ms row = sg_started_ms s"
    "db_events db' = db_events db" "db_checkpoints db' = db_checkpoints db"
    by (auto simp: open_sighting_def Let_def frame_def has_row_def dict_simps split: prod.splits option.splits)
qed

lemma flush_effect:
  assumes "flush_sighting ids s db = Inr db'"
  shows "frame db db'" "db_events db' = db_events db" "db_checkpoints db' = db_checkpoints db"
  using assms
  by (auto simp: flush_sighting_def bindE_Inr_iff frame_def dict_simps require_sighting_def
      apply_running_def split: option.splits)

lemma close_effect:
  assumes "close_sighting ids s reason db = Inr (track, db')"
  shows "db_events db' = db_events db"
    "db_checkpoints db' = filter (\<lambda>(j, _). j \<noteq> snd ids) (db_checkpoints db)"
    "\<exists>row row'. map_of (db_sightings db) (snd ids) = Some row \<and>
       map_of (db_sightings db') = (map_of (db_sightings db))(snd ids \<mapsto> row') \<and>
       sr_started_ms row' = sr_started_ms row \<and> sr_ended_ms row' = Some (sg_last_seen_ms s) \<and>
       sr_closure_reason row' = Some reason"
    "map_of (db_aircraft db) a \<noteq> None \<Longrightarrow> map_of (db_aircraft db') a \<noteq> None"
  using assms
  by (auto simp: close_sighting_def bindE_Inr_iff Let_def pack_closed_track_def dict_simps
      require_sighting_def apply_running_def split: option.splits if_splits)

text \<open>What an opened entry stands for: a new row, for an accumulator of the list.\<close>

definition opened_entry :: "database \<Rightarrow> database \<Rightarrow> active_sighting list \<Rightarrow> string \<times> sighting_ids \<Rightarrow> bool" where
  "opened_entry db db' ss e \<longleftrightarrow> \<not> has_row db (snd (snd e)) \<and> map_of (db_aircraft db') (fst (snd e)) \<noteq> None \<and>
     (\<exists>s \<in> set ss. sg_icao s = fst e \<and> (\<exists>row. map_of (db_sightings db') (snd (snd e)) = Some row \<and>
        sr_ended_ms row = None \<and> sr_started_ms row = sg_started_ms s))"

lemma opens_effect:
  "write_opens ss db = (opened, db') \<Longrightarrow>
     frame db db' \<and> db_events db' = db_events db \<and> db_checkpoints db' = db_checkpoints db \<and>
     map fst opened = map sg_icao ss \<and> distinct (map (\<lambda>e. snd (snd e)) opened) \<and>
     (\<forall>e \<in> set opened. opened_entry db db' ss e)"
proof (induction ss arbitrary: db opened)
  case (Cons s ss)
  obtain a i db1 where one: "open_sighting s db = ((a, i), db1)" by (metis prod_cases3 surj_pair)
  obtain opened' where rest: "write_opens ss db1 = (opened', db')" "opened = (sg_icao s, a, i) # opened'"
    using Cons.prems one by (auto split: prod.splits)
  note eff = open_effect [OF one]
  note IH = Cons.IH [OF rest(1)]
  have row: "has_row db1 i" using eff(4) by (auto simp: has_row_def)
  have head: "opened_entry db db' (s # ss) (sg_icao s, a, i)"
    using IH eff(2,3,4) unfolding opened_entry_def frame_def by simp metis
  have tail: "opened_entry db db' (s # ss) e" if "e \<in> set opened'" for e
  proof -
    have e: "opened_entry db1 db' ss e" using IH that by blast
    then have "\<not> has_row db (snd (snd e))"
      using frame_has_row [OF eff(1)] unfolding opened_entry_def by blast
    with e show ?thesis unfolding opened_entry_def by auto
  qed
  have "snd (snd e) \<noteq> i" if "e \<in> set opened'" for e
    using IH that row unfolding opened_entry_def by auto
  then have "distinct (map (\<lambda>e. snd (snd e)) opened)"
    using IH unfolding rest(2) by auto
  with IH eff head tail show ?case
    unfolding rest(2) by (simp add: frame_trans [OF eff(1)])
qed simp

lemma flushes_effect:
  "write_flushes ss db = Inr db' \<Longrightarrow>
     frame db db' \<and> db_events db' = db_events db \<and> db_checkpoints db' = db_checkpoints db"
proof (induction ss arbitrary: db)
  case (Cons s ss)
  then obtain ids db1 where "flush_sighting ids s db = Inr db1" "write_flushes ss db1 = Inr db'"
    by (auto simp: bindE_Inr_iff)
  with Cons.IH flush_effect frame_trans show ?case by metis
qed simp

text \<open>Where the children of an accumulator go.\<close>

definition row_id :: "(string \<times> sighting_ids) list \<Rightarrow> active_sighting \<Rightarrow> int option" where
  "row_id opened s = (case resolved opened s of Inl _ \<Rightarrow> None | Inr ids \<Rightarrow> Some (snd ids))"

definition queued_for :: "(string \<times> 'e list) list \<Rightarrow> active_sighting \<Rightarrow> 'e list" where
  "queued_for queued s = (case map_of queued (sg_icao s) of None \<Rightarrow> [] | Some es \<Rightarrow> es)"

definition batch_rows :: "(string \<times> checkpoint_batch) list \<Rightarrow> active_sighting \<Rightarrow> (nat \<times> track_sample) list" where
  "batch_rows batches s = (case map_of batches (sg_icao s) of None \<Rightarrow> [] | Some b \<Rightarrow> cb_rows b)"

definition filed :: "(active_sighting \<Rightarrow> int option) \<Rightarrow> (active_sighting \<Rightarrow> 'r list) \<Rightarrow> active_sighting list \<Rightarrow> (int \<times> 'r) list" where
  "filed key rows ss = concat (map (\<lambda>s. case key s of None \<Rightarrow> [] | Some i \<Rightarrow> map (Pair i) (rows s)) ss)"

lemma filed_simps [simp]:
  "filed key rows [] = []"
  "filed key rows (s # ss) = (case key s of None \<Rightarrow> [] | Some i \<Rightarrow> map (Pair i) (rows s)) @ filed key rows ss"
  by (simp_all add: filed_def)

lemma filed_set: "(i, r) \<in> set (filed key rows ss) \<longleftrightarrow> (\<exists>s \<in> set ss. key s = Some i \<and> r \<in> set (rows s))"
  by (induction ss) (auto split: option.splits)

text \<open>A key that only one accumulator has collects that accumulator's rows, in order.\<close>

lemma filed_one:
  assumes "distinct ss" "s \<in> set ss" "key s = Some i" "\<forall>t \<in> set ss. key t = Some i \<longrightarrow> t = s"
  shows "map snd (filter (\<lambda>(j, _). j = i) (filed key rows ss)) = rows s"
proof -
  have none: "map snd (filter (\<lambda>(j, _). j = i) (filed key rows ts)) = []"
    if "\<forall>t \<in> set ts. key t \<noteq> Some i" for ts
    using that by (induction ts) (auto split: option.splits simp: filter_empty_conv)
  from assms show ?thesis
  proof (induction ss)
    case (Cons t ts)
    let ?at = "\<lambda>us. map snd (filter (\<lambda>(j, _). j = i) (filed key rows us))"
    have split: "?at (t # ts) = (if key t = Some i then rows t else []) @ ?at ts"
      by (auto split: option.splits simp: filter_empty_conv filter_map comp_def)
    show ?case
    proof (cases "t = s")
      case True
      have "\<forall>u \<in> set ts. key u \<noteq> Some i"
        using Cons.prems(1,4) True by (metis distinct.simps(2) list.set_intros(2))
      with none [of ts] True Cons.prems(3) show ?thesis unfolding split by simp
    next
      case False
      then have "key t \<noteq> Some i" using Cons.prems(4) by (metis list.set_intros(1))
      moreover have "?at ts = rows s"
        using Cons.IH Cons.prems False by (metis distinct.simps(2) list.set_intros(2) set_ConsD)
      ultimately show ?thesis unfolding split by simp
    qed
  qed simp
qed

lemma batches_effect:
  "write_batches opened batches ss db = Inr db' \<Longrightarrow>
     db' = db\<lparr>db_checkpoints := db_checkpoints db @ filed (row_id opened) (batch_rows batches) ss\<rparr>"
proof (induction opened batches ss db rule: write_batches.induct)
  case (2 opened batches s ss db)
  then show ?case
    by (auto simp: bindE_Inr_iff append_checkpoints_def row_id_def batch_rows_def case_prod_beta'
        split: option.splits sum.splits) 
qed (simp add: filed_def)

lemma events_effect:
  "write_events opened queued ss db = Inr db' \<Longrightarrow>
     db' = db\<lparr>db_events := db_events db @ filed (row_id opened) (queued_for queued) ss\<rparr>"
proof (induction opened queued ss db rule: write_events.induct)
  case (2 opened queued s ss db)
  then show ?case
    by (auto simp: bindE_Inr_iff append_events_def row_id_def queued_for_def
        split: option.splits sum.splits)
qed (simp add: filed_def)


lemma closes_effect:
  assumes "write_closes opened ss db = Inr (tracks, db')"
  shows "db_events db' = db_events db \<and>
     db_checkpoints db' = filter (\<lambda>(j, _). Some j \<notin> row_id opened ` set ss) (db_checkpoints db) \<and>
     (\<forall>i. Some i \<notin> row_id opened ` set ss \<longrightarrow> map_of (db_sightings db') i = map_of (db_sightings db) i) \<and>
     (\<forall>a. map_of (db_aircraft db) a \<noteq> None \<longrightarrow> map_of (db_aircraft db') a \<noteq> None) \<and>
     (\<forall>i. has_row db i \<longrightarrow> has_row db' i)"
  using assms
proof (induction ss arbitrary: db tracks)
  case (Cons s ss)
  obtain ids track db1 tracks' where one: "resolved opened s = Inr ids"
    "close_sighting ids s (sg_closure_reason s) db = Inr (track, db1)" "write_closes opened ss db1 = Inr (tracks', db')"
    using Cons.prems by (auto simp: bindE_Inr_iff)
  then have id: "row_id opened s = Some (snd ids)" by (simp add: row_id_def)
  note eff = close_effect [OF one(2)]
  obtain row' where sightings: "map_of (db_sightings db1) = (map_of (db_sightings db))(snd ids \<mapsto> row')"
    using eff(3) by blast
  note IH = Cons.IH [OF one(3)]
  have "db_checkpoints db' = filter (\<lambda>(j, _). Some j \<notin> row_id opened ` set (s # ss)) (db_checkpoints db)"
    using IH eff(2) id by (simp add: case_prod_beta' conj_commute)
  moreover have "map_of (db_sightings db') i = map_of (db_sightings db) i"
    if "Some i \<notin> row_id opened ` set (s # ss)" for i
    using that IH sightings id by simp
  moreover have "has_row db1 i" if "has_row db i" for i
    using that sightings by (auto simp: has_row_def)
  ultimately show ?case using IH eff(1,4) by simp
qed simp

lemma closes_rows:
  assumes "write_closes opened ss db = Inr (tracks, db')" "distinct ss" "inj_on (row_id opened) (set ss)" "s \<in> set ss"
  shows "\<exists>i row row'. row_id opened s = Some i \<and> map_of (db_sightings db) i = Some row \<and>
     map_of (db_sightings db') i = Some row' \<and> sr_started_ms row' = sr_started_ms row \<and>
     sr_ended_ms row' = Some (sg_last_seen_ms s) \<and> sr_closure_reason row' = Some (sg_closure_reason s)"
  using assms
proof (induction ss arbitrary: db tracks)
  case (Cons t ss)
  obtain ids track db1 tracks' where one: "resolved opened t = Inr ids"
    "close_sighting ids t (sg_closure_reason t) db = Inr (track, db1)" "write_closes opened ss db1 = Inr (tracks', db')"
    using Cons.prems(1) by (auto simp: bindE_Inr_iff)
  then have id: "row_id opened t = Some (snd ids)" by (simp add: row_id_def)
  have other: "row_id opened u \<noteq> Some (snd ids)" if "u \<in> set ss" for u
    using that Cons.prems(2,3) id by (metis distinct.simps(2) inj_on_eq_iff list.set_intros(1,2))
  obtain row row' where rows: "map_of (db_sightings db) (snd ids) = Some row"
    "map_of (db_sightings db1) = (map_of (db_sightings db))(snd ids \<mapsto> row')"
    "sr_started_ms row' = sr_started_ms row" "sr_ended_ms row' = Some (sg_last_seen_ms t)"
    "sr_closure_reason row' = Some (sg_closure_reason t)"
    using close_effect(3) [OF one(2)] by blast
  show ?case
  proof (cases "s = t")
    case True
    have "Some (snd ids) \<notin> row_id opened ` set ss" using other by force
    then have "map_of (db_sightings db') (snd ids) = Some row'"
      using closes_effect [OF one(3)] rows(2) by simp
    with True rows id show ?thesis by auto
  next
    case False
    with Cons.prems have "s \<in> set ss" "distinct ss" "inj_on (row_id opened) (set ss)"
      by (auto intro: inj_on_subset)
    from Cons.IH [OF one(3) this(2,3,1)] obtain i r r' where
      "row_id opened s = Some i" "map_of (db_sightings db1) i = Some r" "map_of (db_sightings db') i = Some r'"
      "sr_started_ms r' = sr_started_ms r" "sr_ended_ms r' = Some (sg_last_seen_ms s)"
      "sr_closure_reason r' = Some (sg_closure_reason s)"
      by blast
    with other [OF \<open>s \<in> set ss\<close>] rows(2) show ?thesis by auto
  qed
qed simp

lemma write_cycle_stages:
  assumes "write_cycle p w db = Inr (opened, tracks, db')"
  obtains db1 db2 db4 where
    "write_opens (named w (cp_opens p)) db = (opened, db1)" "frame db1 db2"
    "db_sightings db4 = db_sightings db2" "db_aircraft db4 = db_aircraft db2"
    "db_events db4 = db_events db @ filed (row_id opened) (queued_for (cp_queued p)) (worker_accumulators w)"
    "db_checkpoints db4 = db_checkpoints db @
       filed (row_id opened) (batch_rows (cp_batches p)) (named w (cp_opens p @ cp_flushes p))"
    "write_closes opened (named w (cp_due p)) db4 = Inr (tracks, db')"
proof -
  obtain db1 where opens: "write_opens (named w (cp_opens p)) db = (opened, db1)"
    using assms by (cases "write_opens (named w (cp_opens p)) db")
      (auto simp: write_cycle_def bindE_Inr_iff)
  with assms obtain db2 db3 db4 where stages:
    "write_flushes (named w (cp_flushes p)) db1 = Inr db2"
    "write_batches opened (cp_batches p) (named w (cp_opens p @ cp_flushes p)) db2 = Inr db3"
    "write_events opened (cp_queued p) (worker_accumulators w) db3 = Inr db4"
    "write_closes opened (named w (cp_due p)) db4 = Inr (tracks, db')"
    by (auto simp: write_cycle_def bindE_Inr_iff)
  note one = opens_effect [OF opens] flushes_effect [OF stages(1)]
    batches_effect [OF stages(2)] events_effect [OF stages(3)]
  show thesis
    by (rule that [OF opens _ _ _ _ _ stages(4), of db2]) (use one in auto)
qed

section \<open>The rows of accumulators\<close>

text \<open>Among linked accumulators the opens of a cycle give every one a row of its own.\<close>

lemma row_ids:
  assumes linked: "separate L" "\<forall>s \<in> set L. stored db s"
    and opens: "write_opens (filter (\<lambda>s. sg_sighting_id s = None) L) db = (opened, db1)"
    and s: "s \<in> set L"
  shows "\<exists>i. row_id opened s = Some i \<and> (case sg_sighting_id s of None \<Rightarrow> \<not> has_row db i | Some j \<Rightarrow> i = j \<and> has_row db i) \<and>
     (\<exists>a. map_of opened (sg_icao s) = (if sg_sighting_id s = None then Some (a, i) else None) \<and>
        (sg_sighting_id s = None \<longrightarrow> map_of (db_aircraft db1) a \<noteq> None \<and>
          (\<exists>row. map_of (db_sightings db1) i = Some row \<and> sr_ended_ms row = None \<and>
             sr_started_ms row = sg_started_ms s)))"
proof -
  let ?new = "filter (\<lambda>s. sg_sighting_id s = None) L"
  note eff = opens_effect [OF opens]
  then have keys: "fst ` set opened = sg_icao ` set ?new" by (metis image_set)
  have distinct: "distinct (map fst opened)"
    using eff linked(1) by (simp add: separate_def distinct_map_filter)
  show ?thesis
  proof (cases "sg_sighting_id s")
    case None
    with s keys have "sg_icao s \<in> fst ` set opened" by auto
    then obtain a i where e: "(sg_icao s, a, i) \<in> set opened" by auto
    then have look: "map_of opened (sg_icao s) = Some (a, i)" by (simp add: distinct)
    from e eff have entry: "opened_entry db db1 ?new (sg_icao s, a, i)" by blast
    then obtain t row where t: "t \<in> set ?new" "sg_icao t = sg_icao s"
      "map_of (db_sightings db1) i = Some row" "sr_ended_ms row = None" "sr_started_ms row = sg_started_ms t"
      unfolding opened_entry_def by auto
    then have "t = s"
      using linked(1) s unfolding separate_def distinct_map by (auto dest: inj_onD)
    with t entry look None show ?thesis
      by (auto simp: row_id_def resolved_def opened_entry_def)
  next
    case (Some j)
    have "sg_icao s \<notin> fst ` set opened"
    proof
      assume "sg_icao s \<in> fst ` set opened"
      then obtain t where "t \<in> set ?new" "sg_icao t = sg_icao s" unfolding keys by auto
      then have "t = s" using linked(1) s unfolding separate_def distinct_map by (auto dest: inj_onD)
      with \<open>t \<in> set ?new\<close> Some show False by simp
    qed
    then have "map_of opened (sg_icao s) = None" by (simp add: map_of_eq_None_iff)
    moreover have "stored db s" using linked(2) s by blast
    ultimately show ?thesis
      using Some by (auto simp: row_id_def resolved_def ids_of_def stored_def has_row_def split: option.splits)
  qed
qed

lemma row_ids_inj:
  assumes linked: "separate L" "\<forall>s \<in> set L. stored db s"
    and opens: "write_opens (filter (\<lambda>s. sg_sighting_id s = None) L) db = (opened, db1)"
  shows "inj_on (row_id opened) (set L)"
proof (rule inj_onI)
  fix s t
  assume st: "s \<in> set L" "t \<in> set L" "row_id opened s = row_id opened t"
  note s = row_ids [OF linked opens st(1)] and t = row_ids [OF linked opens st(2)]
  show "s = t"
  proof (cases "sg_sighting_id s")
    case None
    with s t st(3) have "sg_sighting_id t = None" by (auto split: option.splits)
    with None s t st(3) obtain a b i where
      "map_of opened (sg_icao s) = Some (a, i)" "map_of opened (sg_icao t) = Some (b, i)"
      by auto
    then have e: "(sg_icao s, a, i) \<in> set opened" "(sg_icao t, b, i) \<in> set opened"
      by (simp_all add: map_of_SomeD)
    have inj: "inj_on (\<lambda>e. snd (snd e)) (set opened)"
      using opens_effect [OF opens] by (simp add: distinct_map)
    have "sg_icao s = sg_icao t" using inj_onD [OF inj _ e] by simp
    with st linked(1) show ?thesis unfolding separate_def distinct_map by (auto dest: inj_onD)
  next
    case (Some i)
    with s t st(3) have "sg_sighting_id t = Some i" by (auto split: option.splits)
    with Some st linked(1) show ?thesis unfolding separate_def by (metis option.distinct(1))
  qed
qed


section \<open>The plan and the accumulators it is carried out on\<close>

lemma update_values:
  "map_of al k = Some s \<Longrightarrow> R s s' \<Longrightarrow> (\<And>x. R x x) \<Longrightarrow>
     list_all2 R (map snd al) (map snd (AList.update k s' al))"
  by (induction al) (auto simp: list_all2_refl)

lemma seam_accumulators:
  "list_all2 seam_change (worker_accumulators w) (worker_accumulators (seam_step c w))"
proof -
  have refl: "list_all2 seam_change ss ss" for ss
    by (simp add: list_all2_refl)
  have "list_all2 seam_change (worker_accumulators w) (worker_accumulators (put_sighting icao s' w))"
    if "sighting_for icao w = Some s" "seam_change s s'" for icao s s'
    using that unfolding put_sighting_def sighting_for_def worker_accumulators_def
    by (auto intro!: list_all2_appendI refl update_values split: option.splits)
  with seam_step_cases [of c w] refl show ?thesis by metis
qed

lemma seams_accumulators:
  "list_all2 seam_change (worker_accumulators w) (worker_accumulators (fold seam_step cs w))"
proof (induction cs arbitrary: w)
  case (Cons c cs)
  show ?case
    using list_all2_trans [OF seam_change_trans seam_accumulators [of w c] Cons [of "seam_step c w"]]
    by simp
qed (simp add: list_all2_refl)

lemma seam_change_fields:
  assumes "seam_change s s'"
  shows "sg_icao s' = sg_icao s" "sg_sighting_id s' = sg_sighting_id s" "sg_aircraft_id s' = sg_aircraft_id s"
    "sg_started_ms s' = sg_started_ms s" "sg_checkpoint_seq s' = sg_checkpoint_seq s"
    "sg_last_seen_ms s' = sg_last_seen_ms s" "sg_closure_reason s' = sg_closure_reason s"
    "\<exists>new. sg_pending_events s' = sg_pending_events s @ new"
  using assms identity_fields [of s' s] by (auto simp: seam_change_def)

lemma map_filter_all2:
  "list_all2 R xs ys \<Longrightarrow> (\<And>x y. R x y \<Longrightarrow> P x = Q y \<and> f x = g y) \<Longrightarrow>
     map f (filter P xs) = map g (filter Q ys)"
  by (induction rule: list_all2_induct) auto

lemma all2_back: "list_all2 R xs ys \<Longrightarrow> y \<in> set ys \<Longrightarrow> \<exists>x \<in> set xs. R x y"
  by (induction rule: list_all2_induct) auto

lemma all2_forth: "list_all2 R xs ys \<Longrightarrow> x \<in> set xs \<Longrightarrow> \<exists>y \<in> set ys. R x y"
  by (induction rule: list_all2_induct) auto

lemma seam_change_stored:
  assumes "seam_change s s'"
  shows "stored db s' = stored db s"
  unfolding stored_def seam_change_fields(2,3,4,5) [OF assms] by (rule refl)

lemma seamed_linked:
  assumes "list_all2 seam_change L L'" "separate L" "\<forall>s \<in> set L. stored db s"
  shows "separate L'" "\<forall>s \<in> set L'. stored db s" "map sg_icao L' = map sg_icao L"
proof -
  show icaos: "map sg_icao L' = map sg_icao L"
    using assms(1) by (induction rule: list_all2_induct) (auto dest: seam_change_fields)
  note original = all2_back [OF assms(1)]
  show "\<forall>s \<in> set L'. stored db s"
    using original assms(3) seam_change_stored by blast
  have "distinct (map sg_icao L')" using assms(2) icaos by (simp add: separate_def)
  moreover have "s' = t'"
    if st: "s' \<in> set L'" "t' \<in> set L'" "sg_sighting_id s' \<noteq> None" "sg_sighting_id s' = sg_sighting_id t'" for s' t'
  proof -
    from original [OF st(1)] original [OF st(2)] obtain s t where
      "s \<in> set L" "t \<in> set L" "seam_change s s'" "seam_change t t'" by blast
    with st(3,4) assms(2) have "sg_icao s' = sg_icao t'"
      using seam_change_fields(1,2) unfolding separate_def by metis
    with st(1,2) \<open>distinct (map sg_icao L')\<close> show ?thesis
      unfolding distinct_map by (auto dest: inj_onD)
  qed
  ultimately show "separate L'" unfolding separate_def by blast
qed

lemma known_accumulator:
  assumes "worker_inv w"
  shows "sighting_for k w = Some s \<longleftrightarrow> s \<in> set (worker_accumulators w) \<and> sg_icao s = k"
proof -
  have member: "map_of al k = Some s \<longleftrightarrow> s \<in> snd ` set al \<and> sg_icao s = k" if "dict_ok P al" for P al
    using that by (force simp: dict_ok_def)
  have a: "dict_ok (\<lambda>s. sg_close_deadline_ms s = None) (pw_active w)"
    and b: "dict_ok (armed (pw_close_ms w)) (pw_pending w)"
    using assms by (simp_all add: worker_inv_def)
  show ?thesis
    using member [OF a] member [OF b] inv_disjoint [OF assms, of k]
    by (auto simp: sighting_for_def worker_accumulators_def split: option.splits)
qed

lemma named_filter:
  assumes "worker_inv w"
  shows "named w (map sg_icao (filter P (worker_accumulators w))) = filter P (worker_accumulators w)"
proof -
  have "List.map_filter (\<lambda>k. sighting_for k w) (map sg_icao ss) = ss"
    if "set ss \<subseteq> set (worker_accumulators w)" for ss
    using that
  proof (induction ss)
    case (Cons s ss)
    then have "sighting_for (sg_icao s) w = Some s"
      by (simp add: known_accumulator [OF assms])
    with Cons show ?case by (simp add: List.map_filter_simps)
  qed (simp add: List.map_filter_simps)
  then show ?thesis unfolding named_def by (metis filter_is_subset)
qed


lemma named_set:
  assumes "worker_inv w"
  shows "set (named w ks) = {s \<in> set (worker_accumulators w). sg_icao s \<in> set ks}"
proof -
  have "s \<in> set (named w ks) \<longleftrightarrow> (\<exists>k \<in> set ks. sighting_for k w = Some s)" for s
    unfolding named_def by (induction ks) (auto simp: List.map_filter_simps split: option.split)
  then show ?thesis by (auto simp: known_accumulator [OF assms])
qed

lemma named_distinct:
  assumes "worker_inv w" "distinct ks"
  shows "distinct (named w ks)"
proof -
  have "map sg_icao (named w ks) = filter (\<lambda>k. sighting_for k w \<noteq> None) ks"
    unfolding named_def using inv_sighting_for [OF assms(1)]
    by (induction ks) (auto simp: List.map_filter_simps split: option.splits)
  then show ?thesis using assms(2) by (metis distinct_filter distinct_map)
qed

text \<open>What the plan holds for an accumulator of the worker it was made for.\<close>

lemma plan_queued:
  assumes "distinct (map sg_icao (worker_accumulators w))" "s \<in> set (worker_accumulators w)" "sg_icao s' = sg_icao s"
  shows "queued_for (cp_queued (plan_cycle now_ms force w)) s' = sg_pending_events s"
proof -
  let ?q = "cp_queued (plan_cycle now_ms force w)"
  have keys: "distinct (map fst ?q)"
    using assms(1) by (simp add: plan_fields comp_def distinct_map_filter)
  have "map_of ?q (sg_icao s) = (if sg_pending_events s = [] then None else Some (sg_pending_events s))"
  proof (cases "sg_pending_events s = []")
    case True
    have "sg_icao s \<notin> fst ` set ?q"
    proof
      assume "sg_icao s \<in> fst ` set ?q"
      then obtain t where "t \<in> set (worker_accumulators w)" "sg_icao t = sg_icao s" "sg_pending_events t \<noteq> []"
        by (auto simp: plan_fields)
      then have "t = s" using assms(1,2) unfolding distinct_map by (auto dest: inj_onD)
      with \<open>sg_pending_events t \<noteq> []\<close> True show False by simp
    qed
    with True show ?thesis by (simp add: map_of_eq_None_iff)
  next
    case False
    then have "(sg_icao s, sg_pending_events s) \<in> set ?q"
      using assms(2) by (force simp: plan_fields take_events_def)
    with False keys show ?thesis by simp
  qed
  then show ?thesis by (simp add: queued_for_def assms(3))
qed

lemma plan_batches:
  "\<exists>closing P Q. cp_batches (plan_cycle now_ms force w) =
     List.map_filter (\<lambda>s. if sg_icao s \<in> closing then None else map_option (Pair (sg_icao s)) (take_checkpoint s))
       (filter P (worker_accumulators w) @ filter Q (worker_accumulators w))"
  unfolding plan_cycle_def Let_def cycle_plan.simps by (intro exI) (rule refl)

lemma batch_entry:
  "(k, b) \<in> set (List.map_filter (\<lambda>s. if sg_icao s \<in> closing then None
       else map_option (Pair (sg_icao s)) (take_checkpoint s)) ss) \<Longrightarrow>
     \<exists>s \<in> set ss. sg_icao s = k \<and> take_checkpoint s = Some b"
  by (induction ss) (auto simp: List.map_filter_simps split: option.splits if_splits)

lemma plan_batch:
  assumes "map_of (cp_batches (plan_cycle now_ms force w)) k = Some b"
  shows "\<exists>s \<in> set (worker_accumulators w). sg_icao s = k \<and> take_checkpoint s = Some b"
proof -
  obtain closing P Q where "cp_batches (plan_cycle now_ms force w) =
     List.map_filter (\<lambda>s. if sg_icao s \<in> closing then None else map_option (Pair (sg_icao s)) (take_checkpoint s))
       (filter P (worker_accumulators w) @ filter Q (worker_accumulators w))"
    using plan_batches by blast
  with batch_entry map_of_SomeD [OF assms] show ?thesis by fastforce
qed

lemma plan_due_distinct:
  assumes "worker_inv w"
  shows "distinct (cp_due (plan_cycle now_ms force w))"
proof -
  have "dict_ok (armed (pw_close_ms w)) (pw_pending w)"
    using assms by (simp add: worker_inv_def)
  then have "distinct (map sg_icao (map snd (pw_pending w)))"
    using dict_icaos by (metis dict_ok_def)
  then show ?thesis unfolding plan_fields by (rule distinct_map_filter)
qed


section \<open>A written cycle, accumulator by accumulator\<close>

lemma inv_seams: "worker_inv w \<Longrightarrow> worker_inv (fold seam_step cs w)"
  by (rule inv_fold) (rule inv_seam)

lemma cycle_facts:
  assumes inv: "worker_inv w" and linked: "linked w db"
    and p: "p = plan_cycle now_ms force w" and w1: "w1 = fold seam_step cs w"
    and wrote: "write_cycle p w1 db = Inr (opened, tracks, db')"
  obtains db1 db2 db4 where
    "separate (worker_accumulators w1)" "\<forall>s \<in> set (worker_accumulators w1). stored db s"
    "write_opens (filter (\<lambda>s. sg_sighting_id s = None) (worker_accumulators w1)) db = (opened, db1)"
    "frame db db1" "frame db1 db2"
    "db_sightings db4 = db_sightings db2" "db_aircraft db4 = db_aircraft db2"
    "db_events db4 = db_events db @ filed (row_id opened) (queued_for (cp_queued p)) (worker_accumulators w1)"
    "db_checkpoints db4 = db_checkpoints db @
       filed (row_id opened) (batch_rows (cp_batches p)) (named w1 (cp_opens p @ cp_flushes p))"
    "write_closes opened (named w1 (cp_due p)) db4 = Inr (tracks, db')"
proof -
  let ?new = "\<lambda>s. sg_sighting_id s = None"
  have L: "list_all2 seam_change (worker_accumulators w) (worker_accumulators w1)"
    unfolding w1 by (rule seams_accumulators)
  have sep: "separate (worker_accumulators w)" "\<forall>s \<in> set (worker_accumulators w). stored db s"
    using linked by (simp_all add: linked_def)
  note facts = seamed_linked [OF L sep]
  have "cp_opens p = map sg_icao (filter ?new (worker_accumulators w1))"
    unfolding p plan_fields
    by (rule map_filter_all2 [OF L]) (simp add: seam_change_fields)
  moreover have "worker_inv w1" unfolding w1 by (rule inv_seams [OF inv])
  ultimately have opens: "named w1 (cp_opens p) = filter ?new (worker_accumulators w1)"
    by (simp add: named_filter)
  from write_cycle_stages [OF wrote] obtain db1 db2 db4 where stages:
    "write_opens (named w1 (cp_opens p)) db = (opened, db1)" "frame db1 db2"
    "db_sightings db4 = db_sightings db2" "db_aircraft db4 = db_aircraft db2"
    "db_events db4 = db_events db @ filed (row_id opened) (queued_for (cp_queued p)) (worker_accumulators w1)"
    "db_checkpoints db4 = db_checkpoints db @
       filed (row_id opened) (batch_rows (cp_batches p)) (named w1 (cp_opens p @ cp_flushes p))"
    "write_closes opened (named w1 (cp_due p)) db4 = Inr (tracks, db')"
    by metis
  show thesis
    by (rule that [OF facts(1,2) stages(1) [unfolded opens] _ stages(2-7)])
       (use opens_effect [OF stages(1)] in blast)
qed

lemma separate_distinct: "separate L \<Longrightarrow> distinct L"
  by (auto simp: separate_def distinct_map)

lemma separate_icao: "separate L \<Longrightarrow> s \<in> set L \<Longrightarrow> t \<in> set L \<Longrightarrow> sg_icao s = sg_icao t \<Longrightarrow> s = t"
  unfolding separate_def distinct_map by (auto dest: inj_onD)

lemma fresh_events: "table_ok db \<Longrightarrow> \<not> has_row db i \<Longrightarrow> events_of i db = [] \<and> rows_of i db = []"
  by (auto simp: table_ok_def events_of_def rows_of_def filter_empty_conv)

lemma cycle_events:
  assumes inv: "worker_inv w" and linked: "linked w db"
    and p: "p = plan_cycle now_ms force w" and w1: "w1 = fold seam_step cs w"
    and wrote: "write_cycle p w1 db = Inr (opened, tracks, db')"
    and s: "s0 \<in> set (worker_accumulators w)" "s \<in> set (worker_accumulators w1)" "seam_change s0 s"
  shows "\<exists>i. row_id opened s = Some i \<and>
     (case sg_sighting_id s0 of None \<Rightarrow> \<not> has_row db i | Some j \<Rightarrow> i = j) \<and>
     (\<forall>a. map_of opened (sg_icao s) = Some a \<longrightarrow> snd a = i) \<and>
     (map_of opened (sg_icao s) = None \<longrightarrow> sg_sighting_id s0 = Some i) \<and>
     events_of i db' = events_of i db @ sg_pending_events s0 \<and>
     (\<exists>row. map_of (db_sightings db') i = Some row \<and> sr_started_ms row = sg_started_ms s0 \<and>
        (if sg_icao s \<in> set (cp_due p)
         then sr_ended_ms row = Some (sg_last_seen_ms s0) \<and>
           sr_closure_reason row = Some (sg_closure_reason s0) \<and> rows_of i db' = []
         else sr_ended_ms row = None))"
proof -
  from cycle_facts [OF inv linked p w1 wrote] obtain db1 db2 db4 where facts:
    "separate (worker_accumulators w1)" "\<forall>s \<in> set (worker_accumulators w1). stored db s"
    "write_opens (filter (\<lambda>s. sg_sighting_id s = None) (worker_accumulators w1)) db = (opened, db1)"
    "frame db db1" "frame db1 db2"
    "db_sightings db4 = db_sightings db2"
    "db_events db4 = db_events db @ filed (row_id opened) (queued_for (cp_queued p)) (worker_accumulators w1)"
    "write_closes opened (named w1 (cp_due p)) db4 = Inr (tracks, db')"
    by metis
  note fields = seam_change_fields [OF s(3)]
  from row_ids [OF facts(1-3) s(2)] obtain i a where i: "row_id opened s = Some i"
    "case sg_sighting_id s of None \<Rightarrow> \<not> has_row db i | Some j \<Rightarrow> i = j \<and> has_row db i"
    "map_of opened (sg_icao s) = (if sg_sighting_id s = None then Some (a, i) else None)"
    "sg_sighting_id s = None \<longrightarrow> (\<exists>row. map_of (db_sightings db1) i = Some row \<and> sr_ended_ms row = None \<and>
       sr_started_ms row = sg_started_ms s)"
    by metis
  have inj: "inj_on (row_id opened) (set (worker_accumulators w1))"
    by (rule row_ids_inj [OF facts(1-3)])
  have ids: "case sg_sighting_id s0 of None \<Rightarrow> \<not> has_row db i | Some j \<Rightarrow> i = j"
    using i(2) fields(2) by (auto split: option.splits)
  have only: "\<forall>t \<in> set (worker_accumulators w1). row_id opened t = Some i \<longrightarrow> t = s"
    using inj i(1) s(2) by (metis inj_onD)
  have "map snd (filter (\<lambda>(j, _). j = i) (filed (row_id opened) (queued_for (cp_queued p)) (worker_accumulators w1)))
      = queued_for (cp_queued p) s"
    by (rule filed_one [where key = "row_id opened", OF separate_distinct [OF facts(1)] s(2) i(1) only])
  also have "\<dots> = sg_pending_events s0"
    unfolding p using plan_queued [OF inv_icaos [OF inv] s(1) fields(1)] .
  finally have "events_of i db' = events_of i db @ sg_pending_events s0"
    using facts(7) closes_effect [OF facts(8)] by (simp add: events_of_def)
  moreover have inv1: "worker_inv w1" unfolding w1 by (rule inv_seams [OF inv])
  have "\<exists>row. map_of (db_sightings db1) i = Some row \<and> sr_started_ms row = sg_started_ms s \<and> sr_ended_ms row = None"
  proof (cases "sg_sighting_id s")
    case (Some j)
    then have "stored db s" "i = j" using facts(2) s(2) i(2) by auto
    with Some facts(4) show ?thesis
      by (auto simp: stored_def frame_def split: option.splits) metis
  qed (use i(4) in blast)
  then obtain row where row: "map_of (db_sightings db4) i = Some row"
    "sr_started_ms row = sg_started_ms s" "sr_ended_ms row = None"
    using facts(5,6) unfolding frame_def by metis
  have "\<exists>row. map_of (db_sightings db') i = Some row \<and> sr_started_ms row = sg_started_ms s0 \<and>
        (if sg_icao s \<in> set (cp_due p)
         then sr_ended_ms row = Some (sg_last_seen_ms s0) \<and>
           sr_closure_reason row = Some (sg_closure_reason s0) \<and> rows_of i db' = []
         else sr_ended_ms row = None)"
  proof (cases "sg_icao s \<in> set (cp_due p)")
    case True
    then have due: "s \<in> set (named w1 (cp_due p))"
      using s(2) by (simp add: named_set [OF inv1])
    have "distinct (named w1 (cp_due p))"
      unfolding p by (rule named_distinct [OF inv1 plan_due_distinct [OF inv]])
    moreover have "inj_on (row_id opened) (set (named w1 (cp_due p)))"
      by (rule inj_on_subset [OF inj]) (auto simp: named_set [OF inv1])
    ultimately obtain row' where "map_of (db_sightings db') i = Some row'" "sr_started_ms row' = sr_started_ms row"
      "sr_ended_ms row' = Some (sg_last_seen_ms s)" "sr_closure_reason row' = Some (sg_closure_reason s)"
      using closes_rows [OF facts(8) _ _ due] i(1) row(1) by auto
    moreover have "rows_of i db' = []"
      using closes_effect [OF facts(8)] due i(1) by (force simp: rows_of_def filter_empty_conv)
    ultimately show ?thesis using True row fields by simp
  next
    case False
    have "t \<noteq> s" if "t \<in> set (named w1 (cp_due p))" for t
      using that False by (auto simp: named_set [OF inv1])
    then have "Some i \<notin> row_id opened ` set (named w1 (cp_due p))"
      using only by (fastforce simp: named_set [OF inv1])
    then have "map_of (db_sightings db') i = map_of (db_sightings db4) i"
      using closes_effect [OF facts(8)] by blast
    with row False fields show ?thesis by simp
  qed
  ultimately show ?thesis
    using i ids fields(2) by (intro exI [of _ i]) auto
qed

section \<open>The links after a cycle\<close>

lemma finish_one_writes [simp]:
  "sg_sighting_id (finish_one p opened s) =
     (case map_of opened (sg_icao s) of None \<Rightarrow> sg_sighting_id s | Some ids \<Rightarrow> Some (snd ids))"
  "sg_aircraft_id (finish_one p opened s) =
     (case map_of opened (sg_icao s) of None \<Rightarrow> sg_aircraft_id s | Some ids \<Rightarrow> Some (fst ids))"
  "sg_pending_events (finish_one p opened s) =
     drop (length (queued_for (cp_queued p) s)) (sg_pending_events s)"
  "sg_checkpoint_seq (finish_one p opened s) = sg_checkpoint_seq s + length (batch_rows (cp_batches p) s)"
  by (simp_all add: finish_one_def Let_def mark_events_written_def mark_checkpointed_def mark_flushed_def
      queued_for_def batch_rows_def split: option.split prod.split)

lemma finish_accumulators: "worker_accumulators (finish_all p opened w) = map (finish_one p opened) (worker_accumulators w)"
  by (simp add: worker_accumulators_def finish_all_def comp_def)

lemma deletes_subset: "set (fold AList.delete ks al) \<subseteq> set al"
proof (induction ks arbitrary: al)
  case (Cons k ks)
  have "set (AList.delete k al) \<subseteq> set al" by (auto simp: dict_set_delete)
  with Cons [of "AList.delete k al"] show ?case by simp
qed simp

text \<open>Which accumulators a finished cycle leaves, and under which row.\<close>

lemma left_over:
  assumes "worker_inv w" "set (cp_due p) \<subseteq> fst ` set (pw_pending w)"
    and "s \<in> set (worker_accumulators (pop_due p (finish_all p opened w)))"
  shows "\<exists>t \<in> set (worker_accumulators w). s = finish_one p opened t \<and> sg_icao t \<notin> set (cp_due p)"
proof -
  let ?w = "finish_all p opened w"
  have inv: "worker_inv ?w" by (rule inv_finish [OF assms(1)])
  have "sighting_for (sg_icao s) (pop_due p ?w) = Some s"
    using known_accumulator [OF inv_pop [OF inv]] assms(3) by blast
  then have found: "sighting_for (sg_icao s) ?w = Some s"
    and due: "sg_icao s \<in> set (cp_due p) \<longrightarrow> map_of (pw_active ?w) (sg_icao s) \<noteq> None"
    by (auto simp: sighting_for_def split: option.splits if_splits)
  have "sg_icao s \<notin> set (cp_due p)"
  proof
    assume d: "sg_icao s \<in> set (cp_due p)"
    with assms(2) have "map_of (pw_pending w) (sg_icao s) \<noteq> None" by (auto simp: map_of_eq_None_iff)
    moreover from d due have "map_of (pw_active w) (sg_icao s) \<noteq> None" by auto
    ultimately show False
      using inv_disjoint [OF assms(1)] by (cases "map_of (pw_active w) (sg_icao s)") auto
  qed
  moreover from found have "s \<in> set (worker_accumulators ?w)"
    using known_accumulator [OF inv] by blast
  ultimately show ?thesis by (auto simp: finish_accumulators)
qed

lemma row_of_finished:
  assumes linked: "separate L" "\<forall>s \<in> set L. stored db s"
    and opens: "write_opens (filter (\<lambda>s. sg_sighting_id s = None) L) db = (opened, db1)"
    and s: "s \<in> set L" "seam_change s t"
  shows "sg_sighting_id (finish_one p opened t) = row_id opened s"
  using row_ids [OF linked opens s(1)] seam_change_fields [OF s(2)]
  by (auto split: option.splits if_splits)

lemma plan_writes_distinct:
  assumes "worker_inv w"
  shows "distinct (cp_opens (plan_cycle now_ms force w) @ cp_flushes (plan_cycle now_ms force w))"
proof -
  have L: "distinct (map sg_icao (worker_accumulators w))" by (rule inv_icaos [OF assms])
  then have inj: "s = t" if "s \<in> set (worker_accumulators w)" "t \<in> set (worker_accumulators w)"
    "sg_icao s = sg_icao t" for s t
    using that unfolding distinct_map by (auto dest: inj_onD)
  show ?thesis
    using L by (auto simp: plan_cycle_def Let_def distinct_map_filter dest: inj)
qed

lemma batch_numbers:
  assumes L: "list_all2 seam_change (worker_accumulators w) L" "separate (worker_accumulators w)"
    and s: "s \<in> set L"
  shows "map fst (batch_rows (cp_batches (plan_cycle now_ms force w)) s) =
     [sg_checkpoint_seq s..<sg_checkpoint_seq s + length (batch_rows (cp_batches (plan_cycle now_ms force w)) s)]"
proof (cases "map_of (cp_batches (plan_cycle now_ms force w)) (sg_icao s)")
  case (Some b)
  from plan_batch [OF Some] obtain t where t: "t \<in> set (worker_accumulators w)" "sg_icao t = sg_icao s"
    "take_checkpoint t = Some b" by blast
  from all2_back [OF L(1) s] obtain s0 where s0: "s0 \<in> set (worker_accumulators w)" "seam_change s0 s" by blast
  with t separate_icao [OF L(2)] have "t = s0" by (metis seam_change_fields(1))
  with take_checkpoint_rows(3) [OF t(3)] seam_change_fields(5) [OF s0(2)] Some show ?thesis
    by (simp add: batch_rows_def)
qed (simp add: batch_rows_def)

lemma filed_keys_distinct:
  assumes "distinct ss" "inj_on key (set ss)" "\<forall>s \<in> set ss. distinct (map fst (rows s))"
  shows "distinct (map (\<lambda>(i, q, _). (i, q)) (filed key rows ss))"
  using assms
proof (induction ss)
  case (Cons s ss)
  have IH: "distinct (map (\<lambda>(i, q, _). (i, q)) (filed key rows ss))"
    using Cons by (auto intro: inj_on_subset)
  show ?case
  proof (cases "key s")
    case (Some i)
    have other: "key t \<noteq> Some i" if "t \<in> set ss" for t
      using that Cons.prems(1,2) Some by (metis distinct.simps(2) inj_on_eq_iff list.set_intros(1,2))
    have "(i, q, x) \<notin> set (filed key rows ss)" for q x
      using other by (auto simp: filed_set)
    then have "(\<lambda>(i, q, _). (i, q)) ` set (map (Pair i) (rows s)) \<inter>
        (\<lambda>(i, q, _). (i, q)) ` set (filed key rows ss) = {}"
      by auto
    moreover have "distinct (map (\<lambda>(i, q, _). (i, q)) (map (Pair i) (rows s)))"
      using Cons.prems(3) by (auto simp: distinct_map comp_def case_prod_beta' inj_on_def)
    ultimately show ?thesis
      using IH unfolding filed_simps Some option.case map_append distinct_append set_map by blast
  qed (use IH in simp)
qed simp


lemma written_link:
  assumes inv: "worker_inv w" and linked: "linked w db"
    and p: "p = plan_cycle now_ms force w" and w1: "w1 = fold seam_step cs w"
    and wrote: "write_cycle p w1 db = Inr (opened, tracks, db')"
    and w2: "w2 = fold seam_step cs' w1"
  shows "linked (pop_due p (finish_all p opened w2)) db'"
proof -
  let ?L = "worker_accumulators w" and ?L1 = "worker_accumulators w1" and ?L2 = "worker_accumulators w2"
  let ?rows = "batch_rows (cp_batches p)"
  from cycle_facts [OF inv linked p w1 wrote] obtain db1 db2 db4 where facts:
    "separate ?L1" "\<forall>s \<in> set ?L1. stored db s"
    "write_opens (filter (\<lambda>s. sg_sighting_id s = None) ?L1) db = (opened, db1)"
    "frame db db1" "frame db1 db2" "db_sightings db4 = db_sightings db2" "db_aircraft db4 = db_aircraft db2"
    "db_events db4 = db_events db @ filed (row_id opened) (queued_for (cp_queued p)) ?L1"
    "db_checkpoints db4 = db_checkpoints db @ filed (row_id opened) ?rows (named w1 (cp_opens p @ cp_flushes p))"
    "write_closes opened (named w1 (cp_due p)) db4 = Inr (tracks, db')"
    by metis
  note closed = closes_effect [OF facts(10)]
  have inv1: "worker_inv w1" and inv2: "worker_inv w2"
    unfolding w1 w2 by (simp_all add: inv_seams inv)
  have L1: "list_all2 seam_change ?L ?L1" and L2: "list_all2 seam_change ?L1 ?L2"
    unfolding w1 w2 by (rule seams_accumulators)+
  have sepL: "separate ?L" and table: "table_ok db" using linked by (simp_all add: linked_def)
  have inj: "inj_on (row_id opened) (set ?L1)" by (rule row_ids_inj [OF facts(1-3)])
  have numbers: "map fst (?rows s) = [sg_checkpoint_seq s..<sg_checkpoint_seq s + length (?rows s)]"
    if "s \<in> set ?L1" for s
    unfolding p by (rule batch_numbers [OF L1 sepL that])
  have named: "set (named w1 ks) \<subseteq> set ?L1" for ks
    by (auto simp: named_set [OF inv1])
  have has4: "has_row db4 i" if "has_row db1 i" for i
    using frame_has_row [OF facts(5) that] facts(6) by (simp add: has_row_def)
  have row: "\<exists>i. row_id opened s = Some i \<and> has_row db' i" if "s \<in> set ?L1" for s
  proof -
    from row_ids [OF facts(1-3) that] obtain i where i: "row_id opened s = Some i" and
      "has_row db1 i"
      using frame_has_row [OF facts(4)] by (auto simp: has_row_def split: option.splits)
    with has4 closed show ?thesis by blast
  qed
  have old: "has_row db' i" if "has_row db i" for i
    using frame_has_row [OF facts(4) that] has4 closed by blast
  have "\<forall>(i, e) \<in> set (db_events db'). has_row db' i"
    using closed facts(8) table row old by (fastforce simp: table_ok_def filed_set)
  moreover have "\<forall>(i, x) \<in> set (db_checkpoints db'). has_row db' i"
    using closed facts(9) table row old named by (fastforce simp: table_ok_def filed_set)
  moreover have "distinct (map (\<lambda>(i, q, _). (i, q)) (db_checkpoints db'))"
  proof -
    let ?ss = "named w1 (cp_opens p @ cp_flushes p)"
    have "distinct ?ss"
      unfolding p by (rule named_distinct [OF inv1 plan_writes_distinct [OF inv]])
    moreover have "\<forall>s \<in> set ?ss. distinct (map fst (?rows s))"
      using named numbers by (metis distinct_upt subsetD)
    ultimately have new: "distinct (map (\<lambda>(i, q, _). (i, q)) (filed (row_id opened) ?rows ?ss))"
      by (rule filed_keys_distinct [OF _ inj_on_subset [OF inj named]])
    have apart: "(i, q, x) \<notin> set (db_checkpoints db)"
      if "(i, q, y) \<in> set (filed (row_id opened) ?rows ?ss)" for i q x y
    proof
      assume was: "(i, q, x) \<in> set (db_checkpoints db)"
      from that obtain s where s: "s \<in> set ?L1" "row_id opened s = Some i" "(q, y) \<in> set (?rows s)"
        using named by (auto simp: filed_set)
      have "q \<in> set (map fst (?rows s))" using s(3) by force
      then have "sg_checkpoint_seq s \<le> q" unfolding numbers [OF s(1)] by simp
      moreover have "has_row db i" using was table by (auto simp: table_ok_def)
      then have "sg_sighting_id s = Some i"
        using row_ids [OF facts(1-3) s(1)] s(2) by (auto split: option.splits)
      then have "q < sg_checkpoint_seq s"
        using facts(2) s(1) was by (force simp: stored_def rows_of_def split: option.splits)
      ultimately show False by simp
    qed
    have "distinct (map (\<lambda>(i, q, _). (i, q)) (db_checkpoints db4))"
      unfolding facts(9) map_append distinct_append
      using new table apart by (fastforce simp: table_ok_def)
    then show ?thesis using closed by (simp add: distinct_map_filter)
  qed
  ultimately have "table_ok db'" unfolding table_ok_def by blast
  let ?w4 = "pop_due p (finish_all p opened w2)"
  have inv4: "worker_inv ?w4" by (intro inv_pop inv_finish inv2)
  have due: "set (cp_due p) \<subseteq> fst ` set (pw_pending w2)"
  proof
    fix k
    assume "k \<in> set (cp_due p)"
    then have "map_of (pw_pending w) k \<noteq> None"
      unfolding p plan_due [OF inv] by auto
    then have "map_of (pw_pending w2) k \<noteq> None"
      unfolding w2 w1 by simp
    then show "k \<in> fst ` set (pw_pending w2)" by (simp add: map_of_eq_None_iff)
  qed
  have left: "\<exists>s1 \<in> set ?L1. \<exists>s2. seam_change s1 s2 \<and> s = finish_one p opened s2 \<and> sg_icao s1 \<notin> set (cp_due p)"
    if "s \<in> set (worker_accumulators ?w4)" for s
    using left_over [OF inv2 due that] all2_back [OF L2] by (metis seam_change_fields(1))
  note row_of = row_of_finished [OF facts(1-3)]
  have "separate (worker_accumulators ?w4)"
    unfolding separate_def
  proof (intro conjI ballI impI)
    show icaos: "distinct (map sg_icao (worker_accumulators ?w4))" by (rule inv_icaos [OF inv4])
    fix s t
    assume st: "s \<in> set (worker_accumulators ?w4)" "t \<in> set (worker_accumulators ?w4)"
      "sg_sighting_id s = sg_sighting_id t"
    from left [OF st(1)] left [OF st(2)] obtain s1 s2 t1 t2 where
      a: "s1 \<in> set ?L1" "seam_change s1 s2" "s = finish_one p opened s2" and
      b: "t1 \<in> set ?L1" "seam_change t1 t2" "t = finish_one p opened t2" by blast
    with st(3) have "row_id opened s1 = row_id opened t1" by (simp only: row_of)
    then have "s1 = t1" using inj a(1) b(1) by (metis inj_onD)
    then have "sg_icao s = sg_icao t"
      using a b by (simp add: seam_change_fields)
    with st icaos show "s = t" unfolding distinct_map by (auto dest: inj_onD)
  qed
  moreover have "stored db' s" if "s \<in> set (worker_accumulators ?w4)" for s
  proof -
    from left [OF that] obtain s1 s2 where s: "s1 \<in> set ?L1" "seam_change s1 s2"
      "s = finish_one p opened s2" "sg_icao s1 \<notin> set (cp_due p)" by blast
    note fields = seam_change_fields [OF s(2)]
    from row_ids [OF facts(1-3) s(1)] obtain i a where i: "row_id opened s1 = Some i"
      "case sg_sighting_id s1 of None \<Rightarrow> \<not> has_row db i | Some j \<Rightarrow> i = j \<and> has_row db i"
      "map_of opened (sg_icao s1) = (if sg_sighting_id s1 = None then Some (a, i) else None)"
      "sg_sighting_id s1 = None \<longrightarrow> map_of (db_aircraft db1) a \<noteq> None \<and>
         (\<exists>row. map_of (db_sightings db1) i = Some row \<and> sr_ended_ms row = None \<and>
           sr_started_ms row = sg_started_ms s1)"
      by metis
    obtain b where b: "sg_aircraft_id s = Some b" "map_of (db_aircraft db1) b \<noteq> None"
      "\<forall>(q, _) \<in> set (rows_of i db). q < sg_checkpoint_seq s1"
    proof (cases "sg_sighting_id s1")
      case None
      with i fields s(3) fresh_events [OF table, of i] show thesis
        by (intro that [of a]) simp_all
    next
      case (Some j)
      then have "stored db s1" "i = j" using facts(2) s(1) i(2) by auto
      then obtain b row where "sg_aircraft_id s1 = Some b" "map_of (db_aircraft db) b \<noteq> None"
        "map_of (db_sightings db) i = Some row" "sr_ended_ms row = None"
        "sr_started_ms row = sg_started_ms s1" "\<forall>(q, _) \<in> set (rows_of i db). q < sg_checkpoint_seq s1"
        using Some by (auto simp: stored_def split: option.splits)
      moreover from this facts(4) have "map_of (db_aircraft db1) b \<noteq> None"
        unfolding frame_def by metis
      ultimately show thesis
        using i(3) Some fields(1,3) s(3) by (intro that [of b]) simp_all
    qed
    from all2_back [OF L1 s(1)] obtain s0 where s0: "s0 \<in> set ?L" "seam_change s0 s1" by blast
    obtain row where row: "map_of (db_sightings db') i = Some row" "sr_ended_ms row = None"
      "sr_started_ms row = sg_started_ms s1"
      using cycle_events [OF inv linked p w1 wrote s0(1) s(1) s0(2)] i(1) s(4) seam_change_fields(4) [OF s0(2)]
      by auto
    have aircraft: "map_of (db_aircraft db') b \<noteq> None"
      using b(2) facts(5,7) closed unfolding frame_def by metis
    have numbered: "q < sg_checkpoint_seq s" if "(q, x) \<in> set (rows_of i db')" for q x
    proof -
      have seq: "sg_checkpoint_seq s = sg_checkpoint_seq s1 + length (?rows s1)"
        using s(3) fields(1,5) by (simp add: batch_rows_def)
      have "(i, q, x) \<in> set (db_checkpoints db4)"
        using that closed by (auto simp: rows_of_def)
      then consider "(q, x) \<in> set (rows_of i db)"
        | t where "t \<in> set ?L1" "row_id opened t = Some i" "(q, x) \<in> set (?rows t)"
        unfolding facts(9) using named by (force simp: rows_of_def filed_set)
      then show ?thesis
      proof cases
        case 1
        with b(3) seq show ?thesis by fastforce
      next
        case (2 t)
        then have "t = s1" using inj_onD [OF inj _ 2(1) s(1)] i(1) by simp
        with 2(3) have "q \<in> set (map fst (?rows s1))" by force
        then show ?thesis unfolding numbers [OF s(1)] seq by simp
      qed
    qed
    show ?thesis
      using row aircraft numbered b(1) i(1) row_of [OF s(1,2)] fields(4) s(3)
      by (auto simp: stored_def split: option.split)
  qed
  ultimately show ?thesis using \<open>table_ok db'\<close> unfolding linked_def by blast
qed


lemma linked_flags [simp]:
  "linked (w\<lparr>pw_subscription := sub\<rparr>) db = linked w db"
  "linked (w\<lparr>pw_t0_established := b\<rparr>) db = linked w db"
  "linked (w\<lparr>pw_db_errors := n\<rparr>) db = linked w db"
  "linked (w\<lparr>pw_listeners := ls\<rparr>) db = linked w db"
  by (simp_all add: linked_def worker_accumulators_def)

lemma seams_link:
  assumes "linked w db"
  shows "linked (fold seam_step cs w) db"
  using seamed_linked [OF seams_accumulators] assms unfolding linked_def by blast

lemma linked_commit:
  assumes "worker_inv w" "linked w (st_db st)" "commit_cycle env w st = co"
  shows "linked (co_worker co) (st_db (co_storage co))"
  using assms(3)
proof (cases rule: commit_cycle_cases)
  case (written p w1 w3 opened tracks db w5 t0 returned)
  have "linked (pop_due p w3) db"
    unfolding written(4) by (rule written_link [OF assms(1,2) written(1-3) refl])
  with establish_t0_worker [OF written(5)] written(6,7) show ?thesis by auto
qed (use assms(2) in \<open>auto simp: seams_link\<close>)

lemma finished_lookup:
  assumes "worker_inv w" "k \<in> set (cp_due p) \<Longrightarrow> map_of (pw_active w) k = None"
  shows "sighting_for k (pop_due p (finish_all p opened w)) =
     (if k \<in> set (cp_due p) then None else map_option (finish_one p opened) (sighting_for k w))"
  using assms(2) by (cases "map_of (pw_active w) k") (auto simp: sighting_for_def)

section \<open>Properties of cycles\<close>

text \<open>
  Property C6. A committed cycle writes every queued event exactly once, whatever other tasks push in
  while it is in flight: the events of a sighting in the table are those that were there, followed by
  those queued when the cycle was planned; what stays queued is exactly what was queued since. A
  sighting that is gone afterwards has its row closed at the instant it was last heard, with its
  reason and no checkpoint left; every other one has an open row with its own start.
\<close>

theorem cycle_writes_once:
  assumes inv: "worker_inv w" and linked: "linked w (st_db st)"
    and co: "commit_cycle env w st = co" "\<not> cycle_failed co"
    and work: "\<not> nothing_to_do (plan_cycle (ce_now_ms env) (ce_force env) w)"
    and s: "sighting_for k w = Some s"
  shows "\<exists>i row. (sg_sighting_id s = Some i \<or> sg_sighting_id s = None \<and> events_of i (st_db st) = []) \<and>
     events_of i (st_db (co_storage co)) = events_of i (st_db st) @ sg_pending_events s \<and>
     map_of (db_sightings (st_db (co_storage co))) i = Some row \<and> sr_started_ms row = sg_started_ms s \<and>
     (case sighting_for k (co_worker co) of
        None \<Rightarrow> sr_ended_ms row = Some (sg_last_seen_ms s) \<and>
          sr_closure_reason row = Some (sg_closure_reason s) \<and> rows_of i (st_db (co_storage co)) = []
      | Some s' \<Rightarrow> sr_ended_ms row = None \<and> sg_sighting_id s' = Some i \<and>
          (\<exists>t. sighting_for k (fold seam_step (ce_before env @ ce_during env) w) = Some t \<and>
             sg_pending_events t = sg_pending_events s @ sg_pending_events s'))"
  using co(1)
proof (cases rule: commit_cycle_cases)
  case (written p w1 w3 opened tracks db w5 t0 returned)
  define w2 where "w2 = fold seam_step (ce_during env) w1"
  have inv2: "worker_inv w2" unfolding w2_def written(2) by (intro inv_seams inv)
  from s have sL: "s \<in> set (worker_accumulators w)" "sg_icao s = k"
    using known_accumulator [OF inv] by auto
  obtain s1 where s1: "s1 \<in> set (worker_accumulators w1)" "seam_change s s1"
    using all2_forth [OF seams_accumulators sL(1)] unfolding written(2) by blast
  obtain t where t: "t \<in> set (worker_accumulators w2)" "seam_change s1 t"
    using all2_forth [OF seams_accumulators s1(1)] unfolding w2_def by blast
  note change = seam_change_trans [OF s1(2) t(2)]
  have look: "sighting_for k w2 = Some t"
    using known_accumulator [OF inv2] t(1) seam_change_fields(1) [OF change] sL(2) by simp
  have gone: "map_of (pw_active w2) k = None" if "k \<in> set (cp_due p)"
    using that inv_disjoint [OF inv, of k] unfolding w2_def written(1,2) plan_due [OF inv]
    by (cases "map_of (pw_active w) k") auto
  have "sighting_for k (pop_due p w3) =
      (if k \<in> set (cp_due p) then None else Some (finish_one p opened t))"
    using finished_lookup [OF inv2 gone] look unfolding written(4) w2_def [symmetric] by auto
  then have final: "sighting_for k (co_worker co) =
      (if k \<in> set (cp_due p) then None else Some (finish_one p opened t))"
    using establish_t0_worker [OF written(5)] written(6) by auto
  from cycle_events [OF inv linked written(1-3) sL(1) s1] obtain i row where i:
    "case sg_sighting_id s of None \<Rightarrow> \<not> has_row (st_db st) i | Some j \<Rightarrow> i = j"
    "\<forall>a. map_of opened (sg_icao s1) = Some a \<longrightarrow> snd a = i"
    "map_of opened (sg_icao s1) = None \<longrightarrow> sg_sighting_id s = Some i"
    "events_of i db = events_of i (st_db st) @ sg_pending_events s"
    "map_of (db_sightings db) i = Some row" "sr_started_ms row = sg_started_ms s"
    "if sg_icao s1 \<in> set (cp_due p)
     then sr_ended_ms row = Some (sg_last_seen_ms s) \<and> sr_closure_reason row = Some (sg_closure_reason s) \<and>
       rows_of i db = []
     else sr_ended_ms row = None"
    by metis
  have icaos: "sg_icao s1 = k" "sg_icao t = k"
    using seam_change_fields(1) [OF s1(2)] seam_change_fields(1) [OF change] sL(2) by simp_all
  have "table_ok (st_db st)" using linked by (simp add: linked_def)
  then have ids: "sg_sighting_id s = Some i \<or> sg_sighting_id s = None \<and> events_of i (st_db st) = []"
    using i(1) fresh_events by (auto split: option.splits)
  have queued: "queued_for (cp_queued p) t = sg_pending_events s"
    unfolding written(1) using plan_queued [OF inv_icaos [OF inv] sL(1)] icaos sL(2) by simp
  have "sg_sighting_id (finish_one p opened t) = Some i"
    using i(2,3) icaos seam_change_fields(2) [OF change] by (auto split: option.splits)
  moreover have "sg_pending_events t = sg_pending_events s @ sg_pending_events (finish_one p opened t)"
    using seam_change_fields(8) [OF change] queued by auto
  moreover have "fold seam_step (ce_before env @ ce_during env) w = w2"
    by (simp add: w2_def written(2))
  ultimately show ?thesis
    using i ids final icaos look written(7)
    by (intro exI [of _ i] exI [of _ row]) auto
qed (use co work in \<open>auto simp: cycle_failed_def\<close>)

section \<open>Witnesses\<close>

lemma crashed_fields:
  "\<exists>a row. db_aircraft crashed = [(1, a)] \<and> db_sightings crashed = [(1, row)] \<and> db_checkpoints crashed = [] \<and>
     db_events crashed = [] \<and> sr_ended_ms row = None \<and> sr_started_ms row = 0"
  by (simp add: crashed_def open_sighting_def empty_database_def fresh_key_def sample_sighting_def
      new_sighting_def Let_def)

lemma sample_linked: "linked sample_worker (st_db sample_storage)"
proof -
  from crashed_fields obtain a row where f: "db_aircraft crashed = [(1, a)]" "db_sightings crashed = [(1, row)]"
    "db_checkpoints crashed = []" "db_events crashed = []" "sr_ended_ms row = None" "sr_started_ms row = 0"
    by blast
  then show ?thesis
  by (simp add: linked_def table_ok_def separate_def stored_def sample_worker_def sample_storage_def
      worker_accumulators_def new_sighting_def has_row_def rows_of_def)
qed

lemma sample_plan: "plan_cycle 100000 False sample_worker =
  \<lparr>cp_now_ms = 100000, cp_due = [], cp_opens = [''4ca001''], cp_flushes = [''400abc''], cp_batches = [], cp_queued = []\<rparr>"
  by (simp add: plan_cycle_def Let_def sample_worker_def worker_accumulators_def new_sighting_def due_now_def
    needs_flush_def take_checkpoint_def List.map_filter_simps)

lemma sample_writes: "\<exists>x. write_cycle (plan_cycle 100000 False sample_worker) sample_worker crashed = Inr x"
proof -
  from crashed_fields obtain a row where f: "db_aircraft crashed = [(1, a)]" "db_sightings crashed = [(1, row)]"
    by blast
  obtain ids db where o: "open_sighting ((new_sighting ''4ca001'' 1000 5000)\<lparr>sg_close_deadline_ms := Some 605000\<rparr>) crashed = (ids, db)"
    by fastforce
  have "map_of (db_sightings crashed) 1 = Some row" "map_of (db_aircraft crashed) 1 = Some a"
    using f by simp_all
  moreover have "frame crashed db"
    using open_effect(1) o by (metis prod.collapse)
  ultimately have "map_of (db_sightings db) 1 \<noteq> None" "map_of (db_aircraft db) 1 \<noteq> None"
    unfolding frame_def by (metis option.distinct(1))+
  then have "\<exists>d. flush_sighting (1, 1) ((new_sighting ''400abc'' 0 5000)
       \<lparr>sg_aircraft_id := Some 1, sg_sighting_id := Some 1\<rparr>) db = Inr d"
    by (auto simp: flush_sighting_def require_sighting_def require_aircraft_def)
  then obtain d where d: "flush_sighting (1, 1) ((new_sighting ''400abc'' 0 5000)
       \<lparr>sg_aircraft_id := Some 1, sg_sighting_id := Some 1\<rparr>) db = Inr d" ..
  show ?thesis unfolding sample_plan
   by (simp add: write_cycle_def named_def List.map_filter_simps sighting_for_def sample_worker_def o d ids_of_def
      worker_accumulators_def)
qed

lemma sample_fails: "cycle_failed (commit_cycle (sample_env\<lparr>ce_commits := c\<rparr>) sample_worker sample_storage) = (\<not> c)"
proof -
  from sample_writes obtain opened tracks db where
    "write_cycle (plan_cycle 100000 False sample_worker) sample_worker crashed = Inr (opened, tracks, db)" by auto
  then show ?thesis
    by (simp add: commit_cycle_def cycle_failed_def sample_env_def sample_storage_def sample_plan Let_def nothing_to_do_def
       transaction_def no_result_def split: prod.split option.split)
qed

theorem cycle_writes_once_witness:
  "\<exists>i. sg_sighting_id (new_sighting ''4ca001'' 1000 5000) = None \<and>
     events_of i (st_db (co_storage (commit_cycle sample_env sample_worker sample_storage))) = []"
proof -
  have work: "\<not> nothing_to_do (plan_cycle (ce_now_ms sample_env) (ce_force sample_env) sample_worker)"
    by (simp add: sample_env_def sample_plan nothing_to_do_def)
  have ok: "\<not> cycle_failed (commit_cycle sample_env sample_worker sample_storage)"
    using sample_fails [of True] by (simp add: sample_env_def)
  have s: "sighting_for ''4ca001'' sample_worker =
      Some ((new_sighting ''4ca001'' 1000 5000)\<lparr>sg_close_deadline_ms := Some 605000\<rparr>)"
    by (simp add: sighting_for_def sample_worker_def)
  show ?thesis
    using cycle_writes_once [OF sample_worker_inv sample_linked refl ok work s]
    by (auto simp: new_sighting_def)
qed

end
