(* ===== verification/WorkerRuns.thy ===== *)
theory WorkerRuns
  imports WorkerLedger
begin

text \<open>
  The worker over whole runs: from a start on any consistent database, through every interleaving of
  deliveries, calls and cycles, each accumulator stays tied to the row it will write. Then T0, the
  retry of failed cycles, and what a call during the flight of a transaction can lose.
\<close>

section \<open>Accumulators that descend from others\<close>

definition same_row :: "active_sighting \<Rightarrow> active_sighting \<Rightarrow> bool" where
  "same_row s s' \<longleftrightarrow> sg_icao s' = sg_icao s \<and> sg_started_ms s' = sg_started_ms s \<and>
     sg_aircraft_id s' = sg_aircraft_id s \<and> sg_sighting_id s' = sg_sighting_id s \<and>
     sg_checkpoint_seq s' = sg_checkpoint_seq s"

definition derived :: "worker \<Rightarrow> worker \<Rightarrow> bool" where
  "derived w w' \<longleftrightarrow> worker_inv w' \<and> (\<forall>k s'. sighting_for k w' = Some s' \<longrightarrow>
     sg_sighting_id s' = None \<or> (\<exists>s. sighting_for k w = Some s \<and> same_row s s'))"

lemma same_row_refl [simp]: "same_row s s"
  by (simp add: same_row_def)

lemma same_row_trans: "same_row s s' \<Longrightarrow> same_row s' s'' \<Longrightarrow> same_row s s''"
  by (simp add: same_row_def)

lemma same_row_simps [simp]:
  "same_row s (observe r s') = same_row s s'"
  "same_row s (s'\<lparr>sg_close_deadline_ms := d\<rparr>) = same_row s s'"
  "same_row s (s'\<lparr>sg_flush_immediately := b\<rparr>) = same_row s s'"
  "same_row s (s'\<lparr>sg_closure_reason := c\<rparr>) = same_row s s'"
  by (simp_all add: same_row_def)

lemma same_row_stored:
  assumes "same_row s s'"
  shows "stored db s' = stored db s"
proof -
  have eqs: "sg_started_ms s' = sg_started_ms s" "sg_aircraft_id s' = sg_aircraft_id s"
    "sg_sighting_id s' = sg_sighting_id s" "sg_checkpoint_seq s' = sg_checkpoint_seq s"
    using assms by (simp_all add: same_row_def)
  show ?thesis unfolding stored_def eqs by (rule refl)
qed

lemma derived_refl: "worker_inv w \<Longrightarrow> derived w w"
  by (auto simp: derived_def)

lemma derived_trans: "derived w w' \<Longrightarrow> derived w' w'' \<Longrightarrow> derived w w''"
  unfolding derived_def same_row_def by (metis (full_types))

lemma derived_observe: "worker_inv w \<Longrightarrow> derived w (worker_observe record w)"
  unfolding derived_def
  by (intro conjI allI impI inv_observe)
     (auto simp: worker_observe_def sighting_for_def Let_def dict_simps restrict_map_def
       split: option.splits if_splits)

lemma derived_arm: "worker_inv w \<Longrightarrow> derived w (arm_closure record w)"
  unfolding derived_def
  by (intro conjI allI impI inv_arm)
     (auto simp: arm_closure_def sighting_for_def Let_def dict_simps restrict_map_def
       split: option.splits if_splits)

lemma derived_strand: "worker_inv w \<Longrightarrow> derived w (strand icao w)"
  unfolding derived_def
  by (intro conjI allI impI inv_strand)
     (auto simp: strand_def sighting_for_def dict_simps restrict_map_def
       split: option.splits if_splits)

lemma derived_handle: "worker_inv w \<Longrightarrow> derived w (handle event w)"
  by (cases event) (simp_all add: derived_observe derived_arm derived_refl)

lemma derived_inv: "derived w w' \<Longrightarrow> worker_inv w'"
  by (simp only: derived_def)

lemma derived_fold:
  assumes "\<And>x w. worker_inv w \<Longrightarrow> derived w (f x w)"
  shows "worker_inv w \<Longrightarrow> derived w (fold f xs w)"
proof (induction xs arbitrary: w)
  case (Cons x xs)
  with assms [OF Cons.prems, of x] show ?case
    by (auto dest: derived_inv intro: derived_trans)
qed (simp add: derived_refl)

lemma derived_resync:
  assumes "worker_inv w"
  shows "derived w (resync live sub w)"
proof -
  have sub: "derived w (w'\<lparr>pw_subscription := x\<rparr>) = derived w w'" for w' x
    by (simp add: derived_def)
  let ?w1 = "fold worker_observe live w"
  have w1: "derived w ?w1"
    by (rule derived_fold [OF derived_observe assms])
  have "derived ?w1 (fold strand icaos ?w1)" for icaos
    by (rule derived_fold [OF derived_strand derived_inv [OF w1]])
  with w1 show ?thesis
    unfolding resync_def Let_def sub by (rule derived_trans)
qed

lemma linked_derived:
  assumes "worker_inv w" "linked w db" "derived w w'"
  shows "linked w' db"
proof -
  have inv: "worker_inv w'" by (rule derived_inv [OF assms(3)])
  have from_w: "sg_sighting_id s' = None \<or> (\<exists>s \<in> set (worker_accumulators w). same_row s s')"
    if "s' \<in> set (worker_accumulators w')" for s'
    using that assms(3) known_accumulator [OF inv] known_accumulator [OF assms(1)]
    unfolding derived_def by metis
  have icaos: "distinct (map sg_icao (worker_accumulators w'))" by (rule inv_icaos [OF inv])
  have "s' = t'" if st: "s' \<in> set (worker_accumulators w')" "t' \<in> set (worker_accumulators w')"
    "sg_sighting_id s' \<noteq> None" "sg_sighting_id s' = sg_sighting_id t'" for s' t'
  proof -
    from from_w [OF st(1)] from_w [OF st(2)] st(3,4) obtain s t where
      "s \<in> set (worker_accumulators w)" "t \<in> set (worker_accumulators w)" "same_row s s'" "same_row t t'"
      by auto
    with st(3,4) assms(2) have "sg_icao s' = sg_icao t'"
      unfolding linked_def separate_def same_row_def by metis
    with st(1,2) icaos show ?thesis unfolding distinct_map by (auto dest: inj_onD)
  qed
  then have "separate (worker_accumulators w')" using icaos unfolding separate_def by blast
  moreover have "stored db s'" if "s' \<in> set (worker_accumulators w')" for s'
    using from_w [OF that] assms(2) same_row_stored unfolding linked_def
    by (auto simp: stored_def)
  ultimately show ?thesis using assms(2) unfolding linked_def by blast
qed

section \<open>Runs\<close>

text \<open>A cycle of the drain task commits some worker that descends from the one before.\<close>

lemma process_plan:
  assumes "worker_inv w" "linked w db" "pw_subscription w = Some sub"
  shows "\<exists>w2. worker_inv w2 \<and> linked w2 db \<and>
     (\<forall>st. co_worker (process_pending env live w st) = co_worker (commit_cycle env w2 st) \<and>
        co_storage (process_pending env live w st) = co_storage (commit_cycle env w2 st))"
proof -
  let ?w0 = "w\<lparr>pw_subscription := Some (fst (drain sub))\<rparr>"
  let ?w1 = "fold handle (snd (drain sub)) ?w0"
  let ?w2 = "if sub_overflowed (fst (drain sub)) then resync live (fst (drain sub)) ?w1 else ?w1"
  have inv: "worker_inv ?w0" and linked: "linked ?w0 db" using assms by simp_all
  have d1: "derived ?w0 ?w1" by (rule derived_fold [OF derived_handle inv])
  have d: "derived ?w0 ?w2"
    using d1 derived_resync [OF derived_inv [OF d1]] derived_trans by (auto split: if_splits)
  show ?thesis
    using derived_inv [OF d] linked_derived [OF inv linked d]
    by (intro exI [of _ ?w2]) (auto simp: process_pending_def assms(3) Let_def split_beta)
qed

lemma linked_process:
  assumes "worker_inv w" "linked w (st_db st)" "process_pending env live w st = co"
  shows "linked (co_worker co) (st_db (co_storage co))"
proof (cases "pw_subscription w")
  case (Some sub)
  from process_plan [OF assms(1,2) Some] obtain w2 where "worker_inv w2" "linked w2 (st_db st)"
    "co_worker co = co_worker (commit_cycle env w2 st)" "co_storage co = co_storage (commit_cycle env w2 st)"
    using assms(3) by metis
  with linked_commit [OF _ _ refl] show ?thesis by metis
qed (use assms in \<open>auto simp: process_pending_def\<close>)

lemma linked_step:
  "worker_step (w, st) (w', st') \<Longrightarrow> worker_inv w \<Longrightarrow> linked w (st_db st) \<Longrightarrow> linked w' (st_db st')"
  using seams_link [of w _ "[_]"]
  by (auto elim!: worker_stepE intro: linked_process simp: subscribe_lifecycle_def unsubscribe_lifecycle_def)

lemma linked_run:
  "worker_step\<^sup>*\<^sup>* c c' \<Longrightarrow> worker_inv (fst c) \<and> linked (fst c) (st_db (snd c)) \<Longrightarrow>
     worker_inv (fst c') \<and> linked (fst c') (st_db (snd c'))"
  by (induction rule: rtranclp_induct) (auto simp: inv_step intro: linked_step)

section \<open>Starts\<close>

text \<open>The rows recovery reads, and that closing some leaves the others alone.\<close>

definition row_ready :: "database \<Rightarrow> open_sighting_row \<Rightarrow> bool" where
  "row_ready db r \<longleftrightarrow> stored db (to_accumulator r)"

lemma to_accumulator_fields [simp]:
  "sg_sighting_id (to_accumulator r) = Some (snd (os_ids r))"
  "sg_aircraft_id (to_accumulator r) = Some (fst (os_ids r))"
  "sg_started_ms (to_accumulator r) = sr_started_ms (os_row r)"
  "sg_checkpoint_seq (to_accumulator r) = os_checkpoint_seq r"
  "sg_icao (to_accumulator r) = os_icao24 r"
  by (simp_all add: to_accumulator_def Let_def new_sighting_def)

lemma adopted_rows:
  "same_row (to_accumulator r) (continuing close_ms r)" "same_row (to_accumulator r) (retrying close_ms r)"
  by (simp_all add: continuing_def retrying_def accumulator_def Let_def same_row_def)

lemma adopted_ids:
  "sg_sighting_id (continuing close_ms r) = Some (snd (os_ids r))"
  "sg_sighting_id (retrying close_ms r) = Some (snd (os_ids r))"
  using adopted_rows [of r close_ms] by (simp_all add: same_row_def)

definition row_key :: "open_sighting_row \<Rightarrow> int" where
  "row_key r = snd (os_ids r)"

lemma distinct_keys:
  "distinct (map (\<lambda>r. Some (row_key r)) rs) = distinct (map row_key rs)"
  by (induction rs) auto

lemma adopted_id_maps:
  "map sg_sighting_id (map (continuing close_ms) rs) = map (\<lambda>r. Some (row_key r)) rs"
  "map sg_sighting_id (map (retrying close_ms) rs) = map (\<lambda>r. Some (row_key r)) rs"
  by (induction rs) (simp_all only: list.map adopted_ids row_key_def)

lemma checkpoint_rows_set: "set (checkpoint_rows i db) = set (rows_of i db)"
  by (simp add: checkpoint_rows_def rows_of_def)

lemma open_row_member:
  assumes "r \<in> set (open_row db (sid, row))"
  shows "sr_ended_ms row = None" "map_of (db_aircraft db) (sr_aircraft_id row) \<noteq> None"
    "os_ids r = (sr_aircraft_id row, sid)" "os_row r = row"
    "os_checkpoint_seq r = (case newest (map fst (checkpoint_rows sid db)) of None \<Rightarrow> 0 | Some seq \<Rightarrow> seq + 1)"
  using assms by (cases "map_of (db_aircraft db) (sr_aircraft_id row)"; simp add: open_row_def split: if_splits)+

lemma loaded_ready:
  assumes "distinct (map fst (db_sightings db))" "r \<in> set (load_open_sightings db)"
  shows "row_ready db r"
proof -
  from assms(2) obtain sid row where row: "(sid, row) \<in> set (db_sightings db)" "r \<in> set (open_row db (sid, row))"
    by (auto simp: load_open_sightings_def)
  note r = open_row_member [OF row(2)]
  have "q < os_checkpoint_seq r" if "(q, x) \<in> set (rows_of sid db)" for q x
  proof -
    have "q \<in> fst ` set (checkpoint_rows sid db)" using that by (force simp: checkpoint_rows_set)
    moreover from this have "q \<le> Max (fst ` set (checkpoint_rows sid db))" by (intro Max_ge) auto
    moreover from calculation have "newest (map fst (checkpoint_rows sid db)) = Some (Max (fst ` set (checkpoint_rows sid db)))"
      by (auto simp: newest_def)
    ultimately show ?thesis by (simp add: r(5) less_Suc_eq_le)
  qed
  with row(1) r assms(1) show ?thesis by (auto simp: row_ready_def stored_def)
qed

lemma loaded_distinct:
  assumes "distinct (map fst (db_sightings db))"
  shows "distinct (map row_key (load_open_sightings db))"
proof -
  have "distinct (map row_key (concat (map (open_row db) rows))) \<and>
      (\<forall>r \<in> set (concat (map (open_row db) rows)). row_key r \<in> fst ` set rows)"
    if "distinct (map fst rows)" for rows
    using that
  proof (induction rows)
    case (Cons x rows)
    have one: "map row_key (open_row db x) \<in> {[], [fst x]}"
      by (cases x; cases "map_of (db_aircraft db) (sr_aircraft_id (snd x))") (simp_all add: open_row_def row_key_def)
    then have mem: "row_key r = fst x" if "r \<in> set (open_row db x)" for r
      using that by auto
    have IH: "distinct (map row_key (concat (map (open_row db) rows)))"
      "\<And>r. r \<in> set (concat (map (open_row db) rows)) \<Longrightarrow> row_key r \<in> fst ` set rows"
      using Cons by (auto simp del: set_concat)
    have "fst x \<notin> fst ` set rows" using Cons.prems by simp
    then have "set (map row_key (open_row db x)) \<inter>
        set (map row_key (concat (map (open_row db) rows))) = {}"
      using mem IH(2) by fastforce
    moreover have "distinct (map row_key (open_row db x))" using one by auto
    ultimately show ?case using IH mem by (auto simp del: set_concat)
  qed simp
  from this [OF assms] show ?thesis
    unfolding load_open_sightings_def by (simp add: distinct_map del: set_concat)
qed

lemma close_keeps:
  assumes "close_sighting ids s reason db = Inr (track, db')"
  shows "table_ok db \<Longrightarrow> table_ok db'"
    "row_ready db r \<Longrightarrow> snd (os_ids r) \<noteq> snd ids \<Longrightarrow> row_ready db' r"
proof -
  note eff = close_effect [OF assms]
  obtain row' where sightings: "map_of (db_sightings db') = (map_of (db_sightings db))(snd ids \<mapsto> row')"
    using eff(3) by blast
  show "table_ok db'" if "table_ok db"
    using that eff(1,2) sightings by (auto simp: table_ok_def has_row_def distinct_map_filter)
  show "row_ready db' r" if "row_ready db r" "snd (os_ids r) \<noteq> snd ids"
    using that eff(2,4) sightings
    by (auto simp: row_ready_def stored_def rows_of_def split: option.splits)
qed

lemma close_rows_keeps:
  "close_rows rows points db = Inr (points', db') \<Longrightarrow>
     (table_ok db \<longrightarrow> table_ok db') \<and>
     (\<forall>r. row_ready db r \<longrightarrow> row_key r \<notin> row_key ` set rows \<longrightarrow> row_ready db' r)"
proof (induction rows points db rule: close_rows.induct)
  case (2 q rows points db)
  then obtain track db1 where one: "close_sighting (os_ids q) (accumulator q) ShutdownRecovery db = Inr (track, db1)"
    "close_rows rows (points + fst track) db1 = Inr (points', db')"
    by (auto simp: bindE_Inr_iff)
  from "2.IH" [OF one(2)] close_keeps [OF one(1)] show ?case by (auto simp: row_key_def)
qed simp


lemma close_batches_keeps:
  assumes "close_batches commits batches tally db = (tally', db')"
    and "distinct (map row_key (bt_failed tally @ concat batches @ others))" "table_ok db"
    and "\<forall>r \<in> set (bt_failed tally @ concat batches @ others). row_ready db r"
  shows "table_ok db' \<and> distinct (map row_key (bt_failed tally' @ others)) \<and>
     (\<forall>r \<in> set (bt_failed tally' @ others). row_ready db' r)"
  using assms
proof (induction commits batches tally db arbitrary: tally' rule: close_batches.induct)
  case (1 commits tally db)
  then show ?case by auto
next
  case (2 commits batch batches tally db)
  show ?case
  proof (cases "close_batch (commits (bt_transactions tally)) batch db")
    case None
    let ?t = "tally\<lparr>bt_transactions := Suc (bt_transactions tally), bt_failed := bt_failed tally @ batch\<rparr>"
    have run: "close_batches commits batches ?t db = (tally', db')"
      using "2.prems"(1) None by (simp add: Let_def)
    show ?thesis
      by (rule "2.IH"(1) [OF refl refl None run]) (use "2.prems" in auto)
  next
    case (Some x)
    obtain points db1 where x: "x = (points, db1)" by (cases x)
    let ?t = "tally\<lparr>bt_transactions := Suc (bt_transactions tally),
      bt_recovered := bt_recovered tally + length batch, bt_points := bt_points tally + points\<rparr>"
    have run: "close_batches commits batches ?t db1 = (tally', db')"
      using "2.prems"(1) Some x by (simp add: Let_def)
    have "close_rows batch 0 db = Inr (points, db1)"
      using Some x by (auto simp: close_batch_def split: sum.splits if_splits)
    note kept = close_rows_keeps [OF this]
    have "row_key r \<notin> row_key ` set batch" if "r \<in> set (bt_failed tally @ concat batches @ others)" for r
      using that "2.prems"(2) by (auto simp del: set_concat)
    moreover have "row_ready db r" if "r \<in> set (bt_failed tally @ concat batches @ others)" for r
      using that "2.prems"(4) by (auto simp del: set_concat)
    ultimately have "\<forall>r \<in> set (bt_failed tally @ concat batches @ others). row_ready db1 r"
      using kept by blast
    moreover have "distinct (map row_key (bt_failed tally @ concat batches @ others))"
      using "2.prems"(2) by (auto simp del: set_concat)
    moreover have "table_ok db1" using kept "2.prems"(3) by blast
    ultimately show ?thesis
      by (intro "2.IH"(2) [OF refl refl Some x [symmetric] run]) simp_all
  qed
qed

lemma recovered_link:
  assumes "run_recovery commits close_ms batch_size now_ms db = (report, pending, db')" "0 < batch_size"
    and "table_ok db" "distinct (map fst (db_sightings db))"
  shows "table_ok db' \<and> (\<forall>s \<in> set pending. stored db' s) \<and> inj_on sg_sighting_id (set pending)"
proof -
  let ?db = "delete_orphans (fst (scan_orphans db)) db"
  from run_recovery_parts [OF assms(1,2)] obtain rows stale failed where
    parts: "recovery_parts commits close_ms batch_size now_ms db report pending db' rows stale failed"
    by blast
  have rows: "rows = load_open_sightings ?db"
    and pending: "pending = map (continuing close_ms) (filter (\<lambda>r. \<not> stale r) rows) @ map (retrying close_ms) failed"
    using parts by (simp_all add: recovery_parts_def)
  from parts obtain t t' where run: "bt_failed t = []" "bt_failed t' = failed"
      "close_batches commits (chunks batch_size (filter stale rows)) t ?db = (t', db')"
    unfolding recovery_parts_def by blast
  let ?others = "filter (\<lambda>r. \<not> stale r) rows"
  have same: "db_sightings ?db = db_sightings db" "db_events ?db = db_events db"
    by (simp_all add: delete_orphans_def)
  have table: "table_ok ?db"
    using assms(3) by (auto simp: table_ok_def has_row_def same delete_orphans_rows distinct_map_filter)
  have ready: "row_ready ?db r" if "r \<in> set rows" for r
    using loaded_ready [of ?db r] that assms(4) by (simp add: rows same)
  have "distinct (map row_key rows)"
    using loaded_distinct [of ?db] assms(4) by (simp add: rows same)
  then have "distinct (map row_key (filter stale rows @ ?others))"
    by (auto simp: distinct_map inj_on_def)
  with ready table run(1) have
    kept: "table_ok db'" "distinct (map row_key (failed @ ?others))" "\<forall>r \<in> set (failed @ ?others). row_ready db' r"
    using close_batches_keeps [OF run(3), of ?others, unfolded concat_chunks [OF assms(2)]]
    unfolding run(2) by auto
  have adopted: "\<exists>r \<in> set (failed @ ?others). same_row (to_accumulator r) s" if "s \<in> set pending" for s
    using that unfolding pending by (auto intro: adopted_rows)
  have stored: "stored db' s" if "s \<in> set pending" for s
    using adopted [OF that] kept(3) same_row_stored unfolding row_ready_def by metis
  have "map sg_sighting_id pending = map (\<lambda>r. Some (row_key r)) (?others @ failed)"
    unfolding pending by (simp only: map_append adopted_id_maps)
  moreover have "distinct (map (\<lambda>r. Some (row_key r)) (?others @ failed))"
    using kept(2) unfolding distinct_keys by (simp only: map_append distinct_append Int_commute simp_thms)
  ultimately have "distinct (map sg_sighting_id pending)" by (simp only:)
  then have "inj_on sg_sighting_id (set pending)" by (simp add: distinct_map)
  then show ?thesis using kept(1) stored by blast
qed

lemma updated_values: "set (map snd (AList.update k s al)) \<subseteq> insert s (set (map snd al))"
  by (induction al) auto

lemma adopts_values: "set (worker_accumulators (fold adopt ss w)) \<subseteq> set (worker_accumulators w) \<union> set ss"
proof (induction ss arbitrary: w)
  case (Cons s ss)
  have "set (worker_accumulators (adopt s w)) \<subseteq> insert s (set (worker_accumulators w))"
    using updated_values [of "sg_icao s" s "pw_pending w"]
    by (auto simp: adopt_def worker_accumulators_def)
  with Cons.IH [of "adopt s w"] show ?case by auto
qed simp

lemma start_link:
  assumes "new_worker close_s flush_interval_s tick_s queue_size = Inr w0"
    and "start_worker commits now_ms sub w0 st0 = (w, st)"
    and "table_ok (st_db st0)" "distinct (map fst (db_sightings (st_db st0)))"
  shows "worker_inv w \<and> linked w (st_db st)"
proof -
  have inv: "worker_inv w" using inv_new [OF assms(1)] inv_start [OF _ _ assms(2)] by blast
  obtain report pending db where
    run: "run_recovery commits (pw_close_ms w0) DEFAULT_RECOVERY_BATCH now_ms (st_db st0) = (report, pending, db)"
    by (metis prod_cases3)
  have "0 < DEFAULT_RECOVERY_BATCH" by (simp add: DEFAULT_RECOVERY_BATCH_def)
  note recovered = recovered_link [OF run this assms(3,4)]
  have w: "w = fold adopt pending (w0\<lparr>pw_subscription := Some sub, pw_t0_established := st_t0 st0 \<noteq> None,
      pw_recovery := report\<rparr>)" and st: "st = st0\<lparr>st_db := db\<rparr>"
    using assms(2) run by (simp_all add: start_worker_def)
  have "worker_accumulators w0 = []"
    using assms(1) by (auto simp: new_worker_def worker_accumulators_def split: if_splits)
  then have from_pending: "set (worker_accumulators w) \<subseteq> set pending"
    using adopts_values [of pending "w0\<lparr>pw_subscription := Some sub,
      pw_t0_established := st_t0 st0 \<noteq> None, pw_recovery := report\<rparr>"]
    unfolding w [symmetric] by (simp add: worker_accumulators_def)
  then have "separate (worker_accumulators w)"
    using recovered inv_icaos [OF inv] unfolding separate_def by (meson inj_onD subsetD)
  with inv recovered from_pending show ?thesis unfolding linked_def st by auto
qed

section \<open>Properties of runs\<close>

text \<open>
  Property C7. The worker never loses or shares a row: from a start on any database whose children
  have their row, with whatever the recovery could commit, through any interleaving of deliveries,
  calls from other tasks, successful and failing cycles, each open sighting that was ever written
  still has its own open row with its own start, no two have the same, the checkpoint numbers it will
  use next are above every one in the table, and no primary key of a checkpoint is used twice.
\<close>

theorem worker_rows_linked:
  assumes "new_worker close_s flush_interval_s tick_s queue_size = Inr w0"
    and "start_worker commits now_ms sub w0 st0 = (w, st)"
    and "table_ok (st_db st0)" "distinct (map fst (db_sightings (st_db st0)))"
    and "worker_step\<^sup>*\<^sup>* (w, st) (w', st')"
  shows "linked w' (st_db st')"
  using linked_run [OF assms(5)] start_link [OF assms(1-4)] by simp

section \<open>T0\<close>

definition starts_at :: "database \<Rightarrow> int \<Rightarrow> bool" where
  "starts_at db t \<longleftrightarrow> (\<exists>i row. map_of (db_sightings db) i = Some row \<and> sr_started_ms row = t)"

lemma frame_starts: "frame db db' \<Longrightarrow> starts_at db t \<Longrightarrow> starts_at db' t"
  unfolding frame_def starts_at_def by metis

lemma closes_starts: "write_closes opened ss db = Inr (tracks, db') \<Longrightarrow> starts_at db t \<Longrightarrow> starts_at db' t"
proof (induction ss arbitrary: db tracks)
  case (Cons s ss)
  obtain ids track db1 tracks' where one:
    "close_sighting ids s (sg_closure_reason s) db = Inr (track, db1)" "write_closes opened ss db1 = Inr (tracks', db')"
    using Cons.prems(1) by (auto simp: bindE_Inr_iff)
  obtain row row' where "map_of (db_sightings db) (snd ids) = Some row"
    "map_of (db_sightings db1) = (map_of (db_sightings db))(snd ids \<mapsto> row')" "sr_started_ms row' = sr_started_ms row"
    using close_effect(3) [OF one(1)] by blast
  with Cons.prems(2) have "starts_at db1 t" unfolding starts_at_def by (metis fun_upd_apply option.inject)
  then show ?case by (rule Cons.IH [OF one(2)])
qed simp

lemma written_starts:
  assumes "write_cycle p w db = Inr (opened, tracks, db')" "starts_at db t"
  shows "starts_at db' t"
proof -
  from write_cycle_stages [OF assms(1)] obtain db1 db2 db4 where stages:
    "write_opens (named w (cp_opens p)) db = (opened, db1)" "frame db1 db2" "db_sightings db4 = db_sightings db2"
    "write_closes opened (named w (cp_due p)) db4 = Inr (tracks, db')"
    by metis
  have "starts_at db1 t" using opens_effect [OF stages(1)] frame_starts [OF _ assms(2)] by blast
  then have "starts_at db4 t"
    using frame_starts [OF stages(2)] unfolding starts_at_def stages(3) by blast
  with closes_starts [OF stages(4)] show ?thesis .
qed

lemma establish_cases:
  assumes "establish_t0 commits opens w old = (w', t0, returned)"
  shows "t0 = old \<or> old = None \<and> (\<exists>s \<in> set opens. t0 = Some (sg_started_ms s) \<and> 0 < sg_started_ms s \<and>
     (\<forall>u \<in> set opens. sg_started_ms s \<le> sg_started_ms u))"
proof (cases "opens = []")
  case False
  define t where "t = Min (set (map sg_started_ms opens))"
  have "t \<in> set (map sg_started_ms opens)" unfolding t_def using False by (intro Min_in) auto
  then obtain s where "s \<in> set opens" "sg_started_ms s = t" by auto
  moreover have "t \<le> sg_started_ms u" if "u \<in> set opens" for u
    unfolding t_def using that by (intro Min_le) auto
  moreover have "t0 = old \<or> old = None \<and> t0 = Some t \<and> 0 < t"
    using assms unfolding establish_t0_def t_def [symmetric] by (auto simp: set_t0_once_def split: if_splits option.splits)
  ultimately show ?thesis by metis
qed (use assms in \<open>auto simp: establish_t0_def\<close>)

definition t0_follows :: "storage \<Rightarrow> storage \<Rightarrow> bool" where
  "t0_follows st st' \<longleftrightarrow> (\<forall>t. starts_at (st_db st) t \<longrightarrow> starts_at (st_db st') t) \<and>
     (st_t0 st' = st_t0 st \<or> st_t0 st = None \<and> (\<exists>t > 0. st_t0 st' = Some t \<and> starts_at (st_db st') t))"

lemma t0_refl [simp]: "t0_follows st st"
  by (simp add: t0_follows_def)

lemma t0_trans: "t0_follows st st' \<Longrightarrow> t0_follows st' st'' \<Longrightarrow> t0_follows st st''"
  unfolding t0_follows_def by (metis option.distinct(1) option.inject)

lemma t0_commit:
  assumes inv: "worker_inv w" and linked: "linked w (st_db st)" and co: "commit_cycle env w st = co"
  shows "t0_follows st (co_storage co)"
  using co
proof (cases rule: commit_cycle_cases)
  case (written p w1 w3 opened tracks db w5 t0 returned)
  define w2 where "w2 = fold seam_step (ce_during env) w1"
  have inv2: "worker_inv w2" unfolding w2_def written(2) by (intro inv_seams inv)
  have "starts_at db (sg_started_ms s)" if "s \<in> set (named w3 (cp_opens p))" for s
  proof -
    have "s \<in> set (worker_accumulators w3)"
      using that named_set [OF inv_finish [OF inv2]] unfolding written(4) w2_def [symmetric] by blast
    then obtain u where u: "u \<in> set (worker_accumulators w2)" "s = finish_one p opened u"
      unfolding written(4) w2_def [symmetric] finish_accumulators by auto
    obtain v where v: "v \<in> set (worker_accumulators w1)" "seam_change v u"
      using all2_back [OF seams_accumulators u(1) [unfolded w2_def]] by blast
    obtain x where x: "x \<in> set (worker_accumulators w)" "seam_change x v"
      using all2_back [OF seams_accumulators v(1) [unfolded written(2)]] by blast
    have "starts_at db (sg_started_ms x)"
      using cycle_events [OF inv linked written(1-3) x(1) v(1) x(2)] unfolding starts_at_def by blast
    then show ?thesis
      using seam_change_fields(4) [OF x(2)] seam_change_fields(4) [OF v(2)] u(2) by simp
  qed
  with establish_cases [OF written(5)] written_starts [OF written(3)] show ?thesis
    unfolding t0_follows_def written(7) by auto
qed (simp_all add: t0_refl)

lemma t0_process:
  assumes inv: "worker_inv w" and linked: "linked w (st_db st)" and co: "process_pending env live w st = co"
  shows "t0_follows st (co_storage co)"
proof (cases "pw_subscription w")
  case (Some sub)
  from process_plan [OF inv linked Some] obtain w2 where
    "worker_inv w2" "linked w2 (st_db st)" "co_storage (process_pending env live w st) = co_storage (commit_cycle env w2 st)"
    by blast
  with t0_commit co show ?thesis by metis
qed (use co in \<open>auto simp: process_pending_def\<close>)

lemma t0_run:
  assumes "worker_step\<^sup>*\<^sup>* c c'" "worker_inv (fst c)" "linked (fst c) (st_db (snd c))"
  shows "t0_follows (snd c) (snd c')"
  using assms(1)
proof (induction rule: rtranclp_induct)
  case (step c' c'')
  obtain w st w' st' where c: "c' = (w, st)" "c'' = (w', st')" by (metis surj_pair)
  have "worker_inv w" "linked w (st_db st)"
    using linked_run [OF step(1)] assms(2,3) c by auto
  with step(2) have "t0_follows st st'"
    unfolding c by (auto elim!: worker_stepE intro: t0_process)
  with step.IH t0_trans show ?case unfolding c snd_conv by blast
qed simp

text \<open>
  T0 is written once and marks a sighting: through any interleaving from a linked start
  a T0 that is set never changes, and one that gets set is positive and is the start of a sighting
  whose row is in the table, even when its own transaction comes late.
\<close>

theorem t0_written_once:
  assumes "worker_inv w" "linked w (st_db st)" "worker_step\<^sup>*\<^sup>* (w, st) (w', st')"
  shows "case st_t0 st of
      Some t \<Rightarrow> st_t0 st' = Some t
    | None \<Rightarrow> (case st_t0 st' of None \<Rightarrow> True | Some t \<Rightarrow> 0 < t \<and>
        (\<exists>i row. map_of (db_sightings (st_db st')) i = Some row \<and> sr_started_ms row = t))"
  using t0_run [OF assms(3)] assms(1,2) unfolding starts_at_def [symmetric]
  by (auto simp: t0_follows_def split: option.split)

section \<open>Failing cycles\<close>

text \<open>The error counter is the only trace of a failure.\<close>

definition bump :: "worker \<Rightarrow> worker" where
  "bump w = w\<lparr>pw_db_errors := Suc (pw_db_errors w)\<rparr>"

lemma bump_fields [simp]:
  "pw_active (bump w) = pw_active w" "pw_pending (bump w) = pw_pending w"
  "pw_flush_interval_ms (bump w) = pw_flush_interval_ms w" "pw_listeners (bump w) = pw_listeners w"
  "pw_t0_established (bump w) = pw_t0_established w" "sighting_for k (bump w) = sighting_for k w"
  "worker_accumulators (bump w) = worker_accumulators w" "named (bump w) = named w"
  by (simp_all add: bump_def worker_accumulators_def named_def fun_eq_iff)

lemma bump_commutes:
  "seam_step c (bump w) = bump (seam_step c w)" "finish_all p opened (bump w) = bump (finish_all p opened w)"
  "pop_due p (bump w) = bump (pop_due p w)" "plan_cycle now_ms force (bump w) = plan_cycle now_ms force w"
  "write_cycle p (bump w) db = write_cycle p w db" "notify_lifecycle event (bump w) = notify_lifecycle event w"
  "establish_t0 commits opens (bump w) old = apfst bump (establish_t0 commits opens w old)"
proof -
  have put: "put_sighting icao s (bump w) = bump (put_sighting icao s w)" for icao s
    by (simp add: put_sighting_def bump_def)
  show "seam_step c (bump w) = bump (seam_step c w)"
    by (cases c) (auto simp: worker_apply_route_def worker_apply_inferred_airport_def
        worker_apply_alert_severity_def put bindE_def split: option.splits sum.splits prod.splits)
  show "finish_all p opened (bump w) = bump (finish_all p opened w)" "pop_due p (bump w) = bump (pop_due p w)"
    by (simp_all add: finish_all_def pop_due_def bump_def)
  show "plan_cycle now_ms force (bump w) = plan_cycle now_ms force w"
    "write_cycle p (bump w) db = write_cycle p w db" "notify_lifecycle event (bump w) = notify_lifecycle event w"
    by (simp_all add: plan_cycle_def write_cycle_def notify_lifecycle_def)
  show "establish_t0 commits opens (bump w) old = apfst bump (establish_t0 commits opens w old)"
    by (simp add: establish_t0_def bump_def split: sum.split)
qed

lemma bump_seams: "fold seam_step cs (bump w) = bump (fold seam_step cs w)"
  by (induction cs arbitrary: w) (simp_all add: bump_commutes)

lemma bump_commit: "commit_cycle env (bump w) st = (commit_cycle env w st)\<lparr>co_worker := bump (co_worker (commit_cycle env w st))\<rparr>"
  unfolding commit_cycle_def Let_def bump_commutes bump_seams bump_fields
  by (simp add: bump_def [symmetric] split: option.split prod.split)

text \<open>
  Property C9. A failed cycle costs nothing but its place in the error counter: nothing is written,
  nobody is notified, and every later cycle does exactly what it would have done had the cycle never
  been tried and only the calls made meanwhile had come.
\<close>

theorem failed_cycle_leaves_no_trace:
  assumes "commit_cycle env w st = co" "cycle_failed co"
  defines "called \<equiv> fold seam_step (ce_before env @ ce_during env) w"
  shows "co_storage co = st \<and> co_notified co = [] \<and>
     commit_cycle later (co_worker co) st = (commit_cycle later called st)
       \<lparr>co_worker := (co_worker (commit_cycle later called st))
          \<lparr>pw_db_errors := Suc (pw_db_errors (co_worker (commit_cycle later called st)))\<rparr>\<rparr>"
  using assms(1)
proof (cases rule: commit_cycle_cases)
  case (failed w2)
  then have "co_worker co = bump called" by (simp add: called_def bump_def)
  with failed bump_commit [of later called st] show ?thesis by (simp add: bump_def)
qed (use assms(2) in \<open>auto simp: cycle_failed_def no_result_def\<close>)

section \<open>Witnesses\<close>

lemma sample_tables: "table_ok (st_db sample_storage)" "distinct (map fst (db_sightings (st_db sample_storage)))"
  using sample_linked crashed_fields by (auto simp: linked_def sample_storage_def)

theorem worker_rows_linked_witness:
  "table_ok (st_db (snd sample_end)) \<and> separate (worker_accumulators (fst sample_end))"
  using worker_rows_linked [OF sample_new sample_started sample_tables sample_run] by (simp add: linked_def)

theorem t0_written_once_witness:
  "case st_t0 (snd sample_end) of None \<Rightarrow> True | Some t \<Rightarrow> 0 < t"
proof -
  have "worker_inv (fst sample_start) \<and> linked (fst sample_start) (st_db (snd sample_start))"
    by (rule start_link [OF sample_new sample_started sample_tables])
  moreover have "st_t0 (snd sample_start) = None"
    by (simp add: sample_start_def start_worker_def sample_storage_def split: prod.split)
  ultimately show ?thesis
    using t0_written_once [OF _ _ sample_run] by (auto split: option.splits)
qed

theorem failed_cycle_leaves_no_trace_witness:
  "co_storage (commit_cycle (sample_env\<lparr>ce_commits := False\<rparr>) sample_worker sample_storage) = sample_storage"
  using failed_cycle_leaves_no_trace [OF refl, of "sample_env\<lparr>ce_commits := False\<rparr>" sample_worker sample_storage]
    sample_fails [of False] by simp

end
