(* ===== verification/WorkerDurability.thy ===== *)
theory WorkerDurability
  imports WorkerRuns
begin

text \<open>
  What a flush makes durable, and what it does not: the row of a flushed sighting holds the columns
  the accumulator had when the statement was issued, and the accumulator is then marked clean as it
  is when the transaction has committed. The two differ when another task calls in between.
\<close>

section \<open>The row of a flushed sighting\<close>

lemma flushes_others:
  "write_flushes ss db = Inr db' \<Longrightarrow> \<forall>t \<in> set ss. sg_sighting_id t \<noteq> Some i \<Longrightarrow>
     map_of (db_sightings db') i = map_of (db_sightings db) i"
proof (induction ss arbitrary: db)
  case (Cons s ss)
  obtain ids db1 where one: "ids_of s = Inr ids" "flush_sighting ids s db = Inr db1" "write_flushes ss db1 = Inr db'"
    using Cons.prems(1) by (auto simp: bindE_Inr_iff)
  have "snd ids \<noteq> i" using one(1) Cons.prems(2) by (auto simp: ids_of_def split: option.splits)
  then have "map_of (db_sightings db1) i = map_of (db_sightings db) i"
    using one(2) by (auto simp: flush_sighting_def bindE_Inr_iff dict_simps)
  with Cons.IH [OF one(3)] Cons.prems(2) show ?case by simp
qed simp

lemma flushes_row:
  assumes "write_flushes ss db = Inr db'" "s \<in> set ss" "sg_sighting_id s = Some i" "distinct ss"
    and "\<forall>t \<in> set ss. sg_sighting_id t = Some i \<longrightarrow> t = s"
  shows "\<exists>row. map_of (db_sightings db') i = Some row \<and> sr_running row = running_of s"
  using assms
proof (induction ss arbitrary: db)
  case (Cons t ss)
  obtain ids db1 where one: "ids_of t = Inr ids" "flush_sighting ids t db = Inr db1" "write_flushes ss db1 = Inr db'"
    using Cons.prems(1) by (auto simp: bindE_Inr_iff)
  show ?case
  proof (cases "t = s")
    case True
    then have "snd ids = i" using one(1) Cons.prems(3) by (auto simp: ids_of_def split: option.splits)
    then have "\<exists>row. map_of (db_sightings db1) i = Some row \<and> sr_running row = running_of s"
      using one(2) True by (auto simp: flush_sighting_def bindE_Inr_iff dict_simps apply_running_def)
    moreover have "\<forall>u \<in> set ss. sg_sighting_id u \<noteq> Some i"
      using Cons.prems(4,5) True by (metis distinct.simps(2) list.set_intros(2))
    ultimately show ?thesis using flushes_others [OF one(3)] by simp
  next
    case False
    with Cons.prems(2) have "s \<in> set ss" by simp
    moreover have "distinct ss" "\<forall>u \<in> set ss. sg_sighting_id u = Some i \<longrightarrow> u = s"
      using Cons.prems(4,5) by simp_all
    ultimately show ?thesis using Cons.IH [OF one(3) _ Cons.prems(3)] by blast
  qed
qed simp

lemma write_cycle_flushes:
  assumes "write_cycle p w db = Inr (opened, tracks, db')"
  obtains db1 db2 db4 where
    "write_opens (named w (cp_opens p)) db = (opened, db1)"
    "write_flushes (named w (cp_flushes p)) db1 = Inr db2" "db_sightings db4 = db_sightings db2"
    "write_closes opened (named w (cp_due p)) db4 = Inr (tracks, db')"
proof -
  obtain db1 where opens: "write_opens (named w (cp_opens p)) db = (opened, db1)"
    using assms by (cases "write_opens (named w (cp_opens p)) db")
      (auto simp: write_cycle_def bindE_Inr_iff)
  with assms obtain db2 db3 db4 where stages:
    "write_flushes (named w (cp_flushes p)) db1 = Inr db2"
    "write_batches opened (cp_batches p) (named w (cp_opens p @ cp_flushes p)) db2 = Inr db3"
    "write_events opened (cp_queued p) (worker_accumulators w) db3 = Inr db4"
    "write_closes opened (named w (cp_due p)) db4 = Inr (tracks, db')"
    by (auto simp: write_cycle_def bindE_Inr_iff)
  show thesis
    by (rule that [OF opens stages(1) _ stages(4)])
       (use batches_effect [OF stages(2)] events_effect [OF stages(3)] in simp)
qed

definition to_flush :: "cycle_env \<Rightarrow> worker \<Rightarrow> active_sighting \<Rightarrow> bool" where
  "to_flush env w s \<longleftrightarrow> sg_sighting_id s \<noteq> None \<and>
     needs_flush (ce_now_ms env) (pw_flush_interval_ms w) (ce_force env) s \<and>
     \<not> due_now (ce_now_ms env) s"

lemma planned_flushes:
  assumes "worker_inv w"
  shows "cp_flushes (plan_cycle (ce_now_ms env) (ce_force env) w) =
    map sg_icao (filter (to_flush env w) (worker_accumulators w))"
proof -
  let ?due = "sg_icao ` set (filter (due_now (ce_now_ms env)) (map snd (pw_pending w)))"
  have "sg_icao s \<in> ?due \<longleftrightarrow> due_now (ce_now_ms env) s" if s: "s \<in> set (worker_accumulators w)" for s
  proof
    assume "sg_icao s \<in> ?due"
    then obtain t where found: "t \<in> set (filter (due_now (ce_now_ms env)) (map snd (pw_pending w)))"
      and same: "sg_icao s = sg_icao t" by blast
    from found same [symmetric] have t: "t \<in> set (map snd (pw_pending w))" "due_now (ce_now_ms env) t" "sg_icao t = sg_icao s"
      unfolding set_filter by blast+
    then have "t \<in> set (worker_accumulators w)" by (simp add: worker_accumulators_def)
    with s t(3) have "t = s" using inv_icaos [OF assms] unfolding distinct_map by (auto dest: inj_onD)
    with t(2) show "due_now (ce_now_ms env) s" by simp
  next
    assume due: "due_now (ce_now_ms env) s"
    have "sg_close_deadline_ms t = None" if "t \<in> set (map snd (pw_active w))" for t
      using that assms by (auto simp: worker_inv_def dict_ok_def)
    then have "s \<notin> set (map snd (pw_active w))"
      using due by (auto simp: due_now_def simp del: set_map)
    with s have "s \<in> set (map snd (pw_pending w))"
      by (simp add: worker_accumulators_def)
    with due show "sg_icao s \<in> ?due" by force
  qed
  then have "filter (\<lambda>s. sg_icao s \<notin> ?due \<and> sg_sighting_id s \<noteq> None \<and>
      needs_flush (ce_now_ms env) (pw_flush_interval_ms w) (ce_force env) s) (worker_accumulators w)
    = filter (to_flush env w) (worker_accumulators w)"
    by (intro filter_cong [OF refl]) (auto simp: to_flush_def)
  then show ?thesis by (simp add: plan_cycle_def Let_def)
qed


lemma flushed_row:
  fixes env :: cycle_env
  assumes inv: "worker_inv w" and linked: "linked w db"
    and p: "p = plan_cycle (ce_now_ms env) (ce_force env) w" and w1: "w1 = fold seam_step cs w"
    and wrote: "write_cycle p w1 db = Inr (opened, tracks, db')"
    and s: "s \<in> set (worker_accumulators w1)" "sg_icao s \<in> set (cp_flushes p)"
      "sg_sighting_id s = Some i" "sg_icao s \<notin> set (cp_due p)"
  shows "\<exists>row. map_of (db_sightings db') i = Some row \<and> sr_running row = running_of s"
proof -
  have inv1: "worker_inv w1" unfolding w1 by (rule inv_seams [OF inv])
  from cycle_facts [OF inv linked p w1 wrote] obtain db1 where facts:
    "separate (worker_accumulators w1)" "\<forall>s \<in> set (worker_accumulators w1). stored db s"
    "write_opens (filter (\<lambda>s. sg_sighting_id s = None) (worker_accumulators w1)) db = (opened, db1)"
    by metis
  from write_cycle_flushes [OF wrote] obtain d1 d2 d4 where stages:
    "write_flushes (named w1 (cp_flushes p)) d1 = Inr d2" "db_sightings d4 = db_sightings d2"
    "write_closes opened (named w1 (cp_due p)) d4 = Inr (tracks, db')"
    by metis
  have only: "t = s" if "t \<in> set (worker_accumulators w1)" "sg_sighting_id t = Some i" for t
    using that s(1,3) facts(1) unfolding separate_def by (metis option.distinct(1))
  have "distinct (map sg_icao (filter (to_flush env w) (worker_accumulators w)))"
    using inv_icaos [OF inv] by (rule distinct_map_filter)
  then have "distinct (named w1 (cp_flushes p))"
    unfolding p planned_flushes [OF inv] by (rule named_distinct [OF inv1])
  moreover have "s \<in> set (named w1 (cp_flushes p))"
    using s(1,2) by (simp add: named_set [OF inv1])
  moreover have "\<forall>t \<in> set (named w1 (cp_flushes p)). sg_sighting_id t = Some i \<longrightarrow> t = s"
    using only by (simp add: named_set [OF inv1])
  ultimately have "\<exists>row. map_of (db_sightings d2) i = Some row \<and> sr_running row = running_of s"
    using flushes_row [OF stages(1) _ s(3)] by blast
  moreover have "row_id opened s = Some i"
    using row_ids [OF facts s(1)] s(3) by auto
  then have row: "row_id opened t = Some i \<Longrightarrow> t = s" if "t \<in> set (worker_accumulators w1)" for t
    using row_ids_inj [OF facts] that s(1) by (metis inj_onD)
  have "Some i \<notin> row_id opened ` set (named w1 (cp_due p))"
    using row s(4) by (force simp: named_set [OF inv1])
  then have "map_of (db_sightings db') i = map_of (db_sightings d2) i"
    using closes_effect [OF stages(3)] stages(2) by simp
  ultimately show ?thesis by simp
qed


lemma marks_columns [simp]:
  "running_of (mark_flushed now_ms s) = running_of s" "running_of (mark_checkpointed b s) = running_of s"
  "running_of (mark_events_written n s) = running_of s"
  "running_of (s\<lparr>sg_aircraft_id := a\<rparr>) = running_of s" "running_of (s\<lparr>sg_sighting_id := i\<rparr>) = running_of s"
  by (simp_all add: mark_events_written_def mark_checkpointed_def mark_flushed_def
      running_of_def rssi_avg_db_def pos_time_pct_def duration_ms_def)

lemma marks_clean [simp]:
  "\<not> sg_dirty (mark_flushed now_ms s)" "sg_dirty (mark_checkpointed b s) = sg_dirty s"
  "sg_dirty (mark_events_written n s) = sg_dirty s"
  "sg_last_flush_ms (mark_flushed now_ms s) = Some now_ms"
  "sg_last_flush_ms (mark_checkpointed b s) = sg_last_flush_ms s"
  "sg_last_flush_ms (mark_events_written n s) = sg_last_flush_ms s"
  by (simp_all add: mark_events_written_def mark_checkpointed_def mark_flushed_def)

lemma finish_one_columns [simp]: "running_of (finish_one p opened s) = running_of s"
  by (simp add: finish_one_def Let_def split: option.split prod.split)

lemma finish_one_clean [simp]:
  "sg_icao s \<in> set (cp_flushes p) \<Longrightarrow> \<not> sg_dirty (finish_one p opened s)"
  "sg_icao s \<in> set (cp_flushes p) \<Longrightarrow> sg_last_flush_ms (finish_one p opened s) = Some (cp_now_ms p)"
  by (simp_all add: finish_one_def Let_def split: option.split)

lemma columns_route: "running_of s' = running_of t \<Longrightarrow> sighting_route_of s' = sighting_route_of t"
  by (simp add: running_of_def sighting_route_of_def split: option.split)

definition flushed :: "cycle_env \<Rightarrow> cycle_outcome \<Rightarrow> active_sighting \<Rightarrow> active_sighting \<Rightarrow> active_sighting \<Rightarrow> active_sighting \<Rightarrow> int \<Rightarrow> sighting_row \<Rightarrow> bool" where
  "flushed env co s s1 t s' i row \<longleftrightarrow> sg_sighting_id s = Some i \<and> sg_sighting_id s' = Some i \<and>
     map_of (db_sightings (st_db (co_storage co))) i = Some row \<and> sr_running row = running_of s1 \<and>
     running_of s' = running_of t \<and> \<not> sg_dirty s' \<and> sg_last_flush_ms s' = Some (ce_now_ms env) \<and>
     sg_pending_events s' = drop (length (sg_pending_events s)) (sg_pending_events t)"

lemma flush_outcome:
  assumes inv: "worker_inv w" and linked: "linked w (st_db st)"
    and co: "commit_cycle env w st = co" "\<not> cycle_failed co"
    and s: "sighting_for k w = Some s" "to_flush env w s"
  shows "\<exists>s1 t s' i row. sighting_for k (fold seam_step (ce_before env) w) = Some s1 \<and>
     sighting_for k (fold seam_step (ce_before env @ ce_during env) w) = Some t \<and>
     sighting_for k (co_worker co) = Some s' \<and> flushed env co s s1 t s' i row"
proof -
  let ?p = "plan_cycle (ce_now_ms env) (ce_force env) w"
  have sL: "s \<in> set (worker_accumulators w)" "sg_icao s = k"
    using s(1) known_accumulator [OF inv] by auto
  have flush: "k \<in> set (cp_flushes ?p)"
    using sL s(2) unfolding planned_flushes [OF inv] by force
  obtain i where i: "sg_sighting_id s = Some i" using s(2) by (auto simp: to_flush_def)
  have not_due: "k \<notin> set (cp_due ?p)"
  proof
    assume "k \<in> set (cp_due ?p)"
    then obtain u where u: "map_of (pw_pending w) k = Some u" "sg_last_seen_ms u + pw_close_ms w \<le> ce_now_ms env"
      unfolding plan_due [OF inv] by blast
    then have "sighting_for k w = Some u"
      using inv_disjoint [OF inv, of k] by (auto simp: sighting_for_def split: option.split)
    with s(1) u inv have "due_now (ce_now_ms env) s"
      by (auto simp: worker_inv_def due_now_def armed_def dest: dict_ok_lookup)
    with s(2) show False by (simp add: to_flush_def)
  qed
  from co(1) show ?thesis
  proof (cases rule: commit_cycle_cases)
    case idle
    with flush show ?thesis by (auto simp: nothing_to_do_def)
  next
    case (written p w1 w3 opened tracks db w5 t0 returned)
    define w2 where "w2 = fold seam_step (ce_during env) w1"
    have inv1: "worker_inv w1" unfolding written(2) by (rule inv_seams [OF inv])
    have inv2: "worker_inv w2" unfolding w2_def by (rule inv_seams [OF inv1])
    obtain s1 where s1: "s1 \<in> set (worker_accumulators w1)" "seam_change s s1"
      using all2_forth [OF seams_accumulators sL(1)] unfolding written(2) by blast
    obtain t where t: "t \<in> set (worker_accumulators w2)" "seam_change s1 t"
      using all2_forth [OF seams_accumulators s1(1)] unfolding w2_def by blast
    note change = seam_change_trans [OF s1(2) t(2)]
    have icaos: "sg_icao s1 = k" "sg_icao t = k"
      using seam_change_fields(1) [OF s1(2)] seam_change_fields(1) [OF change] sL(2) by simp_all
    have look: "sighting_for k w1 = Some s1" "sighting_for k w2 = Some t"
      using known_accumulator [OF inv1] known_accumulator [OF inv2] s1(1) t(1) icaos by auto
    have "sighting_for k (pop_due p w3) = Some (finish_one p opened t)"
      using finished_lookup [OF inv2, of k p opened] look(2) not_due
      unfolding written(4) w2_def [symmetric] written(1) by simp
    then have final: "sighting_for k (co_worker co) = Some (finish_one p opened t)"
      using establish_t0_worker [OF written(5)] written(6) by auto
    have id1: "sg_sighting_id s1 = Some i" using seam_change_fields(2) [OF s1(2)] i by simp
    obtain row where row: "map_of (db_sightings db) i = Some row" "sr_running row = running_of s1"
      using flushed_row [OF inv linked written(1-3) s1(1) _ id1] flush not_due icaos
      unfolding written(1) by auto
    have "sg_sighting_id (finish_one p opened t) = Some i"
    proof -
      from cycle_events [OF inv linked written(1-3) sL(1) s1] obtain j where
        "case sg_sighting_id s of None \<Rightarrow> \<not> has_row (st_db st) j | Some j' \<Rightarrow> j = j'"
        "\<forall>a. map_of opened (sg_icao s1) = Some a \<longrightarrow> snd a = j"
        by blast
      then show ?thesis
        using i icaos seam_change_fields(2) [OF change] by (auto split: option.split)
    qed
    moreover have "queued_for (cp_queued p) t = sg_pending_events s"
      unfolding written(1) using plan_queued [OF inv_icaos [OF inv] sL(1)] icaos sL(2) by simp
    moreover have "sg_icao t \<in> set (cp_flushes p)" "cp_now_ms p = ce_now_ms env"
      using flush icaos by (simp_all add: written(1) plan_fields)
    ultimately have "flushed env co s s1 t (finish_one p opened t) i row"
      using i row written(7) by (simp add: flushed_def)
    moreover have "fold seam_step (ce_before env @ ce_during env) w = w2"
      by (simp add: w2_def written(2))
    ultimately show ?thesis using look final written(2) by auto
  qed (use co in \<open>auto simp: cycle_failed_def\<close>)
qed

section \<open>Properties\<close>

text \<open>
  Property C10. A flush makes a sighting durable: when a cycle that flushes it commits and no other
  task calls while the transaction is in flight, its row holds the columns the accumulator has
  afterwards, so the accumulator is rightly marked clean and dated with the cycle.
\<close>

theorem flush_makes_durable:
  assumes "worker_inv w" "linked w (st_db st)"
    and "commit_cycle env w st = co" "\<not> cycle_failed co"
    and "sighting_for k w = Some s" "to_flush env w s" "ce_during env = []"
  shows "\<exists>s' i row. sighting_for k (co_worker co) = Some s' \<and> sg_sighting_id s' = Some i \<and>
     map_of (db_sightings (st_db (co_storage co))) i = Some row \<and> sr_running row = running_of s' \<and>
     \<not> sg_dirty s' \<and> sg_last_flush_ms s' = Some (ce_now_ms env)"
  using flush_outcome [OF assms(1-6)] assms(7) by (auto simp: flushed_def)

text \<open>
  A route that arrives while the flush of its sighting is in flight is split from its
  event: the row keeps the old columns and the accumulator is marked clean all the same, so no cycle,
  not even a forced one, owes the row a write, while the event is still queued and will be written
  without it; only a later observation or the close writes the columns.
\<close>

theorem route_during_flush_splits:
  assumes "worker_inv w" "linked w (st_db st)"
    and "commit_cycle env w st = co" "\<not> cycle_failed co"
    and "sighting_for k w = Some s" "to_flush env w s"
    and "ce_before env = []" "ce_during env = [RouteCall k route at_ms]" "snd (apply_route route at_ms s)"
  shows "\<exists>s' i row. sighting_for k (co_worker co) = Some s' \<and> sg_sighting_id s' = Some i \<and>
     map_of (db_sightings (st_db (co_storage co))) i = Some row \<and> sr_running row = running_of s \<and>
     sighting_route_of s' = Some route \<and> sr_running row \<noteq> running_of s' \<and>
     map pe_type (sg_pending_events s') = [RouteEnriched] \<and>
     (\<forall>now_ms interval_ms force. \<not> needs_flush now_ms interval_ms force s')"
proof -
  let ?t = "fst (apply_route route at_ms s)"
  have inv: "worker_inv w" by (rule assms(1))
  have icao: "sg_icao s = k" by (rule inv_sighting_for [OF inv assms(5)])
  from flush_outcome [OF assms(1-6)] assms(7,8) obtain t s' i row where
    t: "sighting_for k (fst (worker_apply_route k route at_ms w)) = Some t"
    and s': "sighting_for k (co_worker co) = Some s'" "flushed env co s s t s' i row"
    using assms(5) by auto
  have "t = ?t"
    using t assms(5) by (auto simp: worker_apply_route_def sighting_for_def put_sighting_def dict_simps
        split: prod.splits option.splits if_splits)
  then have "running_of t \<noteq> running_of s" "sighting_route_of t = Some route"
    "map pe_type (drop (length (sg_pending_events s)) (sg_pending_events t)) = [RouteEnriched]"
    using assms(9) by (auto simp: apply_route_def running_of_def sighting_route_of_def touch_def emit_def
        split: if_splits)
  with s' show ?thesis
    by (intro exI [of _ s'] exI [of _ i] exI [of _ row]) (auto simp: flushed_def needs_flush_def dest: columns_route)
qed

section \<open>Witnesses\<close>

lemma sample_flush:
  "sighting_for ''400abc'' sample_worker = Some ((new_sighting ''400abc'' 0 5000)
     \<lparr>sg_aircraft_id := Some 1, sg_sighting_id := Some 1\<rparr>)"
  "to_flush (sample_env\<lparr>ce_during := cs\<rparr>) sample_worker ((new_sighting ''400abc'' 0 5000)
     \<lparr>sg_aircraft_id := Some 1, sg_sighting_id := Some 1\<rparr>)"
  by (simp_all add: sighting_for_def sample_worker_def to_flush_def sample_env_def needs_flush_def due_now_def
      new_sighting_def)

lemma sample_succeeds: "\<not> cycle_failed (commit_cycle (sample_env\<lparr>ce_during := cs\<rparr>) sample_worker sample_storage)"
proof -
  from sample_writes obtain opened tracks db where
    "write_cycle (plan_cycle 100000 False sample_worker) sample_worker crashed = Inr (opened, tracks, db)" by auto
  then show ?thesis
    by (simp add: commit_cycle_def cycle_failed_def sample_env_def sample_storage_def sample_plan Let_def
        nothing_to_do_def transaction_def no_result_def split: prod.split option.split)
qed

theorem flush_makes_durable_witness:
  "\<exists>s'. sighting_for ''400abc'' (co_worker (commit_cycle (sample_env\<lparr>ce_during := []\<rparr>) sample_worker sample_storage)) = Some s' \<and>
     \<not> sg_dirty s'"
  using flush_makes_durable [OF sample_worker_inv sample_linked refl sample_succeeds sample_flush] by auto

theorem route_during_flush_splits_witness:
  "\<exists>s'. sighting_for ''400abc'' (co_worker (commit_cycle (sample_env\<lparr>ce_during := [sample_call]\<rparr>) sample_worker sample_storage)) = Some s' \<and>
     sg_pending_events s' \<noteq> [] \<and> \<not> needs_flush 200000 30000 True s'"
proof -
  have changes: "snd (apply_route \<lparr>rt_origin_ident = Some ''EGLL'', rt_destination_ident = Some ''KJFK'', rt_source = ''adsbdb''\<rparr>
      90000 ((new_sighting ''400abc'' 0 5000)\<lparr>sg_aircraft_id := Some 1, sg_sighting_id := Some 1\<rparr>))"
    by (simp add: apply_route_def new_sighting_def)
  show ?thesis
    using route_during_flush_splits [OF sample_worker_inv sample_linked refl sample_succeeds sample_flush _ _ changes,
        of "[sample_call]"]
    by (auto simp: sample_env_def sample_call_def)
qed

end
