(* ===== verification/ProviderLimits.thy ===== *)
theory ProviderLimits
  imports Health
begin

text \<open>
  \<^verbatim>\<open>enrichment/limits.py\<close>: the token bucket and the circuit breaker in front of the route provider,
  and the gate \<^verbatim>\<open>enrichment/service.py\<close> builds from the two. The monotonic clock is an argument of
  every operation that reads it.
\<close>

section \<open>The token bucket\<close>

definition SECONDS_PER_MINUTE :: real where "SECONDS_PER_MINUTE = 60"
definition DEFAULT_RATE_PER_MINUTE :: real where "DEFAULT_RATE_PER_MINUTE = 10"
definition DEFAULT_BURST :: int where "DEFAULT_BURST = 10"
definition DEFAULT_FAILURE_THRESHOLD :: int where "DEFAULT_FAILURE_THRESHOLD = 3"
definition DEFAULT_COOLDOWN_S :: real where "DEFAULT_COOLDOWN_S = 300"

record token_bucket =
  tb_rate_per_s :: real
  tb_burst :: real
  tb_tokens :: real
  tb_last_s :: real

definition new_bucket :: "real \<Rightarrow> int \<Rightarrow> real \<Rightarrow> token_bucket result" where
  "new_bucket rate_per_minute burst now_s =
     (if rate_per_minute \<le> 0 then Inl ValueError
      else if burst < 1 then Inl ValueError
      else Inr \<lparr>tb_rate_per_s = rate_per_minute / SECONDS_PER_MINUTE, tb_burst = of_int burst,
                tb_tokens = of_int burst, tb_last_s = now_s\<rparr>)"

definition refill :: "real \<Rightarrow> token_bucket \<Rightarrow> token_bucket" where
  "refill now_s b =
     (let elapsed_s = now_s - tb_last_s b
      in b\<lparr>tb_tokens := (if 0 < elapsed_s
                         then min (tb_burst b) (tb_tokens b + elapsed_s * tb_rate_per_s b)
                         else tb_tokens b),
           tb_last_s := now_s\<rparr>)"

definition take_token :: "real \<Rightarrow> token_bucket \<Rightarrow> token_bucket \<times> bool" where
  "take_token now_s b =
     (let b1 = refill now_s b
      in if tb_tokens b1 < 1 then (b1, False)
         else (b1\<lparr>tb_tokens := tb_tokens b1 - 1\<rparr>, True))"

fun take_run :: "real list \<Rightarrow> token_bucket \<Rightarrow> token_bucket \<times> bool list" where
  "take_run [] b = (b, [])"
| "take_run (t # ts) b =
     (let (b1, granted) = take_token t b; (b2, rest) = take_run ts b1 in (b2, granted # rest))"

definition bucket_ok :: "token_bucket \<Rightarrow> bool" where
  "bucket_ok b \<longleftrightarrow> 0 < tb_rate_per_s b \<and> 1 \<le> tb_burst b \<and> 0 \<le> tb_tokens b \<and> tb_tokens b \<le> tb_burst b"

definition granted :: "bool list \<Rightarrow> nat" where
  "granted bs = length (filter id bs)"

lemma granted_simps [simp]:
  "granted [] = 0" "granted (x # bs) = (if x then Suc (granted bs) else granted bs)"
  "granted (as @ bs) = granted as + granted bs"
  by (simp_all add: granted_def)

lemma new_bucket_ok: "new_bucket rate burst now_s = Inr b \<Longrightarrow> bucket_ok b \<and> tb_last_s b = now_s \<and> tb_burst b = of_int burst \<and> tb_rate_per_s b = rate / 60"
  by (auto simp: new_bucket_def bucket_ok_def SECONDS_PER_MINUTE_def split: if_splits)

lemma refill_fields [simp]:
  "tb_rate_per_s (refill t b) = tb_rate_per_s b" "tb_burst (refill t b) = tb_burst b"
  "tb_last_s (refill t b) = t"
  by (simp_all add: refill_def Let_def)

lemma take_fields:
  assumes "take_token t b = (b', g)"
  shows "tb_rate_per_s b' = tb_rate_per_s b" "tb_burst b' = tb_burst b" "tb_last_s b' = t"
    "tb_tokens b' = tb_tokens (refill t b) - (if g then 1 else 0)" "g \<longleftrightarrow> 1 \<le> tb_tokens (refill t b)"
  using assms by (auto simp: take_token_def Let_def split: if_splits)

lemma refill_ok: "bucket_ok b \<Longrightarrow> bucket_ok (refill t b)"
  by (auto simp: bucket_ok_def refill_def Let_def add_nonneg_nonneg)

lemma take_ok: "bucket_ok b \<Longrightarrow> take_token t b = (b', g) \<Longrightarrow> bucket_ok b'"
  using refill_ok [of b t] take_fields [of t b b' g] by (auto simp: bucket_ok_def)

lemma refill_accrual:
  "tb_last_s b \<le> t \<Longrightarrow> bucket_ok b \<Longrightarrow>
     tb_tokens (refill t b) = min (tb_burst b) (tb_tokens b + (t - tb_last_s b) * tb_rate_per_s b)"
  by (auto simp: refill_def Let_def bucket_ok_def)

lemma take_run_append:
  "take_run (ts @ us) b = (let (b1, gs) = take_run ts b; (b2, hs) = take_run us b1 in (b2, gs @ hs))"
  by (induction ts arbitrary: b) (auto simp: Let_def split: prod.split)

lemma take_run_ok:
  assumes "take_run ts b = (b', gs)" "bucket_ok b"
  shows "bucket_ok b' \<and> tb_rate_per_s b' = tb_rate_per_s b \<and> tb_burst b' = tb_burst b \<and>
     tb_last_s b' = last (tb_last_s b # ts) \<and> length gs = length ts"
  using assms
proof (induction ts arbitrary: b gs)
  case (Cons t ts)
  obtain b1 g where one: "take_token t b = (b1, g)" by fastforce
  obtain hs where rest: "take_run ts b1 = (b', hs)" "gs = g # hs"
    using Cons.prems(1) one by (auto split: prod.splits)
  from Cons.IH [OF rest(1) take_ok [OF Cons.prems(2) one]] take_fields [OF one] rest(2)
  show ?case by simp
qed simp

text \<open>What is granted is paid for: by the tokens there were and those that accrued.\<close>

lemma take_run_paid:
  assumes "take_run ts b = (b', gs)" "bucket_ok b" "sorted (tb_last_s b # ts)"
  shows "of_nat (granted gs) \<le> tb_tokens b + tb_rate_per_s b * (last (tb_last_s b # ts) - tb_last_s b)"
  using assms
proof (induction ts arbitrary: b gs)
  case (Cons t ts)
  obtain b1 g where one: "take_token t b = (b1, g)" by fastforce
  obtain hs where rest: "take_run ts b1 = (b', hs)" "gs = g # hs"
    using Cons.prems(1) one by (auto split: prod.splits)
  note f = take_fields [OF one]
  have order: "tb_last_s b \<le> t" "sorted (tb_last_s b1 # ts)" using Cons.prems(3) f(3) by auto
  from Cons.IH [OF rest(1) take_ok [OF Cons.prems(2) one] order(2)]
  have "of_nat (granted hs) \<le> tb_tokens b1 + tb_rate_per_s b * (last (t # ts) - t)" by (simp add: f(1,3))
  moreover have "tb_tokens (refill t b) \<le> tb_tokens b + (t - tb_last_s b) * tb_rate_per_s b"
    by (simp add: refill_accrual [OF order(1) Cons.prems(2)])
  moreover have "of_nat (granted gs) = of_nat (granted hs) + (tb_tokens (refill t b) - tb_tokens b1)"
    by (simp add: f(4) rest(2))
  ultimately show ?case by (simp add: algebra_simps split: if_splits)
qed (simp add: bucket_ok_def)

text \<open>
  Property C19. The provider is never asked faster than configured: in any window of a run of
  requests, from its first to its last one, no more are granted than the burst plus the sustained
  rate times the length of the window; there is no window boundary at which the limit doubles.
\<close>

theorem bucket_bounds_every_window:
  assumes "new_bucket rate burst now_s = Inr b" "sorted (now_s # before @ window)" "window \<noteq> []"
    and "take_run (before @ window) b = (b', gs)"
  shows "of_nat (granted (drop (length before) gs)) \<le> of_int burst + rate / 60 * (last window - hd window)"
proof -
  note new = new_bucket_ok [OF assms(1)]
  obtain b1 gs1 where run1: "take_run before b = (b1, gs1)" by fastforce
  obtain gs2 where run2: "take_run window b1 = (b', gs2)" "gs = gs1 @ gs2"
    using assms(4) run1 by (auto simp: take_run_append split: prod.splits)
  have ok1: "bucket_ok b1" "tb_rate_per_s b1 = rate / 60" "tb_burst b1 = of_int burst"
    "tb_last_s b1 = last (now_s # before)" "length gs1 = length before"
    using take_run_ok [OF run1] new by auto
  obtain t ts where w: "window = t # ts" using assms(3) by (cases window) auto
  obtain b2 g where one: "take_token t b1 = (b2, g)" by fastforce
  obtain hs where rest: "take_run ts b2 = (b', hs)" "gs2 = g # hs"
    using run2(1) one unfolding w by (auto split: prod.splits)
  note f = take_fields [OF one]
  have "sorted (tb_last_s b2 # ts)" using assms(2) unfolding w f(3) by (auto simp: sorted_append)
  from take_run_paid [OF rest(1) take_ok [OF ok1(1) one] this]
  have "of_nat (granted hs) \<le> tb_tokens b2 + rate / 60 * (last window - hd window)"
    using f(1,3) ok1(2) by (simp add: w)
  moreover have "tb_tokens (refill t b1) \<le> of_int burst"
    using refill_ok [OF ok1(1), of t] ok1(3) by (simp add: bucket_ok_def)
  ultimately show ?thesis using f(4) ok1(5) rest(2) run2(2) by (simp split: if_splits)
qed

text \<open>
  A refusal is a delay and not a starvation: after a refused request the next one that
  comes a minute divided by the rate later, or any time after that, is granted.
\<close>

theorem bucket_grants_after_wait:
  assumes "bucket_ok b" "tb_rate_per_s b = rate / 60" "tb_last_s b \<le> t" "t + 60 / rate \<le> t'"
    and "take_token t b = (b', False)"
  shows "snd (take_token t' b')"
proof -
  note f = take_fields [OF assms(5)]
  have ok: "bucket_ok b'" by (rule take_ok [OF assms(1,5)])
  have rate: "0 < rate" using assms(1,2) by (simp add: bucket_ok_def zero_less_divide_iff)
  have "60 / rate \<le> t' - t" using assms(4) by simp
  then have "60 / rate * (rate / 60) \<le> (t' - t) * (rate / 60)"
    using rate by (intro mult_right_mono) auto
  then have "1 \<le> (t' - t) * (rate / 60)" using rate by simp
  moreover have "t \<le> t'" using rate \<open>60 / rate \<le> t' - t\<close> by (smt (verit) divide_pos_pos)
  ultimately have "1 \<le> tb_tokens (refill t' b')"
    using refill_accrual [of b' t'] ok f(1,3) assms(2) by (auto simp: bucket_ok_def)
  then show ?thesis using take_fields(5) [of t' b'] by (metis prod.collapse)
qed


section \<open>The circuit breaker\<close>

record circuit_breaker =
  cb_threshold :: int
  cb_cooldown_s :: real
  cb_failures :: nat
  cb_opened_at_s :: "real option"
  cb_probing :: bool

definition new_breaker :: "int \<Rightarrow> real \<Rightarrow> circuit_breaker result" where
  "new_breaker failure_threshold cooldown_s =
     (if failure_threshold < 1 then Inl ValueError
      else if cooldown_s \<le> 0 then Inl ValueError
      else Inr \<lparr>cb_threshold = failure_threshold, cb_cooldown_s = cooldown_s, cb_failures = 0,
                cb_opened_at_s = None, cb_probing = False\<rparr>)"

definition cooled_down :: "real \<Rightarrow> circuit_breaker \<Rightarrow> bool" where
  "cooled_down now_s b = (case cb_opened_at_s b of
       None \<Rightarrow> False | Some opened_at_s \<Rightarrow> cb_cooldown_s b \<le> now_s - opened_at_s)"

definition is_open :: "real \<Rightarrow> circuit_breaker \<Rightarrow> bool" where
  "is_open now_s b \<longleftrightarrow> cb_opened_at_s b \<noteq> None \<and> \<not> cooled_down now_s b"

definition allow :: "real \<Rightarrow> circuit_breaker \<Rightarrow> circuit_breaker \<times> bool" where
  "allow now_s b =
     (if cb_opened_at_s b = None then (b, True)
      else if \<not> cooled_down now_s b then (b, False)
      else if cb_probing b then (b, False)
      else (b\<lparr>cb_probing := True\<rparr>, True))"

definition reset_breaker :: "circuit_breaker \<Rightarrow> circuit_breaker" where
  "reset_breaker b = b\<lparr>cb_failures := 0, cb_opened_at_s := None, cb_probing := False\<rparr>"

definition breaker_success :: "circuit_breaker \<Rightarrow> circuit_breaker" where
  "breaker_success b = reset_breaker b"

definition breaker_failure :: "real \<Rightarrow> circuit_breaker \<Rightarrow> circuit_breaker" where
  "breaker_failure now_s b =
     (let b1 = b\<lparr>cb_failures := Suc (cb_failures b)\<rparr>
      in if cb_probing b1 \<or> cb_threshold b1 \<le> int (cb_failures b1)
         then b1\<lparr>cb_opened_at_s := Some now_s, cb_probing := False\<rparr> else b1)"

text \<open>Open exactly when the run of failures has reached the threshold; so a probe that fails re-opens anyway.\<close>

definition breaker_inv :: "circuit_breaker \<Rightarrow> bool" where
  "breaker_inv b \<longleftrightarrow> 1 \<le> cb_threshold b \<and> 0 < cb_cooldown_s b \<and>
     (cb_opened_at_s b \<noteq> None \<longleftrightarrow> cb_threshold b \<le> int (cb_failures b)) \<and>
     (cb_probing b \<longrightarrow> cb_opened_at_s b \<noteq> None)"

lemmas breaker_defs = breaker_inv_def allow_def reset_breaker_def breaker_success_def breaker_failure_def Let_def

lemma new_breaker_inv: "new_breaker threshold cooldown = Inr b \<Longrightarrow> breaker_inv b \<and> cb_opened_at_s b = None \<and>
    cb_threshold b = threshold \<and> cb_cooldown_s b = cooldown \<and> cb_failures b = 0"
  by (auto simp: new_breaker_def breaker_inv_def split: if_splits)

lemma breaker_ops_inv:
  assumes "breaker_inv b"
  shows "breaker_inv (breaker_failure t b)" "breaker_inv (breaker_success b)" "breaker_inv (reset_breaker b)"
    "breaker_inv (fst (allow t b))"
  using assms by (auto simp: breaker_defs)

lemma breaker_ops_fields [simp]:
  "cb_threshold (breaker_failure t b) = cb_threshold b" "cb_cooldown_s (breaker_failure t b) = cb_cooldown_s b"
  "cb_threshold (breaker_success b) = cb_threshold b" "cb_cooldown_s (breaker_success b) = cb_cooldown_s b"
  "cb_threshold (reset_breaker b) = cb_threshold b" "cb_cooldown_s (reset_breaker b) = cb_cooldown_s b"
  "cb_threshold (fst (allow t b)) = cb_threshold b" "cb_cooldown_s (fst (allow t b)) = cb_cooldown_s b"
  "cb_failures (fst (allow t b)) = cb_failures b" "cb_opened_at_s (fst (allow t b)) = cb_opened_at_s b"
  by (simp_all add: breaker_defs)

interpretation provider_circuit: failure_run
  "\<lambda>_. breaker_success" breaker_failure cb_failures "\<lambda>b. cb_opened_at_s b \<noteq> None"
  "\<lambda>b. nat (cb_threshold b)" breaker_inv
  by unfold_locales (auto simp: breaker_defs)

section \<open>Requests behind the breaker\<close>

text \<open>An attempt at a time, and when it was answered if it was made; a request that is refused has no outcome.\<close>

definition attempt :: "real \<Rightarrow> real \<Rightarrow> bool \<Rightarrow> circuit_breaker \<Rightarrow> circuit_breaker \<times> bool" where
  "attempt asked_s answered_s answers b =
     (let (b1, allowed) = allow asked_s b
      in if \<not> allowed then (b1, False)
         else if answers then (breaker_success b1, True)
         else (breaker_failure answered_s b1, True))"

fun outage :: "(real \<times> real) list \<Rightarrow> circuit_breaker \<Rightarrow> circuit_breaker \<times> nat" where
  "outage [] b = (b, 0)"
| "outage ((asked_s, answered_s) # as) b =
     (let (b1, made) = attempt asked_s answered_s False b; (b2, n) = outage as b1
      in (b2, (if made then Suc n else n)))"

fun paced :: "real \<Rightarrow> (real \<times> real) list \<Rightarrow> bool" where
  "paced now_s [] = True"
| "paced now_s ((asked_s, answered_s) # as) \<longleftrightarrow> now_s \<le> asked_s \<and> asked_s \<le> answered_s \<and> paced answered_s as"

definition end_of :: "real \<Rightarrow> (real \<times> real) list \<Rightarrow> real" where
  "end_of now_s as = last (now_s # map snd as)"

lemma end_of_simps [simp]:
  "end_of now_s [] = now_s" "end_of now_s ((t, t') # as) = end_of t' as"
  by (simp_all add: end_of_def)

lemma paced_end: "paced now_s as \<Longrightarrow> now_s \<le> end_of now_s as"
  by (induction now_s as rule: paced.induct) auto

lemma failed_attempt:
  assumes "attempt t t' False b = (b1, made)" "breaker_inv b" "\<not> cb_probing b"
  shows "breaker_inv b1" "\<not> cb_probing b1" "cb_threshold b1 = cb_threshold b" "cb_cooldown_s b1 = cb_cooldown_s b"
    "made \<longleftrightarrow> (case cb_opened_at_s b of None \<Rightarrow> True | Some opened_s \<Rightarrow> cb_cooldown_s b \<le> t - opened_s)"
    "cb_failures b1 = (if made then Suc (cb_failures b) else cb_failures b)"
    "cb_opened_at_s b1 = (if made \<and> cb_threshold b \<le> int (Suc (cb_failures b)) then Some t' else cb_opened_at_s b)"
  using assms by (auto simp: attempt_def breaker_defs cooled_down_def split: if_splits option.splits)

lemma outage_cost:
  assumes "outage as b = (b', n)" "breaker_inv b" "\<not> cb_probing b" "paced now_s as"
  shows "case cb_opened_at_s b of
      None \<Rightarrow> real n \<le> of_int (cb_threshold b) - real (cb_failures b) + (end_of now_s as - now_s) / cb_cooldown_s b
    | Some opened_s \<Rightarrow> opened_s \<le> now_s \<longrightarrow> real n \<le> (end_of now_s as - opened_s) / cb_cooldown_s b"
  using assms
proof (induction as arbitrary: b n now_s)
  case Nil
  then show ?case by (auto simp: breaker_inv_def split: option.split)
next
  case (Cons a as)
  obtain t t' where a: "a = (t, t')" by fastforce
  obtain b1 made where one: "attempt t t' False b = (b1, made)" by fastforce
  obtain m where rest: "outage as b1 = (b', m)" "n = (if made then Suc m else m)"
    using Cons.prems(1) one unfolding a by (auto split: prod.splits)
  note f = failed_attempt [OF one Cons.prems(2,3)]
  have pace: "now_s \<le> t" "t \<le> t'" "paced t' as" using Cons.prems(4) unfolding a by auto
  note IH = Cons.IH [OF rest(1) f(1,2) pace(3)]
  have cooldown: "0 < cb_cooldown_s b" using Cons.prems(2) by (simp add: breaker_inv_def)
  have span: "x / cb_cooldown_s b + y / cb_cooldown_s b = (x + y) / cb_cooldown_s b" for x y
    by (simp add: add_divide_distrib)
  have wait: "1 \<le> x / cb_cooldown_s b \<longleftrightarrow> cb_cooldown_s b \<le> x" for x
    using cooldown by (simp add: le_divide_eq)
  have less: "x \<le> y \<Longrightarrow> x / cb_cooldown_s b \<le> y / cb_cooldown_s b" for x y
    using cooldown by (simp add: divide_right_mono)
  show ?case
  proof (cases "cb_opened_at_s b")
    case None
    then have made: made "int (cb_failures b) < cb_threshold b"
      using f(5) Cons.prems(2) by (auto simp: breaker_inv_def)
    then have "real m \<le> of_int (cb_threshold b) - real (cb_failures b) - 1 + (end_of t' as - t') / cb_cooldown_s b"
      using IH f(3,4,6,7) None by (auto split: if_splits)
    with less [of "end_of t' as - t'" "end_of t' as - now_s"] pace made(1) show ?thesis
      unfolding a by (simp add: None rest(2))
  next
    case (Some opened_s)
    show ?thesis
    proof (cases made)
      case True
      then have "cb_opened_at_s b1 = Some t'" "cb_cooldown_s b \<le> t - opened_s"
        using f(5,7) Some Cons.prems(2) by (auto simp: breaker_inv_def)
      with IH have m: "real m \<le> (end_of t' as - t') / cb_cooldown_s b" by (simp add: f(4))
      have "1 \<le> (t' - opened_s) / cb_cooldown_s b"
        using \<open>cb_cooldown_s b \<le> t - opened_s\<close> pace(2) by (simp add: wait)
      with m span [of "end_of t' as - t'" "t' - opened_s"] show ?thesis
        unfolding a by (simp add: Some rest(2) True)
    next
      case False
      with IH f(4,7) Some pace show ?thesis unfolding a by (auto simp: rest(2))
    qed
  qed
qed

text \<open>
  Property C37. An outage costs a handful of probes: however often the provider is wanted, when every
  request fails no more are made than the threshold and one for each cooldown that passes, from the
  start to the last answer.
\<close>

theorem outage_costs_few_requests:
  assumes "new_breaker threshold cooldown = Inr b" "paced now_s as" "outage as b = (b', n)"
  shows "real n \<le> of_int threshold + (end_of now_s as - now_s) / cooldown"
proof -
  note new = new_breaker_inv [OF assms(1)]
  then have "\<not> cb_probing b" by (auto simp: breaker_inv_def)
  from outage_cost [OF assms(3) _ this assms(2)] new show ?thesis by simp
qed

fun allow_run :: "real list \<Rightarrow> circuit_breaker \<Rightarrow> circuit_breaker \<times> bool list" where
  "allow_run [] b = (b, [])"
| "allow_run (t # ts) b =
     (let (b1, allowed) = allow t b; (b2, rest) = allow_run ts b1 in (b2, allowed # rest))"

lemma probing_allows_none:
  "cb_opened_at_s b \<noteq> None \<Longrightarrow> cb_probing b \<Longrightarrow> allow_run ts b = (b, map (\<lambda>_. False) ts)"
  by (induction ts) (auto simp: allow_def)

text \<open>
  One probe at a time: while no outcome is recorded, an open circuit lets exactly one of
  any sequence of requests through, and that only when the cooldown has passed.
\<close>

theorem half_open_lets_one_through:
  assumes "cb_opened_at_s b = Some opened_s" "\<not> cb_probing b"
  shows "granted (snd (allow_run ts b)) = (if \<exists>t \<in> set ts. cb_cooldown_s b \<le> t - opened_s then 1 else 0)"
proof (induction ts)
  case (Cons t ts)
  show ?case
  proof (cases "cb_cooldown_s b \<le> t - opened_s")
    case True
    then have "allow t b = (b\<lparr>cb_probing := True\<rparr>, True)"
      using assms by (simp add: allow_def cooled_down_def)
    then show ?thesis
      using True probing_allows_none [of "b\<lparr>cb_probing := True\<rparr>" ts] assms by (simp add: granted_def)
  next
    case False
    then have "allow t b = (b, False)" using assms by (simp add: allow_def cooled_down_def)
    with False Cons show ?thesis by (simp add: split_beta)
  qed
qed simp

section \<open>The gate of the enrichment service\<close>

text \<open>
  The two guards as \<^verbatim>\<open>EnrichmentService._advance\<close> asks them, the breaker first, and what \<^verbatim>\<open>_request\<close>
  records of the provider's reply; one task does both, so attempts never overlap. Swapping the
  provider resets the breaker.
\<close>

record gate =
  gt_breaker :: circuit_breaker
  gt_limiter :: token_bucket

datatype gate_outcome = CircuitOpen | RateLimited | Requested

definition new_gate :: "real \<Rightarrow> int \<Rightarrow> real \<Rightarrow> real \<Rightarrow> gate result" where
  "new_gate rate_per_minute failure_threshold cooldown_s now_s =
     bindE (new_bucket rate_per_minute DEFAULT_BURST now_s) (\<lambda>limiter.
     bindE (new_breaker failure_threshold cooldown_s) (\<lambda>breaker.
     Inr \<lparr>gt_breaker = breaker, gt_limiter = limiter\<rparr>))"

definition gate_step :: "real \<Rightarrow> real \<Rightarrow> bool \<Rightarrow> gate \<Rightarrow> gate \<times> gate_outcome" where
  "gate_step asked_s answered_s answers g =
     (let (breaker, allowed) = allow asked_s (gt_breaker g)
      in if \<not> allowed then (g\<lparr>gt_breaker := breaker\<rparr>, CircuitOpen)
         else let (limiter, token) = take_token asked_s (gt_limiter g)
              in if \<not> token then (g\<lparr>gt_breaker := breaker, gt_limiter := limiter\<rparr>, RateLimited)
                 else (g\<lparr>gt_breaker := (if answers then breaker_success breaker
                                        else breaker_failure answered_s breaker),
                         gt_limiter := limiter\<rparr>, Requested))"

inductive gate_reach :: "gate \<Rightarrow> real \<Rightarrow> gate \<Rightarrow> real \<Rightarrow> bool" for g0 now0 where
  gate_start: "gate_reach g0 now0 g0 now0"
| gate_asked: "gate_reach g0 now0 g now_s \<Longrightarrow> now_s \<le> asked_s \<Longrightarrow> asked_s \<le> answered_s \<Longrightarrow>
     gate_reach g0 now0 (fst (gate_step asked_s answered_s answers g)) answered_s"
| gate_replaced: "gate_reach g0 now0 g now_s \<Longrightarrow>
     gate_reach g0 now0 (g\<lparr>gt_breaker := reset_breaker (gt_breaker g)\<rparr>) now_s"

definition gate_inv :: "gate \<Rightarrow> real \<Rightarrow> bool" where
  "gate_inv g now_s \<longleftrightarrow> breaker_inv (gt_breaker g) \<and> bucket_ok (gt_limiter g) \<and> \<not> cb_probing (gt_breaker g) \<and>
     1 \<le> tb_rate_per_s (gt_limiter g) * cb_cooldown_s (gt_breaker g) \<and>
     tb_last_s (gt_limiter g) \<le> now_s \<and>
     (\<forall>opened_s. cb_opened_at_s (gt_breaker g) = Some opened_s \<longrightarrow>
        tb_last_s (gt_limiter g) \<le> opened_s \<and> opened_s \<le> now_s)"

lemma new_gate_inv:
  assumes "new_gate rate threshold cooldown now_s = Inr g" "60 \<le> rate * cooldown"
  shows "gate_inv g now_s"
proof -
  obtain limiter breaker where parts: "new_bucket rate DEFAULT_BURST now_s = Inr limiter"
    "new_breaker threshold cooldown = Inr breaker" "g = \<lparr>gt_breaker = breaker, gt_limiter = limiter\<rparr>"
    using assms(1) by (auto simp: new_gate_def bindE_Inr_iff)
  have "1 \<le> rate / 60 * cooldown" using assms(2) by simp
  with new_bucket_ok [OF parts(1)] new_breaker_inv [OF parts(2)] parts(3) show ?thesis
    by (auto simp: gate_inv_def breaker_inv_def)
qed

text \<open>A probe never meets an empty bucket: while the circuit was open the bucket only filled.\<close>

lemma probe_has_token:
  assumes "gate_inv g now_s" "cb_opened_at_s (gt_breaker g) = Some opened_s" "cooled_down t (gt_breaker g)"
  shows "snd (take_token t (gt_limiter g))"
proof -
  let ?b = "gt_limiter g" and ?c = "cb_cooldown_s (gt_breaker g)"
  have ok: "bucket_ok ?b" "1 \<le> tb_rate_per_s ?b * ?c" "tb_last_s ?b \<le> opened_s" "0 < ?c"
    using assms(1,2) by (auto simp: gate_inv_def breaker_inv_def)
  have wait: "?c \<le> t - opened_s" using assms(2,3) by (simp add: cooled_down_def)
  then have "?c \<le> t - tb_last_s ?b" using ok(3) by simp
  then have "tb_rate_per_s ?b * ?c \<le> tb_rate_per_s ?b * (t - tb_last_s ?b)"
    using ok(1) by (intro mult_left_mono) (auto simp: bucket_ok_def)
  with ok(2) have "1 \<le> (t - tb_last_s ?b) * tb_rate_per_s ?b" by (simp add: mult.commute)
  moreover have "tb_last_s ?b \<le> t" using ok(3,4) wait by simp
  ultimately have "1 \<le> tb_tokens (refill t ?b)"
    using refill_accrual [OF _ ok(1), of t] ok(1) by (simp add: bucket_ok_def)
  then show ?thesis by (simp add: take_token_def Let_def)
qed

lemma gate_step_inv:
  assumes "gate_inv g now_s" "now_s \<le> t" "t \<le> t'"
  shows "gate_inv (fst (gate_step t t' answers g)) t'"
proof -
  obtain breaker allowed where a: "allow t (gt_breaker g) = (breaker, allowed)" by fastforce
  obtain limiter token where k: "take_token t (gt_limiter g) = (limiter, token)" by fastforce
  note f = take_fields [OF k]
  have ok: "bucket_ok limiter" using take_ok [OF _ k] assms(1) by (simp add: gate_inv_def)
  have inv: "breaker_inv breaker" using breaker_ops_inv(4) [of "gt_breaker g" t] a assms(1) by (simp add: gate_inv_def)
  show ?thesis
  proof (cases "cb_opened_at_s (gt_breaker g)")
    case None
    with a have ab: "allowed" "breaker = gt_breaker g" by (auto simp: allow_def)
    show ?thesis
      using assms None ok inv f breaker_ops_inv [OF inv]
      by (auto simp: gate_step_def gate_inv_def a k ab breaker_failure_def breaker_success_def reset_breaker_def Let_def)
  next
    case (Some opened_s)
    show ?thesis
    proof (cases "cooled_down t (gt_breaker g)")
      case True
      then have "token" using probe_has_token [OF assms(1) Some True] k by simp
      moreover have "allowed" "breaker = (gt_breaker g)\<lparr>cb_probing := True\<rparr>"
        using a Some True assms(1) by (auto simp: allow_def gate_inv_def)
      ultimately show ?thesis
        using assms Some ok inv f breaker_ops_inv [OF inv]
        by (auto simp: gate_step_def gate_inv_def a k breaker_failure_def breaker_success_def reset_breaker_def Let_def)
    next
      case False
      then have "\<not> allowed" "breaker = gt_breaker g" using a Some by (auto simp: allow_def)
      then show ?thesis using assms Some by (auto simp: gate_step_def gate_inv_def a)
    qed
  qed
qed

lemma gate_step_cooldown: "cb_cooldown_s (gt_breaker (fst (gate_step t t' answers g))) = cb_cooldown_s (gt_breaker g)"
  by (simp add: gate_step_def Let_def split_beta)

lemma gate_reach_inv: "gate_reach g0 now0 g now_s \<Longrightarrow> gate_inv g0 now0 \<Longrightarrow> gate_inv g now_s"
proof (induction rule: gate_reach.induct)
  case (gate_replaced g now_s)
  then show ?case by (auto simp: gate_inv_def breaker_ops_inv) (simp_all add: reset_breaker_def)
qed (auto intro: gate_step_inv)

text \<open>
  The provider is asked again after every outage: when the sustained rate buys at least
  one request in a cooldown, as the defaults do, then however the service came to an open circuit, the
  first attempt after the cooldown is a request; it is refused neither by the circuit nor for want of
  a token.
\<close>

theorem gate_asks_after_cooldown:
  assumes "new_gate rate threshold cooldown now0 = Inr g0" "60 \<le> rate * cooldown"
    and "gate_reach g0 now0 g now_s" "cb_opened_at_s (gt_breaker g) = Some opened_s"
    and "cooldown \<le> asked_s - opened_s"
  shows "snd (gate_step asked_s answered_s answers g) = Requested"
proof -
  have inv: "gate_inv g now_s" by (rule gate_reach_inv [OF assms(3) new_gate_inv [OF assms(1,2)]])
  have fixed: "cb_cooldown_s (gt_breaker g) = cb_cooldown_s (gt_breaker g0)"
    using assms(3) by (induction rule: gate_reach.induct) (simp_all add: gate_step_cooldown)
  have "cb_cooldown_s (gt_breaker g0) = cooldown"
    using assms(1) new_breaker_inv by (auto simp: new_gate_def bindE_Inr_iff)
  with fixed assms(4,5) have cool: "cooled_down asked_s (gt_breaker g)" by (simp add: cooled_down_def)
  with assms(4) inv have "snd (allow asked_s (gt_breaker g))" by (simp add: allow_def gate_inv_def)
  with probe_has_token [OF inv assms(4) cool] show ?thesis
    by (auto simp: gate_step_def Let_def split: prod.split)
qed

fun gate_run :: "(real \<times> real \<times> bool) list \<Rightarrow> gate \<Rightarrow> gate_outcome list" where
  "gate_run [] g = []"
| "gate_run ((asked_s, answered_s, answers) # as) g =
     (let (g1, outcome) = gate_step asked_s answered_s answers g in outcome # gate_run as g1)"

text \<open>
  Property C36. A probe that finds no token is never made and never given back: when the first attempt
  after a cooldown is refused by the rate limiter, the circuit stays open whatever comes later, until
  the provider is replaced.
\<close>

theorem starved_probe_sticks:
  assumes "cb_opened_at_s (gt_breaker g) \<noteq> None" "cooled_down t (gt_breaker g)" "\<not> cb_probing (gt_breaker g)"
    and "tb_tokens (refill t (gt_limiter g)) < 1"
  shows "snd (gate_step t t' answers g) = RateLimited \<and>
     gate_run as (fst (gate_step t t' answers g)) = map (\<lambda>_. CircuitOpen) as"
proof -
  have stuck: "gate_run as h = map (\<lambda>_. CircuitOpen) as"
    if "cb_opened_at_s (gt_breaker h) \<noteq> None" "cb_probing (gt_breaker h)" for h
    using that by (induction as h rule: gate_run.induct) (auto simp: gate_step_def allow_def)
  have "allow t (gt_breaker g) = ((gt_breaker g)\<lparr>cb_probing := True\<rparr>, True)"
    using assms(1-3) by (auto simp: allow_def)
  moreover have "take_token t (gt_limiter g) = (refill t (gt_limiter g), False)"
    using assms(4) by (simp add: take_token_def Let_def)
  ultimately show ?thesis
    using assms(1) stuck by (auto simp: gate_step_def)
qed

section \<open>Witnesses\<close>

definition sample_bucket :: token_bucket where
  "sample_bucket = \<lparr>tb_rate_per_s = 10 / 60, tb_burst = 10, tb_tokens = 10, tb_last_s = 0\<rparr>"

lemma sample_bucket_new: "new_bucket 10 10 0 = Inr sample_bucket"
  by (simp add: new_bucket_def sample_bucket_def SECONDS_PER_MINUTE_def)

theorem bucket_bounds_every_window_witness:
  "of_nat (granted (drop 1 (snd (take_run [0, 1, 2] sample_bucket)))) \<le> (10 :: real) + 10 / 60 * (2 - 1)"
proof -
  obtain b gs where run: "take_run [0, 1, 2] sample_bucket = (b, gs)" by fastforce
  have window: "take_run ([0] @ [1, 2]) sample_bucket = (b, gs)" using run by simp
  show ?thesis
    using bucket_bounds_every_window [OF sample_bucket_new _ _ window] by (simp add: run del: take_run.simps)
qed

theorem bucket_grants_after_wait_witness:
  "snd (take_token 6 (sample_bucket\<lparr>tb_tokens := 0\<rparr>))"
proof -
  have "take_token 0 (sample_bucket\<lparr>tb_tokens := 0\<rparr>) = (sample_bucket\<lparr>tb_tokens := 0\<rparr>, False)"
    by (simp add: take_token_def refill_def sample_bucket_def)
  from bucket_grants_after_wait [OF _ _ _ _ this, of 10 6] show ?thesis
    by (simp add: bucket_ok_def sample_bucket_def)
qed

definition sample_breaker :: circuit_breaker where
  "sample_breaker = \<lparr>cb_threshold = 3, cb_cooldown_s = 300, cb_failures = 0, cb_opened_at_s = None, cb_probing = False\<rparr>"

lemma sample_breaker_new: "new_breaker 3 300 = Inr sample_breaker"
  by (simp add: new_breaker_def sample_breaker_def)

theorem outage_costs_few_requests_witness:
  "real (snd (outage [(0, 1), (2, 3), (4, 5), (6, 7), (400, 401)] sample_breaker)) \<le> 3 + (401 - 0) / 300"
  using outage_costs_few_requests [OF sample_breaker_new, of 0 "[(0, 1), (2, 3), (4, 5), (6, 7), (400, 401)]"]
  by (simp add: split_beta)

theorem half_open_lets_one_through_witness:
  "granted (snd (allow_run [100, 300, 301] (sample_breaker\<lparr>cb_failures := 3, cb_opened_at_s := Some 0\<rparr>))) = 1"
  using half_open_lets_one_through [of "sample_breaker\<lparr>cb_failures := 3, cb_opened_at_s := Some 0\<rparr>" 0 "[100, 300, 301]"]
  by (simp add: sample_breaker_def)

definition sample_gate :: gate where
  "sample_gate = \<lparr>gt_breaker = sample_breaker, gt_limiter = sample_bucket\<rparr>"

lemma sample_gate_new: "new_gate 10 3 300 0 = Inr sample_gate"
  by (simp add: new_gate_def sample_gate_def sample_breaker_new DEFAULT_BURST_def sample_bucket_new)

theorem gate_asks_after_cooldown_witness:
  "snd (gate_step 303 304 True (fst (gate_step 2 3 False (fst (gate_step 1 2 False (fst (gate_step 0 1 False sample_gate))))))) = Requested"
proof -
  let ?g = "fst (gate_step 2 3 False (fst (gate_step 1 2 False (fst (gate_step 0 1 False sample_gate)))))"
  have "gate_reach sample_gate 0 ?g 3"
    by (rule gate_asked [OF gate_asked [OF gate_asked [OF gate_start]]]) simp_all
  moreover have "cb_opened_at_s (gt_breaker ?g) = Some 3"
    by (simp add: gate_step_def allow_def take_token_def refill_def breaker_failure_def sample_gate_def
        sample_breaker_def sample_bucket_def)
  ultimately show ?thesis using gate_asks_after_cooldown [OF sample_gate_new] by simp
qed

text \<open>One request in ten minutes, an empty bucket, and a cooldown of five.\<close>

theorem starved_probe_sticks_witness:
  "gate_run [(600, 601, True), (6000, 6001, True)] (fst (gate_step 300 301 True
     \<lparr>gt_breaker = sample_breaker\<lparr>cb_failures := 3, cb_opened_at_s := Some 0\<rparr>,
      gt_limiter = \<lparr>tb_rate_per_s = 1 / 600, tb_burst = 10, tb_tokens = 0, tb_last_s = 0\<rparr>\<rparr>))
     = [CircuitOpen, CircuitOpen]"
  using starved_probe_sticks [of "\<lparr>gt_breaker = sample_breaker\<lparr>cb_failures := 3, cb_opened_at_s := Some 0\<rparr>,
      gt_limiter = \<lparr>tb_rate_per_s = 1 / 600, tb_burst = 10, tb_tokens = 0, tb_last_s = 0\<rparr>\<rparr>" 300 301 True
      "[(600, 601, True), (6000, 6001, True)]"]
  by (simp add: sample_breaker_def cooled_down_def refill_def)

end
