(* ===== verification/AlertArea.thy ===== *)
theory AlertArea
  imports Clock
begin

text \<open>
  \<^verbatim>\<open>alerts/area.py\<close>: the ring a user draws, its validation, and the compiled form that answers
  whether a position is inside. A vertex is a pair of longitude and latitude; coordinates are reals,
  so the tests for finite values hold by type. All refusals are \<^verbatim>\<open>ValueError\<close>; which message comes
  first is not modelled.
\<close>

section \<open>Segments\<close>

type_synonym vertex = "real \<times> real"

definition MIN_AREA_VERTICES :: nat where "MIN_AREA_VERTICES = 3"
definition MAX_AREA_VERTICES :: nat where "MAX_AREA_VERTICES = 64"
definition EDGE_TOLERANCE_DEG :: real where "EDGE_TOLERANCE_DEG = 1 / 10 ^ 9"
definition MAX_BANDS :: nat where "MAX_BANDS = 16"

fun orientation :: "vertex \<Rightarrow> vertex \<Rightarrow> vertex \<Rightarrow> real" where
  "orientation (ax, ay) (bx, by') (cx, cy) = (bx - ax) * (cy - ay) - (by' - ay) * (cx - ax)"

fun within_box :: "vertex \<Rightarrow> vertex \<Rightarrow> vertex \<Rightarrow> bool" where
  "within_box (ax, ay) (bx, by') (px, py) \<longleftrightarrow>
     min ax bx \<le> px \<and> px \<le> max ax bx \<and> min ay by' \<le> py \<and> py \<le> max ay by'"

definition segments_intersect :: "vertex \<Rightarrow> vertex \<Rightarrow> vertex \<Rightarrow> vertex \<Rightarrow> bool" where
  "segments_intersect a b c d =
     (let o1 = orientation a b c; o2 = orientation a b d; o3 = orientation c d a; o4 = orientation c d b
      in if (0 < o1 \<and> o2 < 0 \<or> o1 < 0 \<and> 0 < o2) \<and> (0 < o3 \<and> o4 < 0 \<or> o3 < 0 \<and> 0 < o4) then True
         else o1 = 0 \<and> within_box a b c \<or> o2 = 0 \<and> within_box a b d \<or>
              o3 = 0 \<and> within_box c d a \<or> o4 = 0 \<and> within_box c d b)"

section \<open>Rings\<close>

definition vertex_ok :: "vertex \<Rightarrow> bool" where
  "vertex_ok v \<longleftrightarrow> - 180 \<le> fst v \<and> fst v \<le> 180 \<and> - 90 \<le> snd v \<and> snd v \<le> 90"

definition ring_edges :: "vertex list \<Rightarrow> (vertex \<times> vertex) list" where
  "ring_edges ring = map (\<lambda>i. (ring ! i, ring ! (Suc i mod length ring))) [0..<length ring]"

definition folds_back :: "vertex \<Rightarrow> vertex \<Rightarrow> vertex \<Rightarrow> bool" where
  "folds_back a b after \<longleftrightarrow> orientation a b after = 0 \<and>
     (fst b - fst a) * (fst after - fst b) + (snd b - snd a) * (snd after - snd b) < 0"

definition edge_clear :: "(vertex \<times> vertex) list \<Rightarrow> nat \<Rightarrow> bool" where
  "edge_clear edges i =
     (let count = length edges; (a, b) = edges ! i
      in \<not> folds_back a b (snd (edges ! (Suc i mod count))) \<and>
         list_all (\<lambda>j. (i = 0 \<and> j = count - 1) \<or> \<not> segments_intersect a b (fst (edges ! j)) (snd (edges ! j)))
           [i + 2..<count])"

definition doubled_area :: "(vertex \<times> vertex) list \<Rightarrow> real" where
  "doubled_area edges = sum_list (map (\<lambda>(a, b). fst a * snd b - fst b * snd a) edges)"

definition open_ring :: "vertex list \<Rightarrow> vertex list" where
  "open_ring points = (if 2 \<le> length points \<and> hd points = last points then butlast points else points)"

definition normalize_ring :: "vertex list \<Rightarrow> vertex list result" where
  "normalize_ring points =
     (let ring = open_ring points; count = length ring; edges = ring_edges ring
      in if \<not> (MIN_AREA_VERTICES \<le> count \<and> count \<le> MAX_AREA_VERTICES) then Inl ValueError
         else if \<not> list_all vertex_ok ring then Inl ValueError
         else if \<not> distinct ring then Inl ValueError
         else if \<not> list_all (\<lambda>(start, end'). \<bar>fst end' - fst start\<bar> \<le> 180) edges then Inl ValueError
         else if \<not> list_all (edge_clear edges) [0..<count] then Inl ValueError
         else if \<bar>doubled_area edges\<bar> \<le> EDGE_TOLERANCE_DEG ^ 2 then Inl ValueError
         else Inr (ring @ [hd ring]))"

section \<open>The compiled area\<close>

type_synonym edge = "real \<times> real \<times> real \<times> real \<times> real"

record compiled_area =
  ca_min_lon :: real
  ca_max_lon :: real
  ca_min_lat :: real
  ca_max_lat :: real
  ca_band_height :: real
  ca_bands :: "edge list list"
  ca_vertices :: "vertex list"

fun make_edge :: "vertex \<times> vertex \<Rightarrow> edge" where
  "make_edge ((x1, y1), (x2, y2)) = (x1, y1, x2, y2, if y1 = y2 then 0 else (x2 - x1) / (y2 - y1))"

definition band_of :: "nat \<Rightarrow> real \<Rightarrow> real \<Rightarrow> real \<Rightarrow> int" where
  "band_of band_count min_lat band_height lat =
     min (int band_count - 1) (py_trunc ((lat - min_lat) / band_height))"

definition in_band :: "(real \<Rightarrow> int) \<Rightarrow> nat \<Rightarrow> edge \<Rightarrow> bool" where
  "in_band band k e = (case e of (x1, y1, x2, y2, slope) \<Rightarrow>
     band (min y1 y2) \<le> int k \<and> int k \<le> band (max y1 y2))"

definition from_ring :: "vertex list \<Rightarrow> compiled_area" where
  "from_ring ring =
     (let vs = (if 1 < length ring \<and> hd ring = last ring then butlast ring else ring);
          lons = map fst vs; lats = map snd vs; count = length vs;
          min_lat = Min (set lats); max_lat = Max (set lats);
          band_count = min MAX_BANDS count;
          band_height = (max_lat - min_lat) / of_nat band_count;
          edges = map make_edge (ring_edges vs)
      in \<lparr>ca_min_lon = Min (set lons), ca_max_lon = Max (set lons), ca_min_lat = min_lat, ca_max_lat = max_lat,
          ca_band_height = band_height,
          ca_bands = map (\<lambda>k. filter (in_band (band_of band_count min_lat band_height) k) edges) [0..<band_count],
          ca_vertices = vs\<rparr>)"

text \<open>The loop over the edges of a band: \<open>None\<close> is the early return of true.\<close>

fun cast_ray :: "real \<Rightarrow> real \<Rightarrow> edge list \<Rightarrow> bool \<Rightarrow> bool option" where
  "cast_ray lon lat [] inside = Some inside"
| "cast_ray lon lat ((x1, y1, x2, y2, slope) # es) inside =
     (if (lat < y1) \<noteq> (lat < y2)
      then let crossing = x1 + (lat - y1) * slope
           in if \<bar>crossing - lon\<bar> \<le> EDGE_TOLERANCE_DEG then None
              else cast_ray lon lat es (if lon < crossing then \<not> inside else inside)
      else if y1 = lat \<and> lat = y2 \<and> min x1 x2 \<le> lon \<and> lon \<le> max x1 x2 then None
      else cast_ray lon lat es inside)"

definition area_contains :: "compiled_area \<Rightarrow> real \<Rightarrow> real \<Rightarrow> bool" where
  "area_contains a lon lat =
     (if lon < ca_min_lon a \<or> ca_max_lon a < lon \<or> lat < ca_min_lat a \<or> ca_max_lat a < lat then False
      else let band = min (int (length (ca_bands a)) - 1) (py_trunc ((lat - ca_min_lat a) / ca_band_height a))
           in case cast_ray lon lat (ca_bands a ! nat band) False of
                None \<Rightarrow> True
              | Some inside \<Rightarrow> inside \<or> (lon, lat) \<in> set (ca_vertices a))"

definition edge_count :: "compiled_area \<Rightarrow> nat" where
  "edge_count a = length (remdups (concat (ca_bands a)))"

section \<open>Segments meet when the test says so\<close>

fun along :: "vertex \<Rightarrow> vertex \<Rightarrow> real \<Rightarrow> vertex" where
  "along (ax, ay) (bx, by') s = (ax + s * (bx - ax), ay + s * (by' - ay))"

definition on_segment :: "vertex \<Rightarrow> vertex \<Rightarrow> vertex \<Rightarrow> bool" where
  "on_segment a b p \<longleftrightarrow> (\<exists>s. 0 \<le> s \<and> s \<le> 1 \<and> p = along a b s)"

lemma between_ends: "0 \<le> s \<Longrightarrow> s \<le> 1 \<Longrightarrow> min x y \<le> x + s * (y - x) \<and> x + s * (y - x) \<le> max x y" for x y s :: real
  using mult_right_mono [of s 1 "y - x"] mult_right_mono [of s 1 "x - y"]
    mult_nonneg_nonneg [of s "y - x"] mult_nonneg_nonneg [of s "x - y"]
  by (cases "x \<le> y") (auto simp: algebra_simps)

lemma on_segment_box: "on_segment a b p \<Longrightarrow> within_box a b p"
  using between_ends by (cases a; cases b) (auto simp: on_segment_def)

lemma on_segment_collinear: "on_segment a b p \<Longrightarrow> orientation a b p = 0"
  by (cases a; cases b) (auto simp: on_segment_def algebra_simps)

lemma collinear_along:
  assumes "orientation a b p = 0" "a \<noteq> b"
  obtains s where "p = along a b s"
proof -
  obtain ax ay where a: "a = (ax, ay)" by fastforce
  obtain bx by' where b: "b = (bx, by')" by fastforce
  obtain px py where p: "p = (px, py)" by fastforce
  have cross: "(bx - ax) * (py - ay) = (by' - ay) * (px - ax)" using assms(1) by (simp add: a b p)
  show thesis
  proof (cases "bx = ax")
    case False
    then have "py - ay = (px - ax) / (bx - ax) * (by' - ay)" using cross by (simp add: field_simps)
    with False show thesis by (intro that [of "(px - ax) / (bx - ax)"]) (simp add: a b p)
  next
    case True
    then have "by' \<noteq> ay" "px = ax" using assms(2) cross by (auto simp: a b)
    with True show thesis by (intro that [of "(py - ay) / (by' - ay)"]) (simp add: a b p)
  qed
qed

lemma box_along:
  assumes "within_box a b (along a b s)" "a \<noteq> b"
  shows "0 \<le> s \<and> s \<le> 1"
proof -
  have one: "0 \<le> s \<and> s \<le> 1"
    if "min x y \<le> x + s * (y - x)" "x + s * (y - x) \<le> max x y" "x \<noteq> y" for x y :: real
  proof (cases "x < y")
    case True
    then have ends: "min x y = x" "max x y = y" by auto
    define z where "z = s * (y - x)"
    have "0 \<le> z" "z \<le> 1 * (y - x)" using that(1,2) unfolding ends z_def [symmetric] by simp_all
    with True show ?thesis unfolding z_def by (auto simp: zero_le_mult_iff)
  next
    case False
    with that have "0 * (x - y) \<le> s * (x - y)" "s * (x - y) \<le> 1 * (x - y)" by (auto simp: algebra_simps)
    moreover have "0 < x - y" using False that(3) by simp
    ultimately show ?thesis by (meson mult_right_le_imp_le)
  qed
  obtain ax ay where a: "a = (ax, ay)" by fastforce
  obtain bx by' where b: "b = (bx, by')" by fastforce
  from assms show ?thesis unfolding a b by (cases "ax = bx") (auto dest: one)
qed

lemma box_on_segment: "orientation a b p = 0 \<Longrightarrow> within_box a b p \<Longrightarrow> on_segment a b p"
proof (cases "a = b")
  case True
  assume "within_box a b p"
  with True have "p = a" by (cases a; cases p) auto
  with True show ?thesis by (cases a) (auto simp: on_segment_def intro!: exI [of _ 0])
next
  case False
  assume "orientation a b p = 0" "within_box a b p"
  with collinear_along False box_along show ?thesis unfolding on_segment_def by metis
qed

lemma segment_iff: "on_segment a b p \<longleftrightarrow> orientation a b p = 0 \<and> within_box a b p"
  using box_on_segment on_segment_box on_segment_collinear by blast

lemma orientation_along:
  "orientation a b (along c d t) = (1 - t) * orientation a b c + t * orientation a b d"
  by (cases a; cases b; cases c; cases d) (simp add: algebra_simps)

lemma orientation_difference:
  "orientation c d a - orientation c d b = orientation a b d - orientation a b c"
  by (cases a; cases b; cases c; cases d) (simp add: algebra_simps)

text \<open>Opposite signs both ways: the segments cross at a point of both.\<close>

lemma crossing_point:
  assumes "orientation c d a \<noteq> orientation c d b"
  defines "D \<equiv> orientation c d a - orientation c d b"
  shows "along a b (orientation c d a / D) = along c d (- orientation a b c / D)"
proof -
  obtain ax ay where a: "a = (ax, ay)" by fastforce
  obtain bx by' where b: "b = (bx, by')" by fastforce
  obtain cx cy where c: "c = (cx, cy)" by fastforce
  obtain dx dy where d: "d = (dx, dy)" by fastforce
  let ?o3 = "orientation c d a" and ?o1 = "orientation a b c"
  have D: "D \<noteq> 0" using assms(1) by (simp add: D_def)
  have "D * (ax - cx) + ?o3 * (bx - ax) + ?o1 * (dx - cx) = 0"
    "D * (ay - cy) + ?o3 * (by' - ay) + ?o1 * (dy - cy) = 0"
    unfolding D_def a b c d by (simp_all add: algebra_simps)
  then have "ax + ?o3 / D * (bx - ax) = cx + - ?o1 / D * (dx - cx)"
    "ay + ?o3 / D * (by' - ay) = cy + - ?o1 / D * (dy - cy)"
    using D by (simp_all add: field_simps)
  then show ?thesis by (simp add: a b c d)
qed

lemma proportion: "0 < x \<and> y < 0 \<or> x < 0 \<and> 0 < y \<Longrightarrow> 0 \<le> x / (x - y) \<and> x / (x - y) \<le> 1" for x y :: real
  by (auto simp: zero_le_divide_iff divide_le_eq)

lemma opposite_or_end:
  assumes "(1 - t) * x + t * y = 0" "0 \<le> t" "t \<le> 1"
  shows "0 < x \<and> y < 0 \<or> x < 0 \<and> 0 < y \<or> x = 0 \<and> y = 0 \<or> x = 0 \<and> t = 0 \<or> y = 0 \<and> t = (1 :: real)"
proof -
  have "t = 0 \<Longrightarrow> x = 0" "t = 1 \<Longrightarrow> y = 0" using assms(1) by auto
  moreover have "x = 0 \<Longrightarrow> t = 0 \<or> y = 0" "y = 0 \<Longrightarrow> t = 1 \<or> x = 0" using assms(1) by auto
  moreover have False if "0 < x" "0 < y" "0 < t" "t < 1"
    using assms(1) that by (smt (verit) mult_pos_pos)
  moreover have False if "x < 0" "y < 0" "0 < t" "t < 1"
    using assms(1) that by (smt (verit) mult_pos_neg)
  ultimately show ?thesis using assms(2,3) by (smt (verit))
qed

lemma along_ends [simp]: "along a b 0 = a" "along a b 1 = b"
  by (cases a; cases b; simp)+

text \<open>On one line, an end of one of two segments that meet lies on the other.\<close>

lemma along_affine:
  "along (along a b u) (along a b v) t = along a b (u + t * (v - u))"
  by (cases a; cases b) (simp add: algebra_simps)

lemma collinear_meeting:
  assumes "on_segment a b p" "on_segment c d p" "orientation a b c = 0" "orientation a b d = 0" "a \<noteq> b"
  shows "on_segment a b c \<or> on_segment a b d \<or> on_segment c d a"
proof -
  obtain u where c: "c = along a b u" using collinear_along [OF assms(3,5)] by blast
  obtain v where d: "d = along a b v" using collinear_along [OF assms(4,5)] by blast
  obtain s where s: "0 \<le> s" "s \<le> 1" "p = along a b s" using assms(1) by (auto simp: on_segment_def)
  obtain t where t: "0 \<le> t" "t \<le> 1" "p = along a b (u + t * (v - u))"
    using assms(2) by (auto simp: on_segment_def c d along_affine)
  have "s = u + t * (v - u)"
    using s(3) t(3) assms(5) by (cases a; cases b) auto
  then have between: "min u v \<le> s" "s \<le> max u v" using between_ends [OF t(1,2), of u v] by simp_all
  show ?thesis
  proof (cases "0 \<le> u \<and> u \<le> 1 \<or> 0 \<le> v \<and> v \<le> 1")
    case True
    then show ?thesis unfolding on_segment_def c d by blast
  next
    case False
    with between s have "u < 0 \<and> 0 < v \<or> v < 0 \<and> 0 < u" by linarith
    then have "0 \<le> u / (u - v)" "u / (u - v) \<le> 1" "u + u / (u - v) * (v - u) = 0"
      by (auto simp: zero_le_divide_iff divide_le_eq field_simps)
    then have "on_segment c d a"
      unfolding on_segment_def c d along_affine by (metis along_ends(1))
    then show ?thesis by blast
  qed
qed

lemma meets_iff:
  "segments_intersect a b c d \<longleftrightarrow> (\<exists>p. on_segment a b p \<and> on_segment c d p)"
proof
  assume "segments_intersect a b c d"
  then consider
      (cross) "0 < orientation a b c \<and> orientation a b d < 0 \<or> orientation a b c < 0 \<and> 0 < orientation a b d"
        "0 < orientation c d a \<and> orientation c d b < 0 \<or> orientation c d a < 0 \<and> 0 < orientation c d b"
    | (ends) "on_segment a b c \<or> on_segment a b d \<or> on_segment c d a \<or> on_segment c d b"
    by (auto simp: segments_intersect_def Let_def segment_iff split: if_splits)
  then show "\<exists>p. on_segment a b p \<and> on_segment c d p"
  proof cases
    case cross
    let ?D = "orientation c d a - orientation c d b"
    have "- orientation a b c / ?D = orientation a b c / (orientation a b c - orientation a b d)"
      unfolding orientation_difference by (metis minus_diff_eq minus_divide_left minus_divide_right)
    with crossing_point [of c d a b] proportion [OF cross(1)] proportion [OF cross(2)] cross(2)
    show ?thesis unfolding on_segment_def by (metis less_asym)
  next
    case ends
    have "on_segment a b a" "on_segment a b b" for a b
      unfolding on_segment_def by (metis along_ends order_refl zero_le_one)+
    with ends show ?thesis by blast
  qed
next
  assume "\<exists>p. on_segment a b p \<and> on_segment c d p"
  then obtain p where p: "on_segment a b p" "on_segment c d p" by blast
  then obtain s t where s: "0 \<le> s" "s \<le> 1" "p = along a b s" and t: "0 \<le> t" "t \<le> 1" "p = along c d t"
    by (auto simp: on_segment_def)
  note ab = opposite_or_end [of t "orientation a b c" "orientation a b d", OF _ t(1,2)]
  note cd = opposite_or_end [of s "orientation c d a" "orientation c d b", OF _ s(1,2)]
  have o12: "(1 - t) * orientation a b c + t * orientation a b d = 0"
    using on_segment_collinear [OF p(1)] unfolding t(3) orientation_along .
  have o34: "(1 - s) * orientation c d a + s * orientation c d b = 0"
    using on_segment_collinear [OF p(2)] unfolding s(3) orientation_along .
  have ends: "t = 0 \<Longrightarrow> on_segment a b c" "t = 1 \<Longrightarrow> on_segment a b d"
    "s = 0 \<Longrightarrow> on_segment c d a" "s = 1 \<Longrightarrow> on_segment c d b"
    using p s(3) t(3) by auto
  have both: "orientation c d a = 0 \<and> orientation c d b = 0 \<longleftrightarrow> orientation a b c = orientation a b d \<and> orientation c d a = 0"
    using orientation_difference [of c d a b] by auto
  have line: "on_segment a b c \<or> on_segment a b d \<or> on_segment c d a \<or> on_segment c d b"
    if "orientation a b c = 0" "orientation a b d = 0"
  proof (cases "a = b")
    case True
    then have "p = a" using s(3) by (cases b) simp
    with p(2) show ?thesis by simp
  next
    case False
    with collinear_meeting [OF p that] show ?thesis by blast
  qed
  have "on_segment a b c \<or> on_segment a b d \<or> on_segment c d a \<or> on_segment c d b \<or>
      (0 < orientation a b c \<and> orientation a b d < 0 \<or> orientation a b c < 0 \<and> 0 < orientation a b d) \<and>
      (0 < orientation c d a \<and> orientation c d b < 0 \<or> orientation c d a < 0 \<and> 0 < orientation c d b)"
    using ab [OF o12] cd [OF o34] both ends line by auto
  then show "segments_intersect a b c d"
    by (auto simp: segments_intersect_def Let_def segment_iff)
qed


section \<open>Accepted rings\<close>

definition accepted :: "vertex list \<Rightarrow> bool" where
  "accepted vs \<longleftrightarrow> 3 \<le> length vs \<and> length vs \<le> 64 \<and> list_all vertex_ok vs \<and> distinct vs \<and>
     list_all (\<lambda>(start, end'). \<bar>fst end' - fst start\<bar> \<le> 180) (ring_edges vs) \<and>
     list_all (edge_clear (ring_edges vs)) [0..<length vs] \<and>
     EDGE_TOLERANCE_DEG ^ 2 < \<bar>doubled_area (ring_edges vs)\<bar>"

lemma normalize_iff:
  "normalize_ring points = Inr ring \<longleftrightarrow>
     accepted (open_ring points) \<and> ring = open_ring points @ [hd (open_ring points)]"
  by (auto simp: normalize_ring_def accepted_def Let_def MIN_AREA_VERTICES_def MAX_AREA_VERTICES_def)

lemma open_ring_closed: "accepted vs \<Longrightarrow> open_ring (vs @ [hd vs]) = vs"
  by (cases vs) (auto simp: open_ring_def accepted_def)

lemma length_ring_edges [simp]: "length (ring_edges vs) = length vs"
  by (simp add: ring_edges_def)

lemma ring_edges_vertices: "(a, b) \<in> set (ring_edges vs) \<Longrightarrow> a \<in> set vs \<and> b \<in> set vs"
  by (auto simp: ring_edges_def intro!: nth_mem mod_less_divisor)

text \<open>
  What the validation accepts is a simple polygon, and it is stored in a form that is
  accepted unchanged: between three and 64 distinct vertices on the globe, closed, no edge over half
  the globe, and no two edges that are not neighbours have any point in common.
\<close>

theorem accepted_ring_is_simple:
  assumes "normalize_ring points = Inr ring"
  shows "normalize_ring ring = Inr ring \<and> hd ring = last ring \<and> distinct (butlast ring) \<and>
     3 \<le> length (butlast ring) \<and> length (butlast ring) \<le> 64 \<and> (\<forall>v \<in> set ring. vertex_ok v) \<and>
     (\<forall>(start, end') \<in> set (ring_edges (butlast ring)). \<bar>fst end' - fst start\<bar> \<le> 180) \<and>
     (\<forall>i j p. i + 2 \<le> j \<and> j < length (butlast ring) \<and> \<not> (i = 0 \<and> Suc j = length (butlast ring)) \<longrightarrow>
        \<not> (on_segment (fst (ring_edges (butlast ring) ! i)) (snd (ring_edges (butlast ring) ! i)) p \<and>
           on_segment (fst (ring_edges (butlast ring) ! j)) (snd (ring_edges (butlast ring) ! j)) p))"
proof -
  let ?vs = "open_ring points"
  have acc: "accepted ?vs" and ring: "ring = ?vs @ [hd ?vs]" using assms by (auto simp: normalize_iff)
  have "?vs \<noteq> []" using acc by (auto simp: accepted_def)
  then have "hd ring = last ring" "hd ?vs \<in> set ?vs" by (simp_all add: ring)
  moreover have "normalize_ring ring = Inr ring"
    using acc open_ring_closed [OF acc] by (simp add: normalize_iff ring)
  moreover have "\<not> (on_segment (fst (ring_edges ?vs ! i)) (snd (ring_edges ?vs ! i)) p \<and>
      on_segment (fst (ring_edges ?vs ! j)) (snd (ring_edges ?vs ! j)) p)"
    if "i + 2 \<le> j" "j < length ?vs" "\<not> (i = 0 \<and> Suc j = length ?vs)" for i j p
  proof -
    have "edge_clear (ring_edges ?vs) i" using acc that(1,2) by (simp add: accepted_def list_all_iff)
    then have "\<not> segments_intersect (fst (ring_edges ?vs ! i)) (snd (ring_edges ?vs ! i))
        (fst (ring_edges ?vs ! j)) (snd (ring_edges ?vs ! j))"
      using that unfolding edge_clear_def Let_def list_all_iff split_beta length_ring_edges
      by (metis One_nat_def Suc_pred add_lessD1 atLeastLessThan_iff bot_nat_0.not_eq_extremum less_nat_zero_code set_upt)
    then show ?thesis unfolding meets_iff by blast
  qed
  ultimately show ?thesis using acc by (auto simp: ring accepted_def list_all_iff)
qed

section \<open>Inside\<close>

definition crosses :: "real \<Rightarrow> real \<Rightarrow> edge \<Rightarrow> bool" where
  "crosses lon lat e = (case e of (x1, y1, x2, y2, slope) \<Rightarrow>
     ((lat < y1) \<noteq> (lat < y2)) \<and> lon < x1 + (lat - y1) * slope)"

definition touches :: "real \<Rightarrow> real \<Rightarrow> edge \<Rightarrow> bool" where
  "touches lon lat e = (case e of (x1, y1, x2, y2, slope) \<Rightarrow>
     if (lat < y1) \<noteq> (lat < y2) then \<bar>x1 + (lat - y1) * slope - lon\<bar> \<le> EDGE_TOLERANCE_DEG
     else y1 = lat \<and> lat = y2 \<and> min x1 x2 \<le> lon \<and> lon \<le> max x1 x2)"

lemma cast_ray_step:
  "cast_ray lon lat (e # es) inside =
     (if touches lon lat e then None else cast_ray lon lat es (inside \<noteq> crosses lon lat e))"
  by (cases e) (auto simp: touches_def crosses_def Let_def)

lemma cast_ray_parity:
  "cast_ray lon lat es inside =
     (if \<exists>e \<in> set es. touches lon lat e then None
      else Some (inside \<noteq> odd (length (filter (crosses lon lat) es))))"
proof (induction es arbitrary: inside)
  case (Cons e es)
  show ?case unfolding cast_ray_step Cons.IH by auto
qed simp

lemma sum_rotate1: "sum_list (map f (rotate1 vs)) = (sum_list (map f vs) :: real)"
  by (cases vs) simp_all

lemma cyclic_sum: "sum_list (map (\<lambda>(a, b). f a - f b) (ring_edges vs)) = (0 :: real)"
proof -
  have "map snd (ring_edges vs) = rotate1 vs" "map fst (ring_edges vs) = vs"
    by (auto simp: ring_edges_def nth_rotate1 intro: nth_equalityI)
  moreover have "sum_list (map (\<lambda>(a, b). f a - f b) es) = sum_list (map f (map fst es)) - sum_list (map f (map snd es))" for es
    by (induction es) auto
  ultimately show ?thesis by (simp add: sum_rotate1 del: map_map)
qed

lemma accepted_height:
  assumes "accepted vs"
  shows "Min (snd ` set vs) < Max (snd ` set vs)"
proof (rule ccontr)
  assume not_less: "\<not> Min (snd ` set vs) < Max (snd ` set vs)"
  have ne: "vs \<noteq> []" using assms by (auto simp: accepted_def)
  have flat: "snd v = Max (snd ` set vs)" if "v \<in> set vs" for v
  proof -
    have "Min (snd ` set vs) \<le> snd v" "snd v \<le> Max (snd ` set vs)" using that by auto
    with not_less show ?thesis by linarith
  qed
  let ?c = "Max (snd ` set vs)"
  have "doubled_area (ring_edges vs) = sum_list (map (\<lambda>(a, b). fst a * ?c - fst b * ?c) (ring_edges vs))"
    unfolding doubled_area_def
    by (rule arg_cong [of _ _ sum_list], rule map_cong [OF refl]) (metis (mono_tags, lifting) case_prod_conv flat ring_edges_vertices surj_pair)
  then have "doubled_area (ring_edges vs) = 0" using cyclic_sum [of "\<lambda>v. fst v * ?c" vs] by simp
  then show False using assms by (simp add: accepted_def EDGE_TOLERANCE_DEG_def)
qed

definition in_bounds :: "vertex list \<Rightarrow> real \<Rightarrow> real \<Rightarrow> bool" where
  "in_bounds vs lon lat \<longleftrightarrow> Min (fst ` set vs) \<le> lon \<and> lon \<le> Max (fst ` set vs) \<and>
     Min (snd ` set vs) \<le> lat \<and> lat \<le> Max (snd ` set vs)"

text \<open>An edge outside the band of a latitude has nothing to say about it.\<close>

lemma out_of_band:
  assumes "0 < height" "\<not> in_band (band_of n low height) (nat (band_of n low height lat)) e"
    and "low \<le> lat" "1 \<le> n"
  shows "\<not> crosses lon lat e" "\<not> touches lon lat e"
proof -
  obtain x1 y1 x2 y2 slope where e: "e = (x1, y1, x2, y2, slope)" by (metis prod_cases5)
  have mono: "band_of n low height y \<le> band_of n low height y'" if "y \<le> y'" for y y'
    using assms(1) that by (simp add: band_of_def py_trunc_mono divide_right_mono min.coboundedI2)
  have "0 \<le> band_of n low height lat"
    using assms(1,3,4) by (simp add: band_of_def py_trunc_def)
  with assms(2) have "\<not> (band_of n low height (min y1 y2) \<le> band_of n low height lat \<and>
      band_of n low height lat \<le> band_of n low height (max y1 y2))"
    by (simp add: in_band_def e)
  then have "\<not> (min y1 y2 \<le> lat \<and> lat \<le> max y1 y2)" using mono by blast
  then show "\<not> crosses lon lat e" "\<not> touches lon lat e"
    by (auto simp: crosses_def touches_def e split: if_splits)
qed

lemma from_ring_accepted:
  assumes "accepted vs"
  defines "n \<equiv> min MAX_BANDS (length vs)" and "low \<equiv> Min (snd ` set vs)"
  defines "height \<equiv> (Max (snd ` set vs) - low) / of_nat n"
  shows "from_ring (vs @ [hd vs]) =
    \<lparr>ca_min_lon = Min (fst ` set vs), ca_max_lon = Max (fst ` set vs), ca_min_lat = low,
     ca_max_lat = Max (snd ` set vs), ca_band_height = height,
     ca_bands = map (\<lambda>k. filter (in_band (band_of n low height) k) (map make_edge (ring_edges vs))) [0..<n],
     ca_vertices = vs\<rparr>"
proof -
  have "vs \<noteq> []" "1 < length (vs @ [hd vs])" using assms(1) by (auto simp: accepted_def)
  then show ?thesis by (simp add: from_ring_def Let_def n_def low_def height_def)
qed

lemma band_of_less: "1 \<le> n \<Longrightarrow> nat (band_of n low height lat) < n"
  unfolding band_of_def by linarith

lemma contains_iff:
  assumes "accepted vs"
  shows "area_contains (from_ring (vs @ [hd vs])) lon lat \<longleftrightarrow> in_bounds vs lon lat \<and>
     ((lon, lat) \<in> set vs \<or> (\<exists>e \<in> set (map make_edge (ring_edges vs)). touches lon lat e) \<or>
      odd (length (filter (crosses lon lat) (map make_edge (ring_edges vs)))))"
proof (cases "in_bounds vs lon lat")
  case False
  then show ?thesis
    unfolding area_contains_def from_ring_accepted [OF assms] by (auto simp: in_bounds_def)
next
  case True
  let ?n = "min MAX_BANDS (length vs)" and ?low = "Min (snd ` set vs)"
  let ?h = "(Max (snd ` set vs) - ?low) / of_nat ?n"
  let ?es = "map make_edge (ring_edges vs)" and ?band = "band_of ?n ?low ?h"
  have n: "1 \<le> ?n" using assms by (simp add: accepted_def MAX_BANDS_def)
  have "0 < real ?n" using n by linarith
  then have h: "0 < ?h" using accepted_height [OF assms] by (intro divide_pos_pos) simp_all
  have low: "?low \<le> lat" using True by (simp add: in_bounds_def)
  have band: "nat (?band lat) < ?n" using n by (rule band_of_less)
  have at: "map (\<lambda>k. filter (in_band ?band k) ?es) [0..<?n] ! nat (?band lat) = filter (in_band ?band (nat (?band lat))) ?es"
    using band by simp
  note silent = out_of_band [OF h _ low n, of _ lon]
  have "filter (crosses lon lat) (filter (in_band ?band (nat (?band lat))) ?es) = filter (crosses lon lat) ?es"
    unfolding filter_filter using silent(1) by (intro filter_cong [OF refl]) blast
  moreover have "(\<exists>e \<in> set (filter (in_band ?band (nat (?band lat))) ?es). touches lon lat e) \<longleftrightarrow> (\<exists>e \<in> set ?es. touches lon lat e)"
    unfolding set_filter using silent(2) by blast
  ultimately have cast: "cast_ray lon lat (filter (in_band ?band (nat (?band lat))) ?es) False =
      (if \<exists>e \<in> set ?es. touches lon lat e then None else Some (odd (length (filter (crosses lon lat) ?es))))"
    unfolding cast_ray_parity by simp
  have index: "min (int (length (map (\<lambda>k. filter (in_band ?band k) ?es) [0..<?n])) - 1) (py_trunc ((lat - ?low) / ?h)) = ?band lat"
    by (simp add: band_of_def)
  show ?thesis
    unfolding area_contains_def from_ring_accepted [OF assms] compiled_area.simps Let_def index at cast
    using True by (auto simp: in_bounds_def)
qed

lemma box_in_bounds:
  assumes "within_box a b p" "a \<in> set vs" "b \<in> set vs"
  shows "in_bounds vs (fst p) (snd p)"
proof -
  have "Min (f ` set vs) \<le> f a" "Min (f ` set vs) \<le> f b" "f a \<le> Max (f ` set vs)" "f b \<le> Max (f ` set vs)"
    for f :: "vertex \<Rightarrow> real" using assms(2,3) by auto
  from this [of fst] this [of snd] show ?thesis
    using assms(1) by (cases a; cases b; cases p) (auto simp: in_bounds_def)
qed

text \<open>A point of an edge touches the edge, or is one of its ends.\<close>

lemma on_segment_touches:
  assumes "on_segment a b (lon, lat)" "(lon, lat) \<noteq> a" "(lon, lat) \<noteq> b"
  shows "touches lon lat (make_edge (a, b))"
proof -
  obtain x1 y1 where a: "a = (x1, y1)" by fastforce
  obtain x2 y2 where b: "b = (x2, y2)" by fastforce
  obtain s where s: "0 \<le> s" "s \<le> 1" "lon = x1 + s * (x2 - x1)" "lat = y1 + s * (y2 - y1)"
    using assms(1) by (auto simp: on_segment_def a b)
  have box: "within_box a b (lon, lat)" using assms(1) by (rule on_segment_box)
  have "s \<noteq> 0" "s \<noteq> 1" using assms(2,3) s(3,4) by (auto simp: a b)
  then have "0 < s * (1 - s)" using s(1,2) by simp
  show ?thesis
  proof (cases "y1 = y2")
    case True
    then show ?thesis using box s(4) by (auto simp: touches_def a b)
  next
    case False
    then have "x1 + (lat - y1) * ((x2 - x1) / (y2 - y1)) = lon" by (simp add: s(3,4))
    moreover have "(lat < y1) \<noteq> (lat < y2)"
    proof -
      have "lat - y1 = s * (y2 - y1)" "y2 - lat = (1 - s) * (y2 - y1)" by (simp_all add: s(4) algebra_simps)
      moreover have "0 < s" "0 < 1 - s" using s(1,2) \<open>s \<noteq> 0\<close> \<open>s \<noteq> 1\<close> by auto
      ultimately have "y1 < y2 \<Longrightarrow> y1 < lat \<and> lat < y2" "y2 < y1 \<Longrightarrow> y2 < lat \<and> lat < y1"
        by (smt (verit) mult_pos_pos mult_pos_neg)+
      with False show ?thesis by linarith
    qed
    ultimately show ?thesis using False by (simp add: touches_def a b EDGE_TOLERANCE_DEG_def)
  qed
qed

lemma boundary_contained:
  assumes "accepted vs" "(a, b) \<in> set (ring_edges vs)" "on_segment a b p"
  shows "area_contains (from_ring (vs @ [hd vs])) (fst p) (snd p)"
proof -
  have ends: "a \<in> set vs" "b \<in> set vs" using assms(2) by (auto dest: ring_edges_vertices)
  have "in_bounds vs (fst p) (snd p)" using box_in_bounds [OF on_segment_box [OF assms(3)] ends] .
  moreover have "p \<in> set vs \<or> (\<exists>e \<in> set (map make_edge (ring_edges vs)). touches (fst p) (snd p) e)"
    using on_segment_touches [of a b "fst p" "snd p"] assms(2,3) ends by force
  ultimately show ?thesis unfolding contains_iff [OF assms(1)] prod.collapse by blast
qed

text \<open>
  Property C18. The banded ray cast is the even-odd rule over all edges of the ring: looking only at the
  edges of one latitude band gives the answer of looking at every edge. A position is inside when it
  is in the bounding box and is a vertex, touches an edge, or has an odd number of edges to its east.
\<close>

theorem area_contains_even_odd:
  assumes "normalize_ring points = Inr ring"
  defines "edges \<equiv> map make_edge (ring_edges (butlast ring))"
  shows "area_contains (from_ring ring) lon lat \<longleftrightarrow> in_bounds (butlast ring) lon lat \<and>
     ((lon, lat) \<in> set (butlast ring) \<or> (\<exists>e \<in> set edges. touches lon lat e) \<or>
      odd (length (filter (crosses lon lat) edges)))"
  using assms contains_iff by (auto simp: normalize_iff edges_def)

text \<open>
  The boundary belongs to the area: every point of an edge of an accepted ring is inside,
  whichever way the edge runs, vertices and horizontal edges included.
\<close>

theorem area_includes_boundary:
  assumes "normalize_ring points = Inr ring" "(a, b) \<in> set (ring_edges (butlast ring))"
    and "on_segment a b p"
  shows "area_contains (from_ring ring) (fst p) (snd p)"
  using assms boundary_contained by (auto simp: normalize_iff)

section \<open>Witnesses\<close>

lemma triangle_ring: "normalize_ring [(0, 0), (2, 0), (0, 2)] = Inr [(0, 0), (2, 0), (0, 2), (0, 0)]"
  by (simp add: normalize_ring_def open_ring_def ring_edges_def edge_clear_def folds_back_def doubled_area_def
      vertex_ok_def MIN_AREA_VERTICES_def MAX_AREA_VERTICES_def EDGE_TOLERANCE_DEG_def Let_def upt_rec numeral_2_eq_2)

lemma triangle_edges: "ring_edges [(0, 0), (2, 0), (0, 2 :: real)] =
    [((0, 0), (2, 0)), ((2, 0), (0, 2)), ((0, 2), (0, 0))]"
  by (simp add: ring_edges_def upt_rec numeral_2_eq_2)

theorem accepted_ring_is_simple_witness:
  "distinct (butlast [(0, 0), (2, 0), (0, 2), (0, 0)] :: vertex list)"
  using accepted_ring_is_simple [OF triangle_ring] by (elim conjE)

theorem area_contains_even_odd_witness:
  "area_contains (from_ring [(0, 0), (2, 0), (0, 2), (0, 0)]) (1 / 2) (1 / 2)"
  using area_contains_even_odd [OF triangle_ring, of "1 / 2" "1 / 2"]
  by (simp add: triangle_edges in_bounds_def crosses_def)

lemma slope_middle: "on_segment (2, 0) (0, 2) (1, 1)"
  unfolding on_segment_def by (rule exI [of _ "1 / 2"]) simp

theorem area_includes_boundary_witness:
  "area_contains (from_ring [(0, 0), (2, 0), (0, 2), (0, 0)]) 1 1"
  using area_includes_boundary [OF triangle_ring _ slope_middle] by (simp add: triangle_edges)

end
