(* ===== verification/Latin1.thy ===== *)
theory Latin1
  imports Prelude
begin

text \<open>
  Full case conversion on strings of code points below 256, for the parts of the program that compare
  free text: \<^verbatim>\<open>str.lower\<close>, \<^verbatim>\<open>str.upper\<close>, \<^verbatim>\<open>str.casefold\<close> and the
  case-insensitive match of \<^verbatim>\<open>re\<close>. Letters are the ASCII ones and 192 to 222 without the
  multiplication sign 215, whose small forms are 32 higher. The sharp s (223) becomes two letters. The
  micro sign and y with diaeresis have capitals above 255; no other character of the range shares those
  capitals, so both stand for themselves here and every comparison comes out the same.
\<close>

definition upper_letter :: "nat \<Rightarrow> bool" where
  "upper_letter n \<longleftrightarrow> 65 \<le> n \<and> n \<le> 90 \<or> 192 \<le> n \<and> n \<le> 222 \<and> n \<noteq> 215"

definition latin_lower :: "char \<Rightarrow> char" where
  "latin_lower c = (let n = (of_char c :: nat) in if upper_letter n then char_of (n + 32) else c)"

definition latin_upper :: "char \<Rightarrow> char" where
  "latin_upper c = (let n = (of_char c :: nat) in if 32 \<le> n \<and> upper_letter (n - 32) then char_of (n - 32) else c)"

definition str_lower :: "string \<Rightarrow> string" where
  "str_lower s = map latin_lower s"

definition str_upper :: "string \<Rightarrow> string" where
  "str_upper s = concat (map (\<lambda>c. if (of_char c :: nat) = 223 then ''SS'' else [latin_upper c]) s)"

definition str_casefold :: "string \<Rightarrow> string" where
  "str_casefold s = concat (map (\<lambda>c. if (of_char c :: nat) = 223 then ''ss'' else [latin_lower c]) s)"

lemma latin_lower_idem [simp]: "latin_lower (latin_lower c) = latin_lower c"
proof -
  have "(of_char c :: nat) < 256" by simp
  then show ?thesis by (auto simp: latin_lower_def upper_letter_def Let_def of_char_of)
qed

lemma str_lower_idem [simp]: "str_lower (str_lower s) = str_lower s"
  by (simp add: str_lower_def)

lemma str_lower_append: "str_lower (s @ t) = str_lower s @ str_lower t"
  by (simp add: str_lower_def)

text \<open>Two characters are equal for a case-insensitive pattern.\<close>

definition same_letter :: "char \<Rightarrow> char \<Rightarrow> bool" where
  "same_letter c d \<longleftrightarrow> latin_lower c = latin_lower d"

lemma same_letter_refl [simp]: "same_letter c c"
  by (simp add: same_letter_def)

lemma same_letter_lower [simp]: "same_letter (latin_lower c) d = same_letter c d"
  "same_letter c (latin_lower d) = same_letter c d"
  by (simp_all add: same_letter_def)

end
