(* ===== verification/ClassModel.thy ===== *)
theory ClassModel
  imports Latin1
begin

text \<open>
  \<^verbatim>\<open>classification/vocabulary.py\<close>, \<^verbatim>\<open>classification/model.py\<close> and
  \<^verbatim>\<open>classification/specs.py\<close>: the closed vocabularies, the evidence the classifier may use and
  the classification it returns, in which every assertion carries a claim.
\<close>

section \<open>Vocabularies\<close>

datatype mission_category =
    CommercialPassenger | CargoMission | GeneralAviation | BusinessAviation | MilitaryMission
  | GovernmentMission | LawEnforcementMission | MedicalMission | FirefightingMission | Training
  | HelicopterMission | UnknownMission

datatype claim_source = Mictronics | Faa | Heuristic

datatype evidence_basis = MilitaryFlag | OperatorName | OperatorPhrase | TypeCode | CallsignBasis

datatype confidence = Low | Medium | High

datatype icon_category =
    Airliner | CargoIcon | BusinessJet | LightAircraft | HelicopterIcon | MilitaryJet
  | MilitaryTransport | MilitaryIcon | GovernmentIcon | LawEnforcementIcon | MedicalIcon
  | FirefightingIcon | UnknownIcon

datatype group_kind =
    PassengerKind | CargoKind | GovernmentKind | LawEnforcementKind | MedicalKind | FirefightingKind
  | MilitaryKind | OtherKind

fun confidence_score :: "confidence \<Rightarrow> real" where
  "confidence_score Low = 4 / 10"
| "confidence_score Medium = 7 / 10"
| "confidence_score High = 95 / 100"

definition HIGH_THRESHOLD :: real where "HIGH_THRESHOLD = 85 / 100"
definition MEDIUM_THRESHOLD :: real where "MEDIUM_THRESHOLD = 55 / 100"

definition from_score :: "real \<Rightarrow> confidence" where
  "from_score value =
     (if HIGH_THRESHOLD \<le> value then High else if MEDIUM_THRESHOLD \<le> value then Medium else Low)"

fun CONFIDENCE_ORDER :: "confidence \<Rightarrow> nat" where
  "CONFIDENCE_ORDER Low = 0"
| "CONFIDENCE_ORDER Medium = 1"
| "CONFIDENCE_ORDER High = 2"

lemma confidence_order_inj [simp]: "CONFIDENCE_ORDER c = CONFIDENCE_ORDER d \<longleftrightarrow> c = d"
  by (cases c; cases d) simp_all

section \<open>Evidence, claims and classifications\<close>

record evidence =
  ev_icao24 :: string
  ev_military_flag :: bool
  ev_military_flag_source :: "string option"
  ev_operator_name :: "string option"
  ev_type_code :: "string option"
  ev_registration :: "string option"
  ev_callsign :: "string option"

record claim =
  clm_source :: claim_source
  clm_basis :: evidence_basis
  clm_confidence :: confidence
  clm_detail :: string

record classification =
  cl_military :: bool
  cl_military_claim :: "claim option"
  cl_government :: bool
  cl_government_claim :: "claim option"
  cl_law_enforcement :: bool
  cl_law_enforcement_claim :: "claim option"
  cl_mission :: mission_category
  cl_mission_claim :: "claim option"
  cl_icon_category :: icon_category

text \<open>The dataclass refuses a flag that disagrees with its claim.\<close>

definition classification_ok :: "classification \<Rightarrow> bool" where
  "classification_ok c \<longleftrightarrow>
     (cl_military c = (cl_military_claim c \<noteq> None)) \<and>
     (cl_government c = (cl_government_claim c \<noteq> None)) \<and>
     (cl_law_enforcement c = (cl_law_enforcement_claim c \<noteq> None)) \<and>
     ((cl_mission c = UnknownMission) \<noteq> (cl_mission_claim c \<noteq> None))"

definition make_classification :: "classification \<Rightarrow> classification result" where
  "make_classification c = (if classification_ok c then Inr c else Inl ValueError)"

definition unknown_classification :: classification where
  "unknown_classification = \<lparr>cl_military = False, cl_military_claim = None, cl_government = False,
     cl_government_claim = None, cl_law_enforcement = False, cl_law_enforcement_claim = None,
     cl_mission = UnknownMission, cl_mission_claim = None, cl_icon_category = UnknownIcon\<rparr>"

definition is_unknown :: "classification \<Rightarrow> bool" where
  "is_unknown c \<longleftrightarrow> \<not> (cl_military c \<or> cl_government c \<or> cl_law_enforcement c \<or>
     cl_mission c \<noteq> UnknownMission \<or> cl_icon_category c \<noteq> UnknownIcon)"

definition primary_claim :: "classification \<Rightarrow> claim option" where
  "primary_claim c = or_else (cl_military_claim c) (or_else (cl_law_enforcement_claim c)
     (or_else (cl_government_claim c) (cl_mission_claim c)))"

record classification_payload =
  cp_military :: bool
  cp_government :: bool
  cp_law_enforcement :: bool
  cp_mission :: mission_category
  cp_icon_category :: icon_category
  cp_confidence :: "confidence option"

definition classification_payload_of :: "classification \<Rightarrow> classification_payload option" where
  "classification_payload_of c =
     (if is_unknown c then None
      else Some \<lparr>cp_military = cl_military c, cp_government = cl_government c,
        cp_law_enforcement = cl_law_enforcement c, cp_mission = cl_mission c,
        cp_icon_category = cl_icon_category c,
        cp_confidence = map_option clm_confidence (primary_claim c)\<rparr>)"

record classification_row =
  cr_icao24 :: string
  cr_military :: int
  cr_military_src :: "claim_source option"
  cr_military_conf :: "real option"
  cr_government :: int
  cr_government_src :: "claim_source option"
  cr_government_conf :: "real option"
  cr_law_enforcement :: int
  cr_law_enforcement_src :: "claim_source option"
  cr_law_enforcement_conf :: "real option"
  cr_mission_category :: mission_category
  cr_mission_src :: "claim_source option"
  cr_mission_conf :: "real option"
  cr_icon_category :: icon_category
  cr_updated_ms :: int

definition claim_source_of :: "claim option \<Rightarrow> claim_source option" where
  "claim_source_of c = map_option clm_source c"

definition claim_score :: "claim option \<Rightarrow> real option" where
  "claim_score c = map_option (\<lambda>c. confidence_score (clm_confidence c)) c"

definition as_row :: "string \<Rightarrow> int \<Rightarrow> classification \<Rightarrow> classification_row" where
  "as_row icao24 updated_ms c =
     \<lparr>cr_icao24 = icao24,
      cr_military = of_bool (cl_military c),
      cr_military_src = claim_source_of (cl_military_claim c),
      cr_military_conf = claim_score (cl_military_claim c),
      cr_government = of_bool (cl_government c),
      cr_government_src = claim_source_of (cl_government_claim c),
      cr_government_conf = claim_score (cl_government_claim c),
      cr_law_enforcement = of_bool (cl_law_enforcement c),
      cr_law_enforcement_src = claim_source_of (cl_law_enforcement_claim c),
      cr_law_enforcement_conf = claim_score (cl_law_enforcement_claim c),
      cr_mission_category = cl_mission c,
      cr_mission_src = claim_source_of (cl_mission_claim c),
      cr_mission_conf = claim_score (cl_mission_claim c),
      cr_icon_category = cl_icon_category c,
      cr_updated_ms = updated_ms\<rparr>"

section \<open>Operator groups\<close>

record operator_group =
  og_slug :: string
  og_name :: string
  og_kind :: group_kind
  og_mission :: mission_category
  og_military :: bool
  og_government :: bool
  og_law_enforcement :: bool
  og_operators :: "string list"
  og_callsigns :: "string list"

record operator_pattern =
  op_phrase :: string
  op_group_slug :: string

section \<open>Lemmas\<close>

lemma confidence_survives_drift:
  "\<bar>value - confidence_score c\<bar> < 1 / 10 \<Longrightarrow> from_score value = c"
  by (cases c) (auto simp: from_score_def HIGH_THRESHOLD_def MEDIUM_THRESHOLD_def abs_if split: if_splits)

lemma payload_None_iff: "classification_payload_of c = None \<longleftrightarrow> is_unknown c"
  by (simp add: classification_payload_of_def)

end
