(* ===== verification/Operators.thy ===== *)
theory Operators
  imports ClassModel "HOL-Library.Char_ord" "HOL-Library.List_Lexorder" "HOL-Library.Sublist" "HOL-Library.Multiset"
begin

text \<open>
  \<^verbatim>\<open>classification/operators.py\<close>: the comparison key of an operator name and the directory
  of curated groups. The curated data (\<^verbatim>\<open>classification/data/operators.py\<close>) is an argument of
  the constructor. The tables of \<^verbatim>\<open>unicodedata\<close> are written out for code points below 256;
  a code point above that range which a decomposition yields is neither letter nor digit for the word
  pattern, so a space stands for it.
\<close>

section \<open>Comparison keys\<close>

definition word_char :: "char \<Rightarrow> bool" where
  "word_char c = (let n = (of_char c :: nat) in 97 \<le> n \<and> n \<le> 122 \<or> 48 \<le> n \<and> n \<le> 57)"

definition LEGAL_SUFFIXES :: "string list" where
  "LEGAL_SUFFIXES = [''inc'', ''incorporated'', ''llc'', ''lc'', ''ltd'', ''limited'', ''corp'',
     ''corporation'', ''co'', ''company'', ''plc'', ''gmbh'', ''ag'', ''sa'', ''sas'', ''srl'', ''spa'',
     ''bv'', ''nv'', ''ab'', ''as'', ''oy'', ''aps'', ''pty'', ''dba'']"

definition transliterate :: "char \<Rightarrow> string" where
  "transliterate c = (let n = (of_char c :: nat)
     in if n = 248 then ''o'' else if n = 240 then ''d'' else if n = 223 then ''ss''
        else if n = 230 then ''ae'' else if n = 254 then ''th'' else [c])"

definition decompose :: "char \<Rightarrow> string" where
  "decompose c = (let n = (of_char c :: nat)
     in if n < 128 then [c]
        else if 224 \<le> n \<and> n \<le> 229 \<or> n = 170 then ''a'' else if n = 231 then ''c''
        else if 232 \<le> n \<and> n \<le> 235 then ''e'' else if 236 \<le> n \<and> n \<le> 239 then ''i''
        else if n = 241 then ''n'' else if 242 \<le> n \<and> n \<le> 246 \<or> n = 186 then ''o''
        else if 249 \<le> n \<and> n \<le> 252 then ''u'' else if n = 253 \<or> n = 255 then ''y''
        else if n = 185 then ''1'' else if n = 178 then ''2'' else if n = 179 then ''3''
        else if n = 188 then ''1 4'' else if n = 189 then ''1 2'' else if n = 190 then ''3 4''
        else '' '')"

lemma dropWhile_shrinks: "t \<noteq> [] \<Longrightarrow> P (hd t) \<Longrightarrow> length (dropWhile P t) < length t"
  by (cases t) (auto simp: length_dropWhile_le less_Suc_eq_le)

text \<open>The maximal runs of characters that satisfy a test: \<^verbatim>\<open>findall\<close> of a one-class pattern.\<close>

function runs :: "(char \<Rightarrow> bool) \<Rightarrow> string \<Rightarrow> string list" where
  "runs P s = (let t = dropWhile (\<lambda>c. \<not> P c) s
     in if t = [] then [] else takeWhile P t # runs P (dropWhile P t))"
  by pat_completeness auto
termination
proof (relation "measure (\<lambda>(P, s). length s)", goal_cases)
  case (2 P s t)
  have "P (hd t)" using hd_dropWhile [of "\<lambda>c. \<not> P c" s] 2 by simp
  then have "length (dropWhile P t) < length t" using 2 dropWhile_shrinks by blast
  also have "\<dots> \<le> length s" using 2 by (simp add: length_dropWhile_le)
  finally show ?case by simp
qed simp

declare runs.simps [simp del]

function strip_legal :: "string list \<Rightarrow> string list" where
  "strip_legal ws =
     (if 1 < length ws \<and> last ws \<in> set LEGAL_SUFFIXES then strip_legal (butlast ws) else ws)"
  by pat_completeness auto
termination by (relation "measure length") auto

declare strip_legal.simps [simp del]

fun join_words :: "string list \<Rightarrow> string" where
  "join_words [] = ''''"
| "join_words [w] = w"
| "join_words (w # ws) = w @ '' '' @ join_words ws"

definition py_split :: "string \<Rightarrow> string list" where
  "py_split s = runs (\<lambda>c. \<not> is_space c) s"

definition key_words :: "string \<Rightarrow> string list" where
  "key_words name =
     strip_legal (runs word_char (concat (map decompose (concat (map transliterate (str_lower name))))))"

definition match_key :: "string \<Rightarrow> string" where
  "match_key name = join_words (key_words name)"

definition contains_run :: "string list \<Rightarrow> string list \<Rightarrow> bool" where
  "contains_run words phrase = list_ex (\<lambda>start. take (length phrase) (drop start words) = phrase)
     [0..<length words + 1 - length phrase]"

section \<open>The directory\<close>

record operator_match =
  om_group_id :: nat
  om_group :: operator_group
  om_basis :: evidence_basis
  om_confidence :: confidence
  om_matched :: string

record operator_directory =
  dir_groups :: "operator_group list"
  dir_by_slug :: "(string \<times> operator_group) list"
  dir_ids :: "(string \<times> nat) list"
  dir_by_name :: "(string \<times> string) list"
  dir_by_callsign :: "(string \<times> string) list"
  dir_patterns :: "(string list \<times> string) list"

definition claim_key :: "string \<Rightarrow> (string \<times> string) list \<Rightarrow> string \<Rightarrow> (string \<times> string) list result" where
  "claim_key slug index key =
     (if map_of index key \<noteq> None \<and> map_of index key \<noteq> Some slug then Inl ValueError
      else Inr (AList.update key slug index))"

fun claim_keys :: "string \<Rightarrow> string list \<Rightarrow> (string \<times> string) list \<Rightarrow> (string \<times> string) list result" where
  "claim_keys slug [] index = Inr index"
| "claim_keys slug (key # keys) index = bindE (claim_key slug index key) (claim_keys slug keys)"

fun index_groups :: "operator_group list \<Rightarrow> (string \<times> string) list \<Rightarrow> (string \<times> string) list
    \<Rightarrow> ((string \<times> string) list \<times> (string \<times> string) list) result" where
  "index_groups [] names callsigns = Inr (names, callsigns)"
| "index_groups (g # gs) names callsigns =
     bindE (claim_keys (og_slug g) (map match_key (og_operators g)) names) (\<lambda>names'.
     bindE (claim_keys (og_slug g) (map str_upper (og_callsigns g)) callsigns) (\<lambda>callsigns'.
       index_groups gs names' callsigns'))"

definition slug_ids :: "string list \<Rightarrow> (string \<times> nat) list" where
  "slug_ids slugs = zip (sort slugs) [1..<length slugs + 1]"

definition make_directory :: "operator_group list \<Rightarrow> operator_pattern list \<Rightarrow> operator_directory result" where
  "make_directory groups patterns =
     (let by_slug = fold (\<lambda>g. AList.update (og_slug g) g) groups []
      in if length by_slug \<noteq> length groups then Inl ValueError
         else bindE (index_groups groups [] []) (\<lambda>(names, callsigns).
           if \<not> list_all (\<lambda>p. map_of by_slug (op_group_slug p) \<noteq> None) patterns then Inl ValueError
           else Inr \<lparr>dir_groups = groups, dir_by_slug = by_slug, dir_ids = slug_ids (map fst by_slug),
             dir_by_name = names, dir_by_callsign = callsigns,
             dir_patterns = map (\<lambda>p. (py_split (match_key (op_phrase p)), op_group_slug p)) patterns\<rparr>))"

text \<open>\<^verbatim>\<open>_match\<close>: the two dictionary reads would raise on an unknown slug.\<close>

definition match_of :: "operator_directory \<Rightarrow> string \<Rightarrow> evidence_basis \<Rightarrow> confidence \<Rightarrow> string
    \<Rightarrow> operator_match result" where
  "match_of d slug basis confidence matched =
     (case (map_of (dir_ids d) slug, map_of (dir_by_slug d) slug) of
        (Some i, Some g) \<Rightarrow> Inr \<lparr>om_group_id = i, om_group = g, om_basis = basis,
          om_confidence = confidence, om_matched = matched\<rparr>
      | _ \<Rightarrow> Inl LookupError)"

definition directory_match :: "operator_directory \<Rightarrow> string option \<Rightarrow> operator_match option result" where
  "directory_match d operator_name = (case operator_name of
      None \<Rightarrow> Inr None
    | Some name \<Rightarrow>
        (let key = match_key name
         in if key = '''' then Inr None
            else case map_of (dir_by_name d) key of
              Some slug \<Rightarrow> map_sum id Some (match_of d slug OperatorName High key)
            | None \<Rightarrow>
                (case find (\<lambda>(phrase, slug). contains_run (py_split key) phrase) (dir_patterns d) of
                   Some (phrase, slug) \<Rightarrow> map_sum id Some (match_of d slug OperatorPhrase Medium (join_words phrase))
                 | None \<Rightarrow> Inr None)))"

definition capital :: "char \<Rightarrow> bool" where
  "capital c = (let n = (of_char c :: nat) in 65 \<le> n \<and> n \<le> 90)"

definition digit :: "char \<Rightarrow> bool" where
  "digit c = (let n = (of_char c :: nat) in 48 \<le> n \<and> n \<le> 57)"

definition callsign_designator :: "string \<Rightarrow> string option" where
  "callsign_designator s =
     (if 4 \<le> length s \<and> list_all capital (take 3 s) \<and> digit (s ! 3) \<and>
         list_all (\<lambda>c. capital c \<or> digit c) (drop 4 s)
      then Some (take 3 s) else None)"

definition match_callsign :: "operator_directory \<Rightarrow> string option \<Rightarrow> operator_match option result" where
  "match_callsign d callsign =
     (case Option.bind callsign (\<lambda>c. callsign_designator (str_upper (py_strip c))) of
        None \<Rightarrow> Inr None
      | Some designator \<Rightarrow> (case map_of (dir_by_callsign d) designator of
            None \<Rightarrow> Inr None
          | Some slug \<Rightarrow> map_sum id Some (match_of d slug CallsignBasis Low designator)))"

definition group_rows :: "operator_directory \<Rightarrow> (nat \<times> string \<times> string) list" where
  "group_rows d = map (\<lambda>g. (the (map_of (dir_ids d) (og_slug g)), og_slug g, og_name g))
     (sort_key (\<lambda>g. the (map_of (dir_ids d) (og_slug g))) (dir_groups d))"

definition curated_operator_rows :: "operator_directory \<Rightarrow> (string \<times> nat) list" where
  "curated_operator_rows d =
     concat (map (\<lambda>g. map (\<lambda>name. (name, the (map_of (dir_ids d) (og_slug g)))) (og_operators g)) (dir_groups d))"

section \<open>Words and keys\<close>

lemma runs_step:
  "dropWhile (\<lambda>c. \<not> P c) s \<noteq> [] \<Longrightarrow> runs P s =
     takeWhile P (dropWhile (\<lambda>c. \<not> P c) s) # runs P (dropWhile P (dropWhile (\<lambda>c. \<not> P c) s))"
  by (subst runs.simps) (simp only: Let_def if_False)

lemma runs_none: "dropWhile (\<lambda>c. \<not> P c) s = [] \<Longrightarrow> runs P s = []"
  by (subst runs.simps) (simp only: Let_def simp_thms if_True)

lemma runs_nil [simp]: "runs P [] = []"
  by (rule runs_none) simp

lemma runs_ne: "w \<in> set (runs P s) \<Longrightarrow> w \<noteq> [] \<and> list_all P w"
proof (induction P s rule: runs.induct)
  case (1 P s)
  let ?t = "dropWhile (\<lambda>c. \<not> P c) s"
  show ?case
  proof (cases "?t = []")
    case True
    then have "runs P s = []" by (rule runs_none)
    with "1.prems" show ?thesis by simp
  next
    case False
    then have "P (hd ?t)" using hd_dropWhile [of "\<lambda>c. \<not> P c" s] by simp
    then have "takeWhile P ?t \<noteq> []" using False by (cases ?t) auto
    moreover have "list_all P (takeWhile P ?t)" by (auto simp: list_all_iff dest: set_takeWhileD)
    moreover have "w = takeWhile P ?t \<or> w \<in> set (runs P (dropWhile P ?t))"
      using "1.prems" unfolding runs_step [OF False] by simp
    ultimately show ?thesis using "1.IH" [OF refl False] by metis
  qed
qed

lemma runs_separator: "w \<noteq> [] \<Longrightarrow> list_all P w \<Longrightarrow> \<not> P c \<Longrightarrow> runs P (w @ c # s) = w # runs P s"
proof -
  assume a: "w \<noteq> []" "list_all P w" "\<not> P c"
  have skip: "runs P (c # s) = runs P s"
    using a(3) by (subst (1 2) runs.simps) simp
  have "dropWhile (\<lambda>c. \<not> P c) (w @ c # s) = w @ c # s" using a(1,2) by (cases w) auto
  moreover have "takeWhile P (w @ c # s) = w" "dropWhile P (w @ c # s) = c # s"
    using a(2,3) by (auto simp: takeWhile_append dropWhile_append list_all_iff)
  ultimately show ?thesis using a(1) skip by (subst runs.simps) (simp add: Let_def)
qed

lemma runs_single: "w \<noteq> [] \<Longrightarrow> list_all P w \<Longrightarrow> runs P w = [w]"
proof -
  assume a: "w \<noteq> []" "list_all P w"
  have start: "dropWhile (\<lambda>c. \<not> P c) w = w" using a by (cases w) auto
  have "takeWhile P w = w" "dropWhile P w = []"
    using a(2) by (auto simp: list_all_iff)
  then show ?thesis using a(1) runs_step [of P w] unfolding start by (metis runs_nil)
qed

lemma runs_join:
  assumes "\<And>w. w \<in> set ws \<Longrightarrow> w \<noteq> [] \<and> list_all P w" "\<not> P CHR '' ''"
  shows "runs P (join_words ws) = ws"
  using assms by (induction ws rule: join_words.induct) (auto simp: runs_separator runs_single)

lemma strip_legal_step:
  "1 < length ws \<Longrightarrow> last ws \<in> set LEGAL_SUFFIXES \<Longrightarrow> strip_legal ws = strip_legal (butlast ws)"
  by (subst strip_legal.simps) simp

lemma strip_legal_done:
  "\<not> (1 < length ws \<and> last ws \<in> set LEGAL_SUFFIXES) \<Longrightarrow> strip_legal ws = ws"
  by (subst strip_legal.simps) (simp only: if_False)

text \<open>
  What the loop leaves: a prefix that dropped legal suffixes only, is empty only for no words, and
  ends in a suffix only when that is its one word.
\<close>

lemma strip_legal_spec:
  "\<exists>suffixes. ws = strip_legal ws @ suffixes \<and> set suffixes \<subseteq> set LEGAL_SUFFIXES \<and>
     (strip_legal ws = [] \<longrightarrow> ws = []) \<and>
     \<not> (1 < length (strip_legal ws) \<and> last (strip_legal ws) \<in> set LEGAL_SUFFIXES)"
proof (induction ws rule: strip_legal.induct)
  case (1 ws)
  show ?case
  proof (cases "1 < length ws \<and> last ws \<in> set LEGAL_SUFFIXES")
    case True
    with 1 obtain suffixes where *: "butlast ws = strip_legal (butlast ws) @ suffixes"
      "set suffixes \<subseteq> set LEGAL_SUFFIXES" "strip_legal (butlast ws) = [] \<longrightarrow> butlast ws = []"
      "\<not> (1 < length (strip_legal (butlast ws)) \<and> last (strip_legal (butlast ws)) \<in> set LEGAL_SUFFIXES)"
      by blast
    have "butlast ws \<noteq> []" "ws = butlast ws @ [last ws]" using True by (cases ws; auto)+
    with * True have "ws = strip_legal ws @ (suffixes @ [last ws])"
      by (metis append.assoc strip_legal_step)
    moreover have "strip_legal ws = strip_legal (butlast ws)"
      using True by (intro strip_legal_step) auto
    ultimately show ?thesis
      using *(2,3,4) True \<open>butlast ws \<noteq> []\<close>
      by (intro exI [of _ "suffixes @ [last ws]"]) (simp only: set_append, auto)
  next
    case False
    then show ?thesis using strip_legal_done [OF False] by auto
  qed
qed

lemma strip_legal_subset: "set (strip_legal ws) \<subseteq> set ws"
  using strip_legal_spec [of ws] by (metis set_append sup_ge1)

lemma strip_legal_idem [simp]: "strip_legal (strip_legal ws) = strip_legal ws"
  using strip_legal_spec [of ws] strip_legal_done by blast

lemma key_words_ne: "w \<in> set (key_words name) \<Longrightarrow> w \<noteq> [] \<and> list_all word_char w"
  unfolding key_words_def using strip_legal_subset runs_ne by blast

lemma word_char_not_space: "word_char c \<Longrightarrow> \<not> is_space c"
  by (auto simp: word_char_def is_space_def Let_def)

lemma space_chars [simp]: "is_space CHR '' ''" "\<not> word_char CHR '' ''"
  by (simp_all add: is_space_def word_char_def)

lemma split_match_key: "py_split (match_key name) = key_words name"
  unfolding py_split_def match_key_def
  by (rule runs_join) (use key_words_ne word_char_not_space in \<open>fastforce simp: list_all_iff\<close>)+

lemma match_key_empty: "match_key name = '''' \<longleftrightarrow> key_words name = []"
  using split_match_key [of name] by (auto simp: match_key_def py_split_def)

text \<open>Characters of a key are left alone by the folding.\<close>

lemma fold_word_char:
  "word_char c \<or> c = CHR '' '' \<Longrightarrow> latin_lower c = c \<and> transliterate c = [c] \<and> decompose c = [c]"
proof -
  assume "word_char c \<or> c = CHR '' ''"
  then have "(of_char c :: nat) < 128 \<and> \<not> upper_letter (of_char c)"
    by (auto simp: word_char_def upper_letter_def Let_def)
  then show ?thesis by (simp add: latin_lower_def transliterate_def decompose_def Let_def)
qed

lemma join_words_chars:
  "(\<And>w. w \<in> set ws \<Longrightarrow> list_all P w) \<Longrightarrow> P CHR '' '' \<Longrightarrow> list_all P (join_words ws)"
  by (induction ws rule: join_words.induct) auto

lemma fold_key:
  "list_all (\<lambda>c. word_char c \<or> c = CHR '' '') s \<Longrightarrow>
     concat (map decompose (concat (map transliterate (str_lower s)))) = s"
  by (induction s) (auto simp: fold_word_char str_lower_def)

lemma key_words_key: "key_words (match_key name) = key_words name"
proof -
  have "list_all (\<lambda>c. word_char c \<or> c = CHR '' '') (match_key name)"
    unfolding match_key_def
    by (rule join_words_chars) (use key_words_ne in \<open>auto simp: list_all_iff\<close>)
  moreover have "runs word_char (match_key name) = key_words name"
    unfolding match_key_def by (rule runs_join) (use key_words_ne in auto)
  moreover have "strip_legal (key_words name) = key_words name"
    by (simp add: key_words_def)
  ultimately show ?thesis by (simp only: key_words_def [of "match_key name"] fold_key)
qed

lemma match_key_key [simp]: "match_key (match_key name) = match_key name"
  unfolding match_key_def [of "match_key name"] key_words_key by (simp only: match_key_def)

lemma contains_run_sublist: "contains_run words phrase \<longleftrightarrow> sublist phrase words"
proof
  assume "contains_run words phrase"
  then obtain i where "take (length phrase) (drop i words) = phrase"
    by (auto simp: contains_run_def list_ex_iff)
  then have "words = take i words @ phrase @ drop (length phrase) (drop i words)"
    by (metis append_take_drop_id)
  then show "sublist phrase words" by (auto simp: sublist_def)
next
  assume "sublist phrase words"
  then obtain a b where "words = a @ phrase @ b" by (auto simp: sublist_def)
  then show "contains_run words phrase"
    by (auto simp: contains_run_def list_ex_iff intro!: bexI [of _ "length a"])
qed

section \<open>A directory that was built\<close>

lemma by_slug_length:
  "length (fold (\<lambda>g. AList.update (og_slug g) g) gs al) \<le> length al + length gs"
proof (induction gs arbitrary: al)
  case (Cons g gs)
  have "length (AList.update (og_slug g) g al) \<le> Suc (length al)" by (simp add: dict_length_update)
  with Cons.IH [of "AList.update (og_slug g) g al"] show ?case by simp
qed simp

lemma by_slug_distinct:
  "length (fold (\<lambda>g. AList.update (og_slug g) g) gs al) = length al + length gs \<Longrightarrow>
     distinct (map fst al) \<Longrightarrow>
     fold (\<lambda>g. AList.update (og_slug g) g) gs al = al @ map (\<lambda>g. (og_slug g, g)) gs \<and>
     distinct (map fst al @ map og_slug gs)"
proof (induction gs arbitrary: al)
  case (Cons g gs)
  let ?al = "AList.update (og_slug g) g al"
  have "length (fold (\<lambda>g. AList.update (og_slug g) g) gs ?al) \<le> length ?al + length gs"
    by (rule by_slug_length)
  with Cons.prems(1) have new: "og_slug g \<notin> fst ` set al"
    by (auto simp: dict_length_update split: if_splits)
  then have "?al = al @ [(og_slug g, g)]" by (rule dict_update_new)
  with Cons.IH [of ?al] Cons.prems new show ?case by (auto simp: image_iff)
qed simp

lemma claim_key_spec:
  assumes "claim_key slug index key = Inr index'"
  shows "map_of index \<subseteq>\<^sub>m map_of index'" "map_of index' key = Some slug"
    "ran (map_of index') \<subseteq> insert slug (ran (map_of index))"
  using assms by (auto simp: claim_key_def map_le_def update_conv' ran_def split: if_splits)

lemma claim_keys_spec:
  "claim_keys slug keys index = Inr index' \<Longrightarrow> map_of index \<subseteq>\<^sub>m map_of index' \<and>
     (\<forall>key \<in> set keys. map_of index' key = Some slug) \<and>
     ran (map_of index') \<subseteq> insert slug (ran (map_of index))"
proof (induction keys arbitrary: index)
  case (Cons key keys)
  then obtain index1 where one: "claim_key slug index key = Inr index1"
    and rest: "claim_keys slug keys index1 = Inr index'"
    by (auto simp: bindE_Inr_iff)
  note * = claim_key_spec [OF one] Cons.IH [OF rest]
  then have "map_of index' key = Some slug" by (auto simp: map_le_def dom_def)
  with * show ?case by (auto intro: map_le_trans)
qed (auto simp: map_le_refl)

lemma index_groups_spec:
  "index_groups gs names callsigns = Inr (names', callsigns') \<Longrightarrow>
     map_of names \<subseteq>\<^sub>m map_of names' \<and> map_of callsigns \<subseteq>\<^sub>m map_of callsigns' \<and>
     (\<forall>g \<in> set gs. \<forall>name \<in> set (og_operators g). map_of names' (match_key name) = Some (og_slug g)) \<and>
     (\<forall>g \<in> set gs. \<forall>c \<in> set (og_callsigns g). map_of callsigns' (str_upper c) = Some (og_slug g)) \<and>
     ran (map_of names') \<subseteq> ran (map_of names) \<union> og_slug ` set gs \<and>
     ran (map_of callsigns') \<subseteq> ran (map_of callsigns) \<union> og_slug ` set gs"
proof (induction gs arbitrary: names callsigns)
  case (Cons g gs)
  then obtain n c where
      n: "claim_keys (og_slug g) (map match_key (og_operators g)) names = Inr n"
    and c: "claim_keys (og_slug g) (map str_upper (og_callsigns g)) callsigns = Inr c"
    and rest: "index_groups gs n c = Inr (names', callsigns')"
    by (auto simp: bindE_Inr_iff)
  have new: "map_of n \<subseteq>\<^sub>m map_of names'" "map_of c \<subseteq>\<^sub>m map_of callsigns'"
    using Cons.IH [OF rest] by auto
  have "map_of names' (match_key name) = Some (og_slug g)" if "name \<in> set (og_operators g)" for name
    using claim_keys_spec [OF n] new that by (auto simp: map_le_def dom_def)
  moreover have "map_of callsigns' (str_upper d) = Some (og_slug g)" if "d \<in> set (og_callsigns g)" for d
    using claim_keys_spec [OF c] new that by (auto simp: map_le_def dom_def)
  ultimately show ?case
    using claim_keys_spec [OF n] claim_keys_spec [OF c] Cons.IH [OF rest]
    by (auto intro: map_le_trans)
qed (simp add: map_le_refl)

lemma slug_ids_keys: "map fst (slug_ids slugs) = sort slugs"
  unfolding slug_ids_def by (rule map_fst_zip) (simp del: upt_Suc)

text \<open>Everything the constructor guarantees of a directory it returns.\<close>

lemma make_directory_spec:
  assumes "make_directory groups patterns = Inr d"
  shows "distinct (map og_slug groups)" "dir_groups d = groups"
    "dir_by_slug d = map (\<lambda>g. (og_slug g, g)) groups" "dir_ids d = slug_ids (map og_slug groups)"
    "\<And>g name. g \<in> set groups \<Longrightarrow> name \<in> set (og_operators g) \<Longrightarrow>
       map_of (dir_by_name d) (match_key name) = Some (og_slug g)"
    "\<And>g c. g \<in> set groups \<Longrightarrow> c \<in> set (og_callsigns g) \<Longrightarrow>
       map_of (dir_by_callsign d) (str_upper c) = Some (og_slug g)"
    "ran (map_of (dir_by_name d)) \<subseteq> og_slug ` set groups"
    "ran (map_of (dir_by_callsign d)) \<subseteq> og_slug ` set groups"
    "dir_patterns d = map (\<lambda>p. (key_words (op_phrase p), op_group_slug p)) patterns"
    "op_group_slug ` set patterns \<subseteq> og_slug ` set groups"
proof -
  let ?by = "fold (\<lambda>g. AList.update (og_slug g) g) groups []"
  have len: "length ?by = length groups" using assms by (auto simp: make_directory_def Let_def split: if_splits)
  then have bys: "?by = map (\<lambda>g. (og_slug g, g)) groups" and dist: "distinct (map og_slug groups)"
    using by_slug_distinct [of groups "[]"] by auto
  obtain n c where idx: "index_groups groups [] [] = Inr (n, c)"
    and pats: "list_all (\<lambda>p. map_of ?by (op_group_slug p) \<noteq> None) patterns"
    and d: "d = \<lparr>dir_groups = groups, dir_by_slug = ?by, dir_ids = slug_ids (map fst ?by),
             dir_by_name = n, dir_by_callsign = c,
             dir_patterns = map (\<lambda>p. (py_split (match_key (op_phrase p)), op_group_slug p)) patterns\<rparr>"
    using assms len by (auto simp: make_directory_def Let_def bindE_Inr_iff split: if_splits)
  show "distinct (map og_slug groups)" by (rule dist)
  show "dir_groups d = groups" "dir_by_slug d = map (\<lambda>g. (og_slug g, g)) groups"
    "dir_ids d = slug_ids (map og_slug groups)"
    "dir_patterns d = map (\<lambda>p. (key_words (op_phrase p), op_group_slug p)) patterns"
    by (simp_all add: d bys comp_def split_match_key)
  show "g \<in> set groups \<Longrightarrow> name \<in> set (og_operators g) \<Longrightarrow>
       map_of (dir_by_name d) (match_key name) = Some (og_slug g)"
    "g \<in> set groups \<Longrightarrow> s \<in> set (og_callsigns g) \<Longrightarrow>
       map_of (dir_by_callsign d) (str_upper s) = Some (og_slug g)" for g name s
    using index_groups_spec [OF idx] by (simp_all add: d)
  show "ran (map_of (dir_by_name d)) \<subseteq> og_slug ` set groups"
    "ran (map_of (dir_by_callsign d)) \<subseteq> og_slug ` set groups"
    using index_groups_spec [OF idx] by (simp_all add: d)
  show "op_group_slug ` set patterns \<subseteq> og_slug ` set groups"
    using pats unfolding bys by (force simp: list_all_iff map_of_eq_None_iff)
qed

text \<open>The number of a group: its place among the sorted slugs.\<close>

definition group_number :: "operator_group list \<Rightarrow> string \<Rightarrow> nat" where
  "group_number groups slug = the (map_of (slug_ids (map og_slug groups)) slug)"

lemma slug_ids_some: "slug \<in> set slugs \<Longrightarrow> \<exists>i. map_of (slug_ids slugs) slug = Some i"
  using slug_ids_keys [of slugs] by (metis list.set_map map_of_eq_None_iff not_None_eq set_sort)

lemma slug_ids_perm: "mset slugs = mset slugs' \<Longrightarrow> slug_ids slugs = slug_ids slugs'"
  unfolding slug_ids_def by (metis mset_eq_length mset_sort properties_for_sort sorted_sort)

lemma match_of_built:
  assumes "make_directory groups patterns = Inr d" "g \<in> set groups"
  shows "match_of d (og_slug g) basis confidence matched =
    Inr \<lparr>om_group_id = group_number groups (og_slug g), om_group = g, om_basis = basis,
      om_confidence = confidence, om_matched = matched\<rparr>"
proof -
  note spec = make_directory_spec [OF assms(1)]
  obtain i where "map_of (slug_ids (map og_slug groups)) (og_slug g) = Some i"
    using slug_ids_some [of "og_slug g" "map og_slug groups"] assms(2) by auto
  moreover have "map_of (map (\<lambda>g. (og_slug g, g)) groups) (og_slug g) = Some g"
    using spec(1) assms(2) by (intro map_of_is_SomeI) (auto simp: comp_def)
  ultimately show ?thesis unfolding match_of_def spec(3,4) by (simp add: group_number_def)
qed

section \<open>Properties\<close>

text \<open>
  The comparison key is a normal form: the key of a key is the key itself, its words are
  never empty, they come from the folded name by dropping words of the legal suffix list from the end
  only, and the last word is not such a suffix unless it is the only one. The key is empty exactly
  when the folded name has no word at all, so stripping never empties it.
\<close>

theorem match_key_normal_form:
  fixes name :: string
  defines "words \<equiv> runs word_char (concat (map decompose (concat (map transliterate (str_lower name)))))"
    and "key \<equiv> py_split (match_key name)"
  shows "match_key (match_key name) = match_key name \<and> match_key name = join_words key \<and>
     (\<exists>suffixes. words = key @ suffixes \<and> set suffixes \<subseteq> set LEGAL_SUFFIXES) \<and>
     \<not> (1 < length key \<and> last key \<in> set LEGAL_SUFFIXES) \<and> (match_key name = '''' \<longleftrightarrow> words = [])"
proof -
  have key: "key = strip_legal words"
    unfolding key_def split_match_key key_words_def words_def ..
  note spec = strip_legal_spec [of words]
  have "match_key name = '''' \<longleftrightarrow> words = []"
    using spec unfolding match_key_empty split_match_key [symmetric] key_def [symmetric] unfolding key by auto
  moreover have "match_key name = join_words key"
    unfolding key_def split_match_key by (simp only: match_key_def)
  moreover have "match_key (match_key name) = match_key name" by simp
  ultimately show ?thesis using spec unfolding key by metis
qed

text \<open>What a lookup may answer: no match, or a curated group under its own number.\<close>

definition curated_match :: "operator_group list \<Rightarrow> (confidence \<Rightarrow> bool) \<Rightarrow> operator_match option result \<Rightarrow> bool" where
  "curated_match groups C found = (case found of
      Inl e \<Rightarrow> False
    | Inr None \<Rightarrow> True
    | Inr (Some m) \<Rightarrow> om_group m \<in> set groups \<and> C (om_confidence m) \<and>
        om_group_id m = group_number groups (og_slug (om_group m)))"

lemma curated_match_of:
  assumes "make_directory groups patterns = Inr d" "slug \<in> og_slug ` set groups" "C confidence"
  shows "curated_match groups C (map_sum id Some (match_of d slug basis confidence matched))"
proof -
  obtain g where "g \<in> set groups" "slug = og_slug g" using assms(2) by blast
  with match_of_built [OF assms(1)] assms(3) show ?thesis by (simp add: curated_match_def)
qed

lemma find_SomeD: "find P xs = Some x \<Longrightarrow> x \<in> set xs \<and> P x"
  by (induction xs) (auto split: if_splits)

lemma pattern_slugs:
  assumes "make_directory groups patterns = Inr d" "find P (dir_patterns d) = Some (phrase, slug)"
  shows "slug \<in> og_slug ` set groups"
proof -
  have "(phrase, slug) \<in> set (dir_patterns d)" using find_SomeD [OF assms(2)] by blast
  then have "slug \<in> op_group_slug ` set patterns"
    unfolding make_directory_spec(9) [OF assms(1)] by auto
  with make_directory_spec(10) [OF assms(1)] show ?thesis by blast
qed

lemma directory_match_curated:
  assumes "make_directory groups patterns = Inr d"
  shows "curated_match groups (\<lambda>c. c \<noteq> Low) (directory_match d operator_name)"
    and "curated_match groups (\<lambda>c. c = Low) (match_callsign d callsign)"
proof -
  note spec = make_directory_spec [OF assms] and ok = curated_match_of [OF assms]
  have names: "slug \<in> og_slug ` set groups" if "map_of (dir_by_name d) key = Some slug" for key slug
    using spec(7) ranI [of "map_of (dir_by_name d)", OF that] by blast
  have calls: "slug \<in> og_slug ` set groups" if "map_of (dir_by_callsign d) key = Some slug" for key slug
    using spec(8) ranI [of "map_of (dir_by_callsign d)", OF that] by blast
  have none: "curated_match groups C (Inr None)" for C by (simp add: curated_match_def)
  show "curated_match groups (\<lambda>c. c \<noteq> Low) (directory_match d operator_name)"
    "curated_match groups (\<lambda>c. c = Low) (match_callsign d callsign)"
    unfolding directory_match_def match_callsign_def Let_def
    by (auto split: option.splits intro!: none ok dest: names calls pattern_slugs [OF assms])
qed

lemma directory_answers: "make_directory groups patterns = Inr d \<Longrightarrow> \<exists>m. directory_match d name = Inr m"
  using directory_match_curated(1) [of groups patterns d name]
  by (auto simp: curated_match_def split: sum.splits)

lemma callsign_answers: "make_directory groups patterns = Inr d \<Longrightarrow> \<exists>m. match_callsign d callsign = Inr m"
  using directory_match_curated(2) [of groups patterns d callsign]
  by (auto simp: curated_match_def split: sum.splits)

text \<open>
  Lookups in a directory that was built never raise, whatever the operator string or the
  callsign: an answer names one of the curated groups under its own number, by name or phrase with
  more than low confidence, and by callsign never with more than low confidence.
\<close>

theorem directory_lookups_total:
  assumes "make_directory groups patterns = Inr d"
  shows "curated_match groups (\<lambda>c. c \<noteq> Low) (directory_match d operator_name) \<and>
     curated_match groups (\<lambda>c. c = Low) (match_callsign d callsign)"
  using directory_match_curated [OF assms] by blast

lemma exact_match:
  assumes "make_directory groups patterns = Inr d" "g \<in> set groups" "name \<in> set (og_operators g)"
    and "match_key spelling = match_key name" "match_key name \<noteq> ''''"
  shows "directory_match d (Some spelling) = Inr (Some \<lparr>om_group_id = group_number groups (og_slug g),
      om_group = g, om_basis = OperatorName, om_confidence = High, om_matched = match_key name\<rparr>)"
  using assms(4,5) make_directory_spec(5) [OF assms(1-3)] match_of_built [OF assms(1,2)]
  by (simp add: directory_match_def)

text \<open>
  An exact name wins over every phrase: any spelling whose key is the key of a curated
  name is recognised as that name's group with high confidence, and the group is unique.
\<close>

theorem exact_name_wins:
  assumes "make_directory groups patterns = Inr d" "g \<in> set groups" "name \<in> set (og_operators g)"
    and "match_key spelling = match_key name" "match_key name \<noteq> ''''"
  shows "directory_match d (Some spelling) = Inr (Some \<lparr>om_group_id = group_number groups (og_slug g),
      om_group = g, om_basis = OperatorName, om_confidence = High, om_matched = match_key name\<rparr>)"
  using assms by (rule exact_match)

text \<open>
  A phrase is recognised as a run of whole words, and the first pattern in file order
  wins: for a name that is no curated name, the answer is the group of the first pattern whose words
  occur consecutively in the key, with medium confidence, or nothing if there is none.
\<close>

theorem first_phrase_wins:
  assumes "make_directory groups patterns = Inr d" "map_of (dir_by_name d) (match_key name) = None"
    and "match_key name \<noteq> ''''"
  shows "case find (\<lambda>p. sublist (key_words (op_phrase p)) (key_words name)) patterns of
      None \<Rightarrow> directory_match d (Some name) = Inr None
    | Some p \<Rightarrow> \<exists>g \<in> set groups. og_slug g = op_group_slug p \<and>
        directory_match d (Some name) = Inr (Some \<lparr>om_group_id = group_number groups (og_slug g),
          om_group = g, om_basis = OperatorPhrase, om_confidence = Medium,
          om_matched = match_key (op_phrase p)\<rparr>)"
proof -
  note spec = make_directory_spec [OF assms(1)]
  have find_map: "find (\<lambda>(phrase, slug). contains_run (key_words name) phrase) (dir_patterns d) =
      map_option (\<lambda>p. (key_words (op_phrase p), op_group_slug p))
        (find (\<lambda>p. sublist (key_words (op_phrase p)) (key_words name)) patterns)"
    unfolding spec(9) by (induction patterns) (auto simp: contains_run_sublist)
  show ?thesis
  proof (cases "find (\<lambda>p. sublist (key_words (op_phrase p)) (key_words name)) patterns")
    case None
    then show ?thesis using assms(2,3) find_map by (simp add: directory_match_def split_match_key)
  next
    case (Some p)
    then have "p \<in> set patterns" by (rule conjunct1 [OF find_SomeD])
    then have "op_group_slug p \<in> og_slug ` set groups" using spec(10) by blast
    then obtain g where g: "g \<in> set groups" "og_slug g = op_group_slug p" by auto
    moreover note match_of_built [OF assms(1) g(1), unfolded g(2)]
    then have "directory_match d (Some name) =
        Inr (Some \<lparr>om_group_id = group_number groups (og_slug g), om_group = g, om_basis = OperatorPhrase,
          om_confidence = Medium, om_matched = match_key (op_phrase p)\<rparr>)"
      using Some assms(2,3) find_map by (simp add: directory_match_def split_match_key match_key_def [of "op_phrase p"] g(2))
    ultimately show ?thesis using Some by auto
  qed
qed

text \<open>
  Group numbers do not depend on the order of the data file: two directories over the
  same slugs number them alike, from one upwards without gaps, in the order of the slugs.
\<close>

theorem group_numbers_order_free:
  assumes "make_directory groups patterns = Inr d" "make_directory groups' patterns' = Inr d'"
    and "mset (map og_slug groups) = mset (map og_slug groups')"
  shows "dir_ids d = dir_ids d' \<and> map snd (dir_ids d) = [1..<length groups + 1] \<and>
     map fst (dir_ids d) = sort (map og_slug groups)"
proof -
  have "map snd (slug_ids (map og_slug groups)) = [1..<length groups + 1]"
    unfolding slug_ids_def length_map by (rule map_snd_zip) (simp del: upt_Suc)
  then show ?thesis
    using make_directory_spec(4) [OF assms(1)] make_directory_spec(4) [OF assms(2)]
      slug_ids_perm [OF assms(3)] slug_ids_keys [of "map og_slug groups"] by metis
qed

section \<open>Witnesses\<close>

definition sample_groups :: "operator_group list" where
  "sample_groups =
     [\<lparr>og_slug = ''delta'', og_name = ''Delta'', og_kind = PassengerKind, og_mission = CommercialPassenger,
       og_military = False, og_government = False, og_law_enforcement = False,
       og_operators = [''Delta Air Lines''], og_callsigns = [''DAL'']\<rparr>,
      \<lparr>og_slug = ''county-sheriff'', og_name = ''Sheriff'', og_kind = LawEnforcementKind,
       og_mission = LawEnforcementMission, og_military = False, og_government = True,
       og_law_enforcement = True, og_operators = [], og_callsigns = []\<rparr>,
      \<lparr>og_slug = ''usaf'', og_name = ''US Air Force'', og_kind = MilitaryKind, og_mission = MilitaryMission,
       og_military = True, og_government = True, og_law_enforcement = False,
       og_operators = [''United States Air Force''], og_callsigns = []\<rparr>]"

definition sample_patterns :: "operator_pattern list" where
  "sample_patterns = [\<lparr>op_phrase = ''Sheriff'', op_group_slug = ''county-sheriff''\<rparr>]"

definition sample_directory :: operator_directory where
  "sample_directory = projr (make_directory sample_groups sample_patterns)"

lemma sample_built: "make_directory sample_groups sample_patterns = Inr sample_directory"
proof -
  have "\<not> isl (make_directory sample_groups sample_patterns)" by code_simp
  then show ?thesis unfolding sample_directory_def by (cases "make_directory sample_groups sample_patterns") simp_all
qed

lemma sample_keys:
  "match_key ''DELTA AIR LINES, INC.'' = ''delta air lines''" "match_key ''Delta Air Lines'' = ''delta air lines''"
  "match_key ''Kent County Sheriff'' = ''kent county sheriff''"
  "map_of (dir_by_name sample_directory) ''kent county sheriff'' = None"
  by code_simp+

theorem directory_lookups_total_witness:
  "curated_match sample_groups (\<lambda>c. c \<noteq> Low) (directory_match sample_directory (Some ''Nobody''))"
  using directory_lookups_total [OF sample_built] by blast

theorem exact_name_wins_witness:
  "map_sum id (map_option om_confidence) (directory_match sample_directory (Some ''DELTA AIR LINES, INC.'')) = Inr (Some High)"
  using exact_name_wins [OF sample_built, of "hd sample_groups" "''Delta Air Lines''" "''DELTA AIR LINES, INC.''"]
  by (simp add: sample_keys) (simp add: sample_groups_def)

theorem first_phrase_wins_witness:
  "directory_match sample_directory (Some ''Kent County Sheriff'') \<noteq> Inr None"
proof -
  have "find (\<lambda>p. sublist (key_words (op_phrase p)) (key_words ''Kent County Sheriff'')) sample_patterns =
      Some (hd sample_patterns)"
    unfolding contains_run_sublist [symmetric] by code_simp
  with first_phrase_wins [OF sample_built, of "''Kent County Sheriff''"] show ?thesis
    by (auto simp: sample_keys)
qed

theorem group_numbers_order_free_witness:
  "map fst (dir_ids sample_directory) = [''county-sheriff'', ''delta'', ''usaf'']"
proof -
  have "make_directory sample_groups sample_patterns = Inr sample_directory" by (rule sample_built)
  from group_numbers_order_free [OF this this] have "map fst (dir_ids sample_directory) = sort (map og_slug sample_groups)"
    by simp
  also have "\<dots> = [''county-sheriff'', ''delta'', ''usaf'']" by code_simp
  finally show ?thesis .
qed

end
