(* ===== verification/Classify.thy ===== *)
theory Classify
  imports Operators
begin

text \<open>
  \<^verbatim>\<open>classification/engine.py\<close> with the type tables of
  \<^verbatim>\<open>classification/data/types.py\<close>: from the evidence about one airframe to its classification.
  The operator directory is an argument, as the code allows. A claim's detail is built as the code
  builds it, except that \<^verbatim>\<open>repr\<close> of the matched text is the text between single quotes.
\<close>

section \<open>Type tables\<close>

definition MILITARY_TYPE_CODES :: "string list" where
  "MILITARY_TYPE_CODES = [''C17'', ''C5M'', ''C130'', ''C30J'', ''C27J'', ''K35R'', ''A400'', ''C160'', ''E3TF'',
     ''E3CF'', ''E6'', ''R135'', ''P8'', ''P3'', ''E2'', ''C2'', ''V22'', ''U2'', ''F15'',
     ''F16'', ''F18'', ''F22'', ''F35'', ''A10'', ''AV8B'', ''B1'', ''B2'', ''B52'',
     ''EUFI'', ''RFAL'', ''TOR'', ''T38'', ''AH64'', ''H47'']"

definition MILITARY_TRANSPORT_TYPE_CODES :: "string list" where
  "MILITARY_TRANSPORT_TYPE_CODES = [''C17'', ''C5M'', ''C130'', ''C30J'', ''C27J'', ''K35R'', ''A400'', ''C160'', ''E3TF'',
     ''E3CF'', ''E6'', ''R135'', ''P8'', ''P3'', ''E2'', ''C2'', ''V22'']"

definition ROTORCRAFT_TYPE_CODES :: "string list" where
  "ROTORCRAFT_TYPE_CODES = [''EC20'', ''EC25'', ''EC30'', ''EC35'', ''EC45'', ''EC55'', ''EC75'', ''H120'', ''H125'',
     ''H130'', ''H135'', ''H145'', ''H155'', ''H160'', ''H175'', ''AS32'', ''AS3B'',
     ''AS50'', ''AS55'', ''AS65'', ''GAZL'', ''PUMA'', ''B06'', ''B06T'', ''B212'',
     ''B222'', ''B230'', ''B407'', ''B412'', ''B427'', ''B429'', ''B430'', ''B505'',
     ''B47G'', ''S61'', ''S64'', ''S70'', ''S76'', ''S92'', ''H60'', ''A109'', ''A119'',
     ''A139'', ''A169'', ''A189'', ''LYNX'', ''NH90'', ''AH64'', ''H47'', ''R22'', ''R44'',
     ''R66'', ''H500'', ''H600'', ''EXPL'', ''EN28'', ''MI8'', ''MI17'', ''MI24'',
     ''S269'', ''S300'', ''CABR'']"

definition LIGHT_AIRCRAFT_TYPE_CODES :: "string list" where
  "LIGHT_AIRCRAFT_TYPE_CODES = [''C150'', ''C152'', ''C162'', ''C170'', ''C172'', ''C175'', ''C177'', ''C180'', ''C182'',
     ''C185'', ''C206'', ''C210'', ''C72R'', ''C77R'', ''P28A'', ''P28B'', ''P28R'',
     ''P28T'', ''PA18'', ''PA24'', ''PA32'', ''PA34'', ''BE23'', ''BE33'', ''BE35'',
     ''BE36'', ''BE55'', ''BE58'', ''SR20'', ''SR22'', ''DA20'', ''DA40'', ''DA42'',
     ''DA62'', ''M20P'', ''M20T'', ''AA5'', ''TOBA'', ''DR40'', ''GLAS'', ''RV7'', ''RV8'']"

definition BUSINESS_JET_TYPE_CODES :: "string list" where
  "BUSINESS_JET_TYPE_CODES = [''GLF4'', ''GLF5'', ''GLF6'', ''GL5T'', ''GL7T'', ''GLEX'', ''G280'', ''GALX'', ''C25A'',
     ''C25B'', ''C25C'', ''C500'', ''C510'', ''C525'', ''C550'', ''C560'', ''C56X'',
     ''C650'', ''C680'', ''C68A'', ''C700'', ''C750'', ''CL30'', ''CL35'', ''CL60'',
     ''CL64'', ''E50P'', ''E55P'', ''E545'', ''E550'', ''F2TH'', ''F900'', ''F9EX'',
     ''FA7X'', ''FA8X'', ''H25B'', ''H25C'', ''LJ31'', ''LJ35'', ''LJ40'', ''LJ45'',
     ''LJ60'', ''LJ75'', ''PC24'', ''BE40'', ''HDJT'']"

section \<open>The engine\<close>

definition FLAG_SOURCES :: "(string \<times> claim_source) list" where
  "FLAG_SOURCES = [(''mictronics'', Mictronics), (''faa'', Faa)]"

definition TYPE_MISSIONS :: "(string list \<times> mission_category) list" where
  "TYPE_MISSIONS = [(MILITARY_TYPE_CODES, MilitaryMission), (ROTORCRAFT_TYPE_CODES, HelicopterMission),
     (LIGHT_AIRCRAFT_TYPE_CODES, GeneralAviation), (BUSINESS_JET_TYPE_CODES, BusinessAviation)]"

definition MISSION_ICONS :: "(mission_category \<times> icon_category) list" where
  "MISSION_ICONS = [(CommercialPassenger, Airliner), (CargoMission, CargoIcon),
     (BusinessAviation, BusinessJet), (GeneralAviation, LightAircraft), (Training, LightAircraft),
     (HelicopterMission, HelicopterIcon), (LawEnforcementMission, LawEnforcementIcon),
     (GovernmentMission, GovernmentIcon), (MedicalMission, MedicalIcon),
     (FirefightingMission, FirefightingIcon), (MilitaryMission, MilitaryIcon)]"

definition operator_claim :: "operator_match \<Rightarrow> claim" where
  "operator_claim m = \<lparr>clm_source = Heuristic, clm_basis = om_basis m, clm_confidence = om_confidence m,
     clm_detail = ''operator group '' @ og_slug (om_group m) @ '' via '' @ [CHR 0x27] @ om_matched m @ [CHR 0x27]\<rparr>"

text \<open>\<^verbatim>\<open>max\<close> with a key: the first of the largest.\<close>

fun first_max :: "('a \<Rightarrow> nat) \<Rightarrow> 'a \<Rightarrow> 'a list \<Rightarrow> 'a" where
  "first_max f best [] = best"
| "first_max f best (x # xs) = first_max f (if f best < f x then x else best) xs"

definition strongest :: "claim list \<Rightarrow> claim option" where
  "strongest claims = (case claims of
      [] \<Rightarrow> None
    | c # cs \<Rightarrow> Some (first_max (\<lambda>c. CONFIDENCE_ORDER (clm_confidence c)) c cs))"

definition military_claims :: "evidence \<Rightarrow> operator_match option \<Rightarrow> string option \<Rightarrow> claim list" where
  "military_claims e operator type_code =
     (if ev_military_flag e
      then [\<lparr>clm_source = (case map_of FLAG_SOURCES (case ev_military_flag_source e of None \<Rightarrow> '''' | Some s \<Rightarrow> s)
               of None \<Rightarrow> Heuristic | Some s \<Rightarrow> s),
             clm_basis = MilitaryFlag, clm_confidence = High,
             clm_detail = (case ev_military_flag_source e of None \<Rightarrow> ''metadata''
                | Some s \<Rightarrow> if s = '''' then ''metadata'' else s) @ '' military flag''\<rparr>]
      else []) @
     (case operator of Some m \<Rightarrow> if og_military (om_group m) then [operator_claim m] else [] | None \<Rightarrow> []) @
     (case type_code of
        Some t \<Rightarrow> if t \<in> set MILITARY_TYPE_CODES
          then [\<lparr>clm_source = Heuristic, clm_basis = TypeCode, clm_confidence = Medium,
                 clm_detail = ''type '' @ t @ '' has no civil operation''\<rparr>]
          else []
      | None \<Rightarrow> [])"

definition settle :: "(mission_category \<times> claim) list \<Rightarrow> mission_category \<times> claim option" where
  "settle candidates =
     (let best = Max (set (map (\<lambda>c. CONFIDENCE_ORDER (clm_confidence (snd c))) candidates));
          strong = filter (\<lambda>c. CONFIDENCE_ORDER (clm_confidence (snd c)) = best) candidates
      in if 1 < length (remdups (map fst strong)) then (UnknownMission, None)
         else (fst (hd strong), Some (snd (hd strong))))"

definition asserted_missions :: "claim option \<Rightarrow> operator_match option \<Rightarrow> (mission_category \<times> claim) list" where
  "asserted_missions military operator =
     (case military of Some c \<Rightarrow> [(MilitaryMission, c)] | None \<Rightarrow> []) @
     (case operator of
        Some m \<Rightarrow> if og_mission (om_group m) \<noteq> UnknownMission then [(og_mission (om_group m), operator_claim m)] else []
      | None \<Rightarrow> [])"

definition inferred_missions :: "operator_match option \<Rightarrow> string option \<Rightarrow> (mission_category \<times> claim) list" where
  "inferred_missions callsign type_code =
     (case type_code of
        None \<Rightarrow> []
      | Some t \<Rightarrow> (case find (\<lambda>(codes, category). t \<in> set codes) TYPE_MISSIONS of
            None \<Rightarrow> []
          | Some (codes, category) \<Rightarrow> [(category, \<lparr>clm_source = Heuristic, clm_basis = TypeCode,
              clm_confidence = Medium, clm_detail = ''type '' @ t\<rparr>)])) @
     (case callsign of
        Some m \<Rightarrow> if og_mission (om_group m) \<noteq> UnknownMission then [(og_mission (om_group m), operator_claim m)] else []
      | None \<Rightarrow> [])"

definition resolve_mission :: "claim option \<Rightarrow> operator_match option \<Rightarrow> operator_match option \<Rightarrow> string option
    \<Rightarrow> mission_category \<times> claim option" where
  "resolve_mission military operator callsign type_code =
     (if asserted_missions military operator \<noteq> [] then settle (asserted_missions military operator)
      else if inferred_missions callsign type_code \<noteq> [] then settle (inferred_missions callsign type_code)
      else (UnknownMission, None))"

definition icon_category_for :: "mission_category \<Rightarrow> bool \<Rightarrow> string option \<Rightarrow> icon_category" where
  "icon_category_for mission military type_code =
     (let is_type = (\<lambda>codes. \<exists>t \<in> set_option type_code. t \<in> set codes)
      in if is_type ROTORCRAFT_TYPE_CODES \<or> mission = HelicopterMission then HelicopterIcon
         else if military then
           (if is_type MILITARY_TRANSPORT_TYPE_CODES then MilitaryTransport
            else if is_type MILITARY_TYPE_CODES then MilitaryJet
            else MilitaryIcon)
         else case map_of MISSION_ICONS mission of None \<Rightarrow> UnknownIcon | Some i \<Rightarrow> i)"

definition classify_matched :: "evidence \<Rightarrow> operator_match option \<Rightarrow> operator_match option \<Rightarrow> classification result" where
  "classify_matched e operator callsign =
     (let type_code = ev_type_code e;
          military = strongest (military_claims e operator type_code);
          government = (case operator of Some m \<Rightarrow> if og_government (om_group m) then Some (operator_claim m) else None | None \<Rightarrow> None);
          law_enforcement = (case operator of Some m \<Rightarrow> if og_law_enforcement (om_group m) then Some (operator_claim m) else None | None \<Rightarrow> None);
          (mission, mission_claim) = resolve_mission military operator callsign type_code
      in make_classification
           \<lparr>cl_military = military \<noteq> None, cl_military_claim = military,
            cl_government = government \<noteq> None, cl_government_claim = government,
            cl_law_enforcement = law_enforcement \<noteq> None, cl_law_enforcement_claim = law_enforcement,
            cl_mission = mission, cl_mission_claim = mission_claim,
            cl_icon_category = icon_category_for mission (military \<noteq> None) type_code\<rparr>)"

definition classify :: "operator_directory \<Rightarrow> evidence \<Rightarrow> classification result" where
  "classify d e =
     bindE (directory_match d (ev_operator_name e)) (\<lambda>operator.
     bindE (match_callsign d (ev_callsign e)) (\<lambda>callsign.
       classify_matched e operator callsign))"

section \<open>Lemmas\<close>

lemma first_max_spec:
  "first_max f best xs \<in> insert best (set xs) \<and> f best \<le> f (first_max f best xs) \<and>
     (\<forall>x \<in> set xs. f x \<le> f (first_max f best xs))"
  by (induction xs arbitrary: best) (auto, (metis le_trans less_imp_le insert_iff not_less)+)

lemma strongest_None: "strongest claims = None \<longleftrightarrow> claims = []"
  by (simp add: strongest_def split: list.splits)

lemma strongest_Some:
  "strongest claims = Some c \<Longrightarrow> c \<in> set claims \<and>
     (\<forall>d \<in> set claims. CONFIDENCE_ORDER (clm_confidence d) \<le> CONFIDENCE_ORDER (clm_confidence c))"
  using first_max_spec [of "\<lambda>c. CONFIDENCE_ORDER (clm_confidence c)" "hd claims" "tl claims"]
  by (auto simp: strongest_def split: list.splits)

text \<open>The strongest candidates of a tier.\<close>

definition strongest_missions :: "(mission_category \<times> claim) list \<Rightarrow> (mission_category \<times> claim) set" where
  "strongest_missions tier = {x \<in> set tier. \<forall>y \<in> set tier.
     CONFIDENCE_ORDER (clm_confidence (snd y)) \<le> CONFIDENCE_ORDER (clm_confidence (snd x))}"

lemma strong_candidates:
  assumes "tier \<noteq> []"
  defines "best \<equiv> Max (set (map (\<lambda>c. CONFIDENCE_ORDER (clm_confidence (snd c))) tier))"
  defines "strong \<equiv> filter (\<lambda>c. CONFIDENCE_ORDER (clm_confidence (snd c)) = best) tier"
  shows "set strong = strongest_missions tier" "strong \<noteq> []"
proof -
  have "best \<in> (\<lambda>c. CONFIDENCE_ORDER (clm_confidence (snd c))) ` set tier"
    using assms(1) Max_in [of "set (map (\<lambda>c. CONFIDENCE_ORDER (clm_confidence (snd c))) tier)"]
    by (simp add: best_def)
  moreover have "CONFIDENCE_ORDER (clm_confidence (snd x)) \<le> best" if "x \<in> set tier" for x
    using that by (simp add: best_def)
  ultimately show "set strong = strongest_missions tier" "strong \<noteq> []"
    by (auto simp: strong_def strongest_missions_def filter_empty_conv intro: antisym)
qed

lemma settle_agree:
  assumes "tier \<noteq> []" "\<And>x. x \<in> strongest_missions tier \<Longrightarrow> fst x = m"
  shows "\<exists>c. settle tier = (m, Some c) \<and> (m, c) \<in> strongest_missions tier"
proof -
  note strong = strong_candidates [OF assms(1)]
  have one: "remdups (map fst ts) = [m]" if "ts \<noteq> []" "\<forall>x \<in> set ts. fst x = m" for ts :: "(mission_category \<times> claim) list"
    using that
  proof (induction ts rule: list_nonempty_induct)
    case (cons x xs)
    then have "m \<in> fst ` set xs" by (cases xs) auto
    with cons show ?case by simp
  qed simp
  let ?strong = "filter (\<lambda>c. CONFIDENCE_ORDER (clm_confidence (snd c)) =
      Max (set (map (\<lambda>c. CONFIDENCE_ORDER (clm_confidence (snd c))) tier))) tier"
  have "hd ?strong \<in> strongest_missions tier" using strong by (metis list.set_sel(1))
  then have "fst (hd ?strong) = m" using assms(2) by blast
  moreover have "remdups (map fst ?strong) = [m]"
    using strong assms(2) by (intro one) auto
  ultimately have "settle tier = (m, Some (snd (hd ?strong)))"
    unfolding settle_def Let_def by (simp only: list.size) simp
  with \<open>hd ?strong \<in> strongest_missions tier\<close> \<open>fst (hd ?strong) = m\<close> show ?thesis
    by (metis prod.collapse)
qed

lemma settle_disagree:
  assumes "x \<in> strongest_missions tier" "y \<in> strongest_missions tier" "fst x \<noteq> fst y"
  shows "settle tier = (UnknownMission, None)"
proof -
  have ne: "tier \<noteq> []" using assms(1) by (auto simp: strongest_missions_def)
  let ?strong = "filter (\<lambda>c. CONFIDENCE_ORDER (clm_confidence (snd c)) =
      Max (set (map (\<lambda>c. CONFIDENCE_ORDER (clm_confidence (snd c))) tier))) tier"
  have "{fst x, fst y} \<subseteq> set (remdups (map fst ?strong))"
    using strong_candidates(1) [OF ne] assms by auto
  then have "card {fst x, fst y} \<le> card (set (remdups (map fst ?strong)))"
    by (intro card_mono) auto
  then have "2 \<le> length (remdups (map fst ?strong))"
    using assms(3) by (simp add: length_remdups_card_conv)
  then show ?thesis unfolding settle_def Let_def by (simp only: if_True less_eq_Suc_le numeral_2_eq_2 One_nat_def)
qed

lemma settle_known:
  assumes "tier \<noteq> []" "\<And>x. x \<in> set tier \<Longrightarrow> fst x \<noteq> UnknownMission"
  shows "(fst (settle tier) = UnknownMission) \<noteq> (snd (settle tier) \<noteq> None)"
proof (cases "\<exists>m. \<forall>x \<in> strongest_missions tier. fst x = m")
  case True
  then obtain m where m: "\<And>x. x \<in> strongest_missions tier \<Longrightarrow> fst x = m" by blast
  from settle_agree [OF assms(1) m] obtain c where "settle tier = (m, Some c)" "(m, c) \<in> set tier"
    by (auto simp: strongest_missions_def)
  with assms(2) show ?thesis by fastforce
next
  case False
  then obtain x y where "x \<in> strongest_missions tier" "y \<in> strongest_missions tier" "fst x \<noteq> fst y"
    by metis
  then show ?thesis by (simp add: settle_disagree)
qed

lemma TYPE_MISSIONS_known:
  "find (\<lambda>(codes, category). t \<in> set codes) TYPE_MISSIONS = Some (codes, category) \<Longrightarrow> category \<noteq> UnknownMission"
  by (auto simp: TYPE_MISSIONS_def split: if_splits)

lemma tiers_known:
  "x \<in> set (asserted_missions military operator) \<Longrightarrow> fst x \<noteq> UnknownMission"
  "x \<in> set (inferred_missions callsign type_code) \<Longrightarrow> fst x \<noteq> UnknownMission"
  by (auto simp: asserted_missions_def inferred_missions_def dest: TYPE_MISSIONS_known TYPE_MISSIONS_known [OF sym]
      split: option.splits if_splits)

lemma resolve_mission_known:
  "(fst (resolve_mission military operator callsign type_code) = UnknownMission) \<noteq>
     (snd (resolve_mission military operator callsign type_code) \<noteq> None)"
  using settle_known tiers_known by (auto simp: resolve_mission_def)

text \<open>The dataclass check never fails, so the engine is total on matches.\<close>

lemma classify_matched_ok: "\<exists>c. classify_matched e operator callsign = Inr c \<and> classification_ok c"
  using resolve_mission_known [of "strongest (military_claims e operator (ev_type_code e))" operator callsign "ev_type_code e"]
  by (auto simp: classify_matched_def Let_def make_classification_def classification_ok_def split: prod.splits)

lemma classify_matched_Inr:
  assumes "classify_matched e operator callsign = Inr c"
  defines "military \<equiv> strongest (military_claims e operator (ev_type_code e))"
  shows "cl_military_claim c = military" "cl_military c \<longleftrightarrow> military \<noteq> None"
    "cl_government c \<longleftrightarrow> (\<exists>m. operator = Some m \<and> og_government (om_group m))"
    "cl_law_enforcement c \<longleftrightarrow> (\<exists>m. operator = Some m \<and> og_law_enforcement (om_group m))"
    "cl_government_claim c = (if cl_government c then map_option operator_claim operator else None)"
    "cl_law_enforcement_claim c = (if cl_law_enforcement c then map_option operator_claim operator else None)"
    "(cl_mission c, cl_mission_claim c) = resolve_mission military operator callsign (ev_type_code e)"
    "cl_icon_category c = icon_category_for (cl_mission c) (cl_military c) (ev_type_code e)"
  using assms(1)
  by (auto simp: classify_matched_def Let_def make_classification_def military_def
      split: prod.splits if_splits option.splits)

lemma classify_matches:
  assumes "make_directory groups patterns = Inr d"
  obtains operator callsign c where
    "directory_match d (ev_operator_name e) = Inr operator" "match_callsign d (ev_callsign e) = Inr callsign"
    "classify d e = classify_matched e operator callsign" "classify_matched e operator callsign = Inr c"
    "classification_ok c"
proof -
  obtain operator where op: "directory_match d (ev_operator_name e) = Inr operator"
    using directory_answers [OF assms] by blast
  obtain callsign where cs: "match_callsign d (ev_callsign e) = Inr callsign"
    using callsign_answers [OF assms] by blast
  obtain c where "classify_matched e operator callsign = Inr c" "classification_ok c"
    using classify_matched_ok by blast
  with op cs show thesis by (intro that) (simp_all add: classify_def)
qed

definition mission_tier :: "claim option \<Rightarrow> operator_match option \<Rightarrow> operator_match option \<Rightarrow> string option
    \<Rightarrow> (mission_category \<times> claim) list" where
  "mission_tier military operator callsign type_code =
     (if asserted_missions military operator \<noteq> [] then asserted_missions military operator
      else inferred_missions callsign type_code)"

lemma resolve_mission_iff:
  fixes military operator callsign type_code
  assumes "m \<noteq> UnknownMission"
  defines "strong \<equiv> strongest_missions (mission_tier military operator callsign type_code)"
  shows "fst (resolve_mission military operator callsign type_code) = m \<longleftrightarrow>
    mission_tier military operator callsign type_code \<noteq> [] \<and> (\<forall>x \<in> strong. fst x = m)"
proof (cases "mission_tier military operator callsign type_code = []")
  case True
  then show ?thesis using assms(1) by (simp add: resolve_mission_def mission_tier_def split: if_splits)
next
  case False
  let ?tier = "mission_tier military operator callsign type_code"
  have settled: "resolve_mission military operator callsign type_code = settle ?tier"
    using False by (simp add: resolve_mission_def mission_tier_def split: if_splits)
  obtain x where x: "x \<in> strong"
    using strong_candidates [OF False] unfolding strong_def by (metis list.set_intros(1) neq_Nil_conv)
  show ?thesis
  proof (cases "\<forall>y \<in> strong. fst y = fst x")
    case True
    with settle_agree [OF False, of "fst x"] have "fst (settle ?tier) = fst x" by (auto simp: strong_def)
    moreover have "(\<forall>z \<in> strong. fst z = m) \<longleftrightarrow> fst x = m" using True x by metis
    ultimately show ?thesis using False unfolding settled strong_def by simp
  next
    case disagree: False
    then obtain y where y: "y \<in> strong" "fst y \<noteq> fst x" by blast
    have "settle ?tier = (UnknownMission, None)"
      by (rule settle_disagree [of y _ x]) (use x y in \<open>simp_all add: strong_def\<close>)
    moreover have "\<not> (\<forall>z \<in> strong. fst z = m)" using x y by metis
    ultimately show ?thesis using assms(1) unfolding settled by simp
  qed
qed

lemma resolve_mission_claim:
  "snd (resolve_mission military operator callsign type_code) = Some c \<Longrightarrow>
     (fst (resolve_mission military operator callsign type_code), c)
       \<in> strongest_missions (mission_tier military operator callsign type_code)"
proof -
  let ?tier = "mission_tier military operator callsign type_code"
  assume a: "snd (resolve_mission military operator callsign type_code) = Some c"
  then have settled: "resolve_mission military operator callsign type_code = settle ?tier" and ne: "?tier \<noteq> []"
    by (auto simp: resolve_mission_def mission_tier_def split: if_splits)
  show ?thesis
  proof (cases "\<exists>m. \<forall>x \<in> strongest_missions ?tier. fst x = m")
    case True
    then obtain m where "\<And>x. x \<in> strongest_missions ?tier \<Longrightarrow> fst x = m" by blast
    from settle_agree [OF ne this] a show ?thesis unfolding settled by auto
  next
    case False
    then obtain x y where "x \<in> strongest_missions ?tier" "y \<in> strongest_missions ?tier" "fst x \<noteq> fst y" by metis
    then show ?thesis using a unfolding settled by (simp add: settle_disagree)
  qed
qed

section \<open>Properties\<close>

text \<open>
  Property C21. Classification is total and never asserts what it cannot justify: over any directory
  that was built, every evidence yields a classification, the dataclass check accepts it, and each
  flag and the mission carry a claim exactly when they are asserted. The military flag is set exactly
  when a source sets the military bit, the matched group is military, or the type has no civil
  operation, and its claim is one of these with the highest confidence.
\<close>

theorem classification_justified:
  assumes "make_directory groups patterns = Inr d"
  shows "\<exists>c operator. classify d e = Inr c \<and> directory_match d (ev_operator_name e) = Inr operator \<and>
     classification_ok c \<and>
     (cl_military c \<longleftrightarrow> ev_military_flag e \<or> (\<exists>m. operator = Some m \<and> og_military (om_group m)) \<or>
        (\<exists>t. ev_type_code e = Some t \<and> t \<in> set MILITARY_TYPE_CODES)) \<and>
     (\<forall>claim. cl_military_claim c = Some claim \<longrightarrow>
        claim \<in> set (military_claims e operator (ev_type_code e)) \<and>
        (\<forall>other \<in> set (military_claims e operator (ev_type_code e)).
           CONFIDENCE_ORDER (clm_confidence other) \<le> CONFIDENCE_ORDER (clm_confidence claim)))"
proof -
  from classify_matches [OF assms, of e] obtain operator callsign c where
    op: "directory_match d (ev_operator_name e) = Inr operator" and
    c: "classify d e = classify_matched e operator callsign" "classify_matched e operator callsign = Inr c"
    and ok: "classification_ok c" by metis
  note res = classify_matched_Inr [OF c(2)]
  have "strongest (military_claims e operator (ev_type_code e)) \<noteq> None \<longleftrightarrow> ev_military_flag e \<or>
      (\<exists>m. operator = Some m \<and> og_military (om_group m)) \<or>
      (\<exists>t. ev_type_code e = Some t \<and> t \<in> set MILITARY_TYPE_CODES)"
    unfolding strongest_None by (auto simp: military_claims_def split: option.splits)
  with op c ok res(1,2) strongest_Some show ?thesis by metis
qed

text \<open>
  A callsign never sets a flag, and never matters when somebody asserted a mission:
  whatever is transmitted, the three flags and their claims are the same, and when the aircraft is
  known to be military or its operator group states a mission, the whole classification is the same.
\<close>

theorem callsign_sets_no_flag:
  assumes "make_directory groups patterns = Inr d"
    and "classify d e = Inr c" "classify d (e\<lparr>ev_callsign := callsign\<rparr>) = Inr c'"
  shows "cl_military_claim c' = cl_military_claim c \<and> cl_government_claim c' = cl_government_claim c \<and>
     cl_law_enforcement_claim c' = cl_law_enforcement_claim c \<and> cl_military c' = cl_military c \<and>
     cl_government c' = cl_government c \<and> cl_law_enforcement c' = cl_law_enforcement c \<and>
     (cl_military c \<or> (\<exists>m. directory_match d (ev_operator_name e) = Inr (Some m) \<and>
        og_mission (om_group m) \<noteq> UnknownMission) \<longrightarrow> c' = c)"
proof -
  from classify_matches [OF assms(1), of e] obtain operator cs where
    op: "directory_match d (ev_operator_name e) = Inr operator" and
    c: "classify_matched e operator cs = Inr c" using assms(2) by metis
  from classify_matches [OF assms(1), of "e\<lparr>ev_callsign := callsign\<rparr>"] obtain cs' where
    c': "classify_matched (e\<lparr>ev_callsign := callsign\<rparr>) operator cs' = Inr c'"
    using assms(3) op by auto
  have same: "military_claims (e\<lparr>ev_callsign := callsign\<rparr>) operator t = military_claims e operator t" for t
    by (simp add: military_claims_def)
  note one = classify_matched_Inr [OF c] and two = classify_matched_Inr [OF c', simplified, unfolded same]
  have "c' = c" if "cl_military c \<or> (\<exists>m. operator = Some m \<and> og_mission (om_group m) \<noteq> UnknownMission)"
  proof -
    have "asserted_missions (cl_military_claim c) operator \<noteq> []"
      using that one(1,2) by (auto simp: asserted_missions_def split: option.splits)
    then have "(cl_mission c', cl_mission_claim c') = (cl_mission c, cl_mission_claim c)"
      unfolding one(7) two(7) one(1) resolve_mission_def by simp
    then have "cl_mission c' = cl_mission c" "cl_mission_claim c' = cl_mission_claim c" by simp_all
    with one(1-6,8) two(1-6,8) show ?thesis by (intro classification.equality) simp_all
  qed
  with one two op show ?thesis by auto
qed

text \<open>
  Property C35. A conflict yields unknown: the mission is a known category exactly when the tier that
  counts is not empty and all its strongest candidates agree on that category, and its claim is then
  one of them. The tier that counts holds what was asserted, and what is inferred from type and
  callsign only when nothing was asserted.
\<close>

theorem mission_is_what_the_strongest_agree_on:
  assumes "classify_matched e operator callsign = Inr c"
  defines "tier \<equiv> mission_tier (cl_military_claim c) operator callsign (ev_type_code e)"
  shows "(cl_mission c \<noteq> UnknownMission \<longleftrightarrow>
       tier \<noteq> [] \<and> (\<forall>x \<in> strongest_missions tier. \<forall>y \<in> strongest_missions tier. fst x = fst y)) \<and>
     (\<forall>claim. cl_mission_claim c = Some claim \<longrightarrow> (cl_mission c, claim) \<in> strongest_missions tier)"
proof -
  note res = classify_matched_Inr [OF assms(1)]
  have mission: "cl_mission c = fst (resolve_mission (cl_military_claim c) operator callsign (ev_type_code e))"
    "cl_mission_claim c = snd (resolve_mission (cl_military_claim c) operator callsign (ev_type_code e))"
    using res(7) unfolding res(1) by (metis fst_conv snd_conv)+
  have known: "\<exists>x. x \<in> strongest_missions tier" if "tier \<noteq> []"
    using strong_candidates [OF that] by (metis list.set_intros(1) neq_Nil_conv)
  have never: "fst x \<noteq> UnknownMission" if "x \<in> strongest_missions tier" for x
    using that by (auto simp: strongest_missions_def tier_def mission_tier_def dest: tiers_known split: if_splits)
  have "cl_mission c \<noteq> UnknownMission \<longleftrightarrow>
       tier \<noteq> [] \<and> (\<forall>x \<in> strongest_missions tier. \<forall>y \<in> strongest_missions tier. fst x = fst y)"
  proof
    assume "cl_mission c \<noteq> UnknownMission"
    from resolve_mission_iff [OF this, of "cl_military_claim c" operator callsign "ev_type_code e"]
    show "tier \<noteq> [] \<and> (\<forall>x \<in> strongest_missions tier. \<forall>y \<in> strongest_missions tier. fst x = fst y)"
      unfolding mission(1) tier_def by metis
  next
    assume agree: "tier \<noteq> [] \<and> (\<forall>x \<in> strongest_missions tier. \<forall>y \<in> strongest_missions tier. fst x = fst y)"
    with known obtain x where x: "x \<in> strongest_missions tier" by blast
    with resolve_mission_iff [OF never [OF x], of "cl_military_claim c" operator callsign "ev_type_code e"] agree
    have "cl_mission c = fst x" unfolding mission(1) tier_def by blast
    with never [OF x] show "cl_mission c \<noteq> UnknownMission" by simp
  qed
  moreover have "(cl_mission c, claim) \<in> strongest_missions tier" if "cl_mission_claim c = Some claim" for claim
    unfolding mission(1) tier_def using that mission(2) by (intro resolve_mission_claim) simp
  ultimately show ?thesis by blast
qed

text \<open>
  A rotorcraft is drawn as a helicopter whoever operates it, and an airframe nobody
  describes is unknown: without a military bit, a matched operator, a matched callsign and a listed
  type, the answer is the default classification that asserts nothing.
\<close>

theorem rotorcraft_and_unknown:
  assumes "classify_matched e operator callsign = Inr c"
  shows "(\<forall>t. ev_type_code e = Some t \<and> t \<in> set ROTORCRAFT_TYPE_CODES \<longrightarrow> cl_icon_category c = HelicopterIcon) \<and>
     (\<not> ev_military_flag e \<and> operator = None \<and> callsign = None \<and>
        (\<forall>t. ev_type_code e = Some t \<longrightarrow> t \<notin> set MILITARY_TYPE_CODES \<union> set ROTORCRAFT_TYPE_CODES \<union>
           set LIGHT_AIRCRAFT_TYPE_CODES \<union> set BUSINESS_JET_TYPE_CODES) \<longrightarrow>
        c = unknown_classification)"
proof -
  note res = classify_matched_Inr [OF assms]
  have "c = unknown_classification"
    if "\<not> ev_military_flag e" "operator = None" "callsign = None"
      "\<And>t. ev_type_code e = Some t \<Longrightarrow> t \<notin> set MILITARY_TYPE_CODES \<union> set ROTORCRAFT_TYPE_CODES \<union>
           set LIGHT_AIRCRAFT_TYPE_CODES \<union> set BUSINESS_JET_TYPE_CODES"
  proof -
    have "military_claims e operator (ev_type_code e) = []"
      using that(1,2,4) by (auto simp: military_claims_def split: option.splits)
    then have military: "cl_military_claim c = None" using res(1) by (simp add: strongest_def)
    have "inferred_missions callsign (ev_type_code e) = []"
      using that(3,4) by (auto simp: inferred_missions_def TYPE_MISSIONS_def split: option.splits)
    then have mission: "cl_mission c = UnknownMission" "cl_mission_claim c = None"
      using res(7) military that(2) res(1) by (simp_all add: resolve_mission_def asserted_missions_def)
    then have "icon_category_for UnknownMission False (ev_type_code e) = UnknownIcon"
      using that(4) by (auto simp: icon_category_for_def Let_def MISSION_ICONS_def)
    with res(2-6,8) military mission that(2) res(1) show ?thesis
      by (intro classification.equality) (simp_all add: unknown_classification_def)
  qed
  moreover have "cl_icon_category c = HelicopterIcon" if "ev_type_code e = Some t" "t \<in> set ROTORCRAFT_TYPE_CODES" for t
    using that res(8) by (simp add: icon_category_for_def)
  ultimately show ?thesis by blast
qed

text \<open>
  High confidence in the military flag is not reserved to the military bit: without any
  bit, an operator matched by exact name whose group is military gives a military claim of high
  confidence.
\<close>

theorem exact_military_operator_is_high:
  assumes "make_directory groups patterns = Inr d" "g \<in> set groups" "name \<in> set (og_operators g)"
    and "match_key name \<noteq> ''''" "og_military g"
    and "ev_operator_name e = Some name" "\<not> ev_military_flag e" "classify d e = Inr c"
  shows "\<exists>claim. cl_military_claim c = Some claim \<and> clm_confidence claim = High \<and>
     clm_basis claim = OperatorName"
proof -
  obtain m where m: "directory_match d (Some name) = Inr (Some m)" "om_group m = g"
      "om_basis m = OperatorName" "om_confidence m = High"
    using exact_match [OF assms(1-3) refl assms(4)] by fastforce
  from classify_matches [OF assms(1), of e] obtain callsign where
    c: "classify_matched e (Some m) callsign = Inr c" using assms(6,8) m(1) by auto
  let ?claims = "military_claims e (Some m) (ev_type_code e)"
  have in_claims: "operator_claim m \<in> set ?claims" using assms(5) m(2) by (simp add: military_claims_def)
  then obtain claim where claim: "strongest ?claims = Some claim" using strongest_None by fastforce
  with strongest_Some [OF claim] in_claims have "CONFIDENCE_ORDER High \<le> CONFIDENCE_ORDER (clm_confidence claim)"
    using m(4) by (auto simp: operator_claim_def)
  then have "clm_confidence claim = High" by (cases "clm_confidence claim") simp_all
  moreover from this have "clm_basis claim = OperatorName"
    using strongest_Some [OF claim] assms(7) m(2,3)
    by (auto simp: military_claims_def operator_claim_def split: option.splits if_splits)
  ultimately show ?thesis using classify_matched_Inr(1) [OF c] claim by auto
qed

section \<open>Witnesses\<close>

definition police_helicopter :: evidence where
  "police_helicopter = \<lparr>ev_icao24 = ''400000'', ev_military_flag = False, ev_military_flag_source = None,
     ev_operator_name = Some ''Kent County Sheriff'', ev_type_code = Some ''EC35'', ev_registration = None,
     ev_callsign = Some ''DAL123''\<rparr>"

definition classified :: "evidence \<Rightarrow> classification" where
  "classified e = projr (classify sample_directory e)"

lemma classified: "classify sample_directory e = Inr (classified e)"
  using classify_matches [OF sample_built, of e] unfolding classified_def by (metis sum.sel(2))

theorem classification_justified_witness:
  "\<exists>c. classify sample_directory police_helicopter = Inr c \<and> classification_ok c"
  using classification_justified [OF sample_built, of police_helicopter] by blast

theorem callsign_sets_no_flag_witness:
  "cl_law_enforcement (classified (police_helicopter\<lparr>ev_callsign := None\<rparr>)) =
     cl_law_enforcement (classified police_helicopter)"
  using callsign_sets_no_flag [OF sample_built classified classified] by blast

definition conflicting :: classification where
  "conflicting = projr (classify_matched (police_helicopter\<lparr>ev_military_flag := True\<rparr>) None None)"

lemma conflicting: "classify_matched (police_helicopter\<lparr>ev_military_flag := True\<rparr>) None None = Inr conflicting"
  using classify_matched_ok [of "police_helicopter\<lparr>ev_military_flag := True\<rparr>" None None]
  unfolding conflicting_def by auto

theorem mission_is_what_the_strongest_agree_on_witness: "cl_mission conflicting \<noteq> UnknownMission"
proof -
  have "cl_military_claim conflicting \<noteq> None"
    using classify_matched_Inr(1) [OF conflicting] strongest_None by (simp add: military_claims_def)
  then show ?thesis
    using mission_is_what_the_strongest_agree_on [OF conflicting]
    by (auto simp: mission_tier_def asserted_missions_def strongest_missions_def)
qed

theorem rotorcraft_and_unknown_witness: "cl_icon_category conflicting = HelicopterIcon"
  using rotorcraft_and_unknown [OF conflicting]
  by (simp add: police_helicopter_def ROTORCRAFT_TYPE_CODES_def)

theorem exact_military_operator_is_high_witness:
  "\<exists>claim. cl_military_claim (classified (police_helicopter\<lparr>ev_operator_name := Some ''United States Air Force''\<rparr>))
     = Some claim \<and> clm_confidence claim = High"
proof -
  have "sample_groups ! 2 \<in> set sample_groups" "''United States Air Force'' \<in> set (og_operators (sample_groups ! 2))"
    "og_military (sample_groups ! 2)" "match_key ''United States Air Force'' \<noteq> ''''"
    by (simp add: sample_groups_def, simp add: sample_groups_def, simp add: sample_groups_def, code_simp)
  from exact_military_operator_is_high [OF sample_built this(1,2,4,3) _ _ classified,
      of "police_helicopter\<lparr>ev_operator_name := Some ''United States Air Force''\<rparr>"] show ?thesis
    by (auto simp: police_helicopter_def)
qed

end
