(* ===== verification/AlertModel.thy ===== *)
theory AlertModel
  imports AlertArea Classify LiveAircraft SightingVocab
begin

text \<open>
  \<^verbatim>\<open>alerts/vocabulary.py\<close> and \<^verbatim>\<open>alerts/model.py\<close>: the severity ladder, the keys of the
  built-in emergency detector, the conditions document of a rule with its validation and its upgrade
  from version 1, identity globs, and what a rule is evaluated against. Reading a JSON object into typed
  fields is the work of pydantic and is a parameter \<open>typed_fields\<close> wherever a document is parsed; the
  checks the models declare are written out. Wording of phrases is not modelled: a phrase is a value
  that names the condition it is about. A match key is a value, not the string \<^verbatim>\<open>rule:7\<close>.
\<close>

section \<open>Severities and emergency keys\<close>

datatype alert_severity = InfoSev | InterestingSev | HighSev | CriticalSev

fun severity_rank :: "alert_severity \<Rightarrow> nat" where
  "severity_rank InfoSev = 0"
| "severity_rank InterestingSev = 1"
| "severity_rank HighSev = 2"
| "severity_rank CriticalSev = 3"

definition outranks :: "alert_severity \<Rightarrow> alert_severity option \<Rightarrow> bool" where
  "outranks s other = (case other of None \<Rightarrow> True | Some t \<Rightarrow> severity_rank t < severity_rank s)"

fun severity_value :: "alert_severity \<Rightarrow> string" where
  "severity_value InfoSev = ''info''"
| "severity_value InterestingSev = ''interesting''"
| "severity_value HighSev = ''high''"
| "severity_value CriticalSev = ''critical''"

instantiation alert_severity :: linorder
begin

definition "s \<le> t \<longleftrightarrow> severity_rank s \<le> severity_rank t"
definition "s < t \<longleftrightarrow> severity_rank s < severity_rank t"

instance
proof
  fix s t :: alert_severity
  assume "s \<le> t" "t \<le> s"
  then show "s = t" unfolding less_eq_alert_severity_def by (cases s; cases t) simp_all
qed (auto simp: less_eq_alert_severity_def less_alert_severity_def)

end

definition EMERGENCY_MEANINGS :: "(string \<times> string) list" where
  "EMERGENCY_MEANINGS = [(''7500'', ''unlawful interference''), (''7600'', ''radio failure''),
     (''7700'', ''general emergency'')]"

definition DECODER_EMERGENCY_MEANINGS :: "(string \<times> string) list" where
  "DECODER_EMERGENCY_MEANINGS = [(''general'', ''general emergency''),
     (''lifeguard'', ''lifeguard / medical''), (''minfuel'', ''minimum fuel''), (''nordo'', ''no radio''),
     (''unlawful'', ''unlawful interference''), (''downed'', ''downed aircraft'')]"

definition SQUAWK_FOR_KIND :: "(string \<times> string) list" where
  "SQUAWK_FOR_KIND = [(''unlawful'', ''7500''), (''nordo'', ''7600''), (''general'', ''7700'')]"

definition EMERGENCY_BUILTIN_PREFIX :: string where "EMERGENCY_BUILTIN_PREFIX = ''emergency_''"

definition emergency_builtin_key :: "string \<Rightarrow> string" where
  "emergency_builtin_key squawk = EMERGENCY_BUILTIN_PREFIX @ squawk"

definition emergency_kind_builtin_key :: "string \<Rightarrow> string" where
  "emergency_kind_builtin_key kind =
     emergency_builtin_key (case map_of SQUAWK_FOR_KIND kind of Some squawk \<Rightarrow> squawk | None \<Rightarrow> kind)"

definition EMERGENCY_BUILTIN_KEYS :: "string list" where
  "EMERGENCY_BUILTIN_KEYS = sort (remdups
     (map (\<lambda>(code, _). EMERGENCY_BUILTIN_PREFIX @ code) EMERGENCY_MEANINGS @
      map (\<lambda>(kind, _). EMERGENCY_BUILTIN_PREFIX @ kind)
        (filter (\<lambda>(kind, _). map_of SQUAWK_FOR_KIND kind = None) DECODER_EMERGENCY_MEANINGS)))"

definition EMERGENCY_SEVERITY :: alert_severity where "EMERGENCY_SEVERITY = CriticalSev"

section \<open>Identity globs\<close>

text \<open>
  The pattern the code compiles: \<^verbatim>\<open>.*\<close>, \<^verbatim>\<open>.\<close> or one literal character, case
  ignored and dot matching every character; a second \<^verbatim>\<open>.*\<close> in a row is dropped.
\<close>

datatype glob_part = AnyRun | AnyOne | Literal char

fun compile_parts :: "string \<Rightarrow> glob_part list \<Rightarrow> glob_part list" where
  "compile_parts [] parts = parts"
| "compile_parts (c # cs) parts =
     (if c = CHR ''*'' then
        (if parts = [] \<or> last parts \<noteq> AnyRun then compile_parts cs (parts @ [AnyRun])
         else compile_parts cs parts)
      else if c = CHR ''?'' then compile_parts cs (parts @ [AnyOne])
      else compile_parts cs (parts @ [Literal c]))"

definition compile_glob :: "string \<Rightarrow> glob_part list" where
  "compile_glob pattern = compile_parts pattern []"

fun fullmatch :: "glob_part list \<Rightarrow> string \<Rightarrow> bool" where
  "fullmatch [] s \<longleftrightarrow> s = []"
| "fullmatch (AnyRun # ps) [] \<longleftrightarrow> fullmatch ps []"
| "fullmatch (AnyRun # ps) (c # s) \<longleftrightarrow> fullmatch ps (c # s) \<or> fullmatch (AnyRun # ps) s"
| "fullmatch (AnyOne # ps) [] \<longleftrightarrow> False"
| "fullmatch (AnyOne # ps) (c # s) \<longleftrightarrow> fullmatch ps s"
| "fullmatch (Literal d # ps) [] \<longleftrightarrow> False"
| "fullmatch (Literal d # ps) (c # s) \<longleftrightarrow> same_letter c d \<and> fullmatch ps s"

section \<open>The conditions document\<close>

definition CONDITIONS_VERSION :: int where "CONDITIONS_VERSION = 2"
definition V2_CONDITION_KEYS :: "string list" where
  "V2_CONDITION_KEYS = [''squawk_in'', ''callsign_glob'', ''registration_glob'', ''min_ground_speed_kt'',
     ''max_ground_speed_kt'', ''min_vertical_rate_fpm'', ''max_vertical_rate_fpm'',
     ''emitter_category_in'', ''within_area'']"
definition MAX_SQUAWK_CODES :: nat where "MAX_SQUAWK_CODES = 16"
definition MAX_EMITTER_CATEGORIES :: nat where "MAX_EMITTER_CATEGORIES = 32"
definition MAX_GLOB_LENGTH :: nat where "MAX_GLOB_LENGTH = 32"
definition RULE_MAX_GROUND_SPEED_KT :: real where "RULE_MAX_GROUND_SPEED_KT = 2000"
definition RULE_MAX_VERTICAL_RATE_FPM :: real where "RULE_MAX_VERTICAL_RATE_FPM = 20000"
definition MAX_RARITY_THRESHOLD :: int where "MAX_RARITY_THRESHOLD = 1000"
definition RULE_MAX_DISTANCE_NM :: real where "RULE_MAX_DISTANCE_NM = 10000"
definition RULE_MIN_ALTITUDE_FT :: real where "RULE_MIN_ALTITUDE_FT = - 2000"
definition RULE_MAX_ALTITUDE_FT :: real where "RULE_MAX_ALTITUDE_FT = 100000"

record classification_condition =
  cc_military :: bool
  cc_government :: bool
  cc_law_enforcement :: bool
  cc_mission :: "mission_category option"

record rule_conditions =
  rc_classification :: "classification_condition option"
  rc_type_code :: "string option"
  rc_model :: "string option"
  rc_watchlist_id :: "int option"
  rc_watchlist_any :: bool
  rc_rare_aircraft :: "int option"
  rc_rare_type :: "int option"
  rc_max_distance_nm :: "real option"
  rc_min_distance_nm :: "real option"
  rc_max_alt_ft :: "real option"
  rc_min_alt_ft :: "real option"
  rc_applies_on_ground :: bool
  rc_squawk_in :: "string list option"
  rc_callsign_glob :: "string option"
  rc_registration_glob :: "string option"
  rc_min_ground_speed_kt :: "real option"
  rc_max_ground_speed_kt :: "real option"
  rc_min_vertical_rate_fpm :: "real option"
  rc_max_vertical_rate_fpm :: "real option"
  rc_emitter_category_in :: "string list option"
  rc_within_area :: "vertex list list option"

text \<open>\<^verbatim>\<open>_upgrade\<close>, before any field is read.\<close>

definition upgrade :: "entry \<Rightarrow> entry result" where
  "upgrade data =
     (if map_of data ''version'' = Some (JInt 1)
      then if list_ex (\<lambda>key. map_of data key \<noteq> None) V2_CONDITION_KEYS then Inl ValueError
           else Inr (AList.update ''version'' (JInt CONDITIONS_VERSION) data)
      else Inr data)"

definition asserts_something :: "classification_condition \<Rightarrow> bool" where
  "asserts_something c \<longleftrightarrow>
     (cc_military c \<or> cc_government c \<or> cc_law_enforcement c \<or> cc_mission c \<noteq> None) \<and>
     cc_mission c \<noteq> Some UnknownMission"

text \<open>The constraints of the fields: lengths, bounds and patterns.\<close>

definition between :: "'a::linorder \<Rightarrow> 'a \<Rightarrow> 'a \<Rightarrow> bool" where
  "between low high x \<longleftrightarrow> low \<le> x \<and> x \<le> high"

definition octal_digit :: "char \<Rightarrow> bool" where
  "octal_digit c = (let n = (of_char c :: nat) in 48 \<le> n \<and> n \<le> 55)"

definition squawk_code :: "string \<Rightarrow> bool" where
  "squawk_code s \<longleftrightarrow> length s = 4 \<and> list_all octal_digit s"

definition emitter_code :: "string \<Rightarrow> bool" where
  "emitter_code s = (case s of
      [a, b] \<Rightarrow> between 65 68 (of_char a :: nat) \<and> octal_digit b
    | _ \<Rightarrow> False)"

definition white_space :: "char \<Rightarrow> bool" where
  "white_space c = (let n = (of_char c :: nat) in 9 \<le> n \<and> n \<le> 13 \<or> n = 32 \<or> n = 133 \<or> n = 160)"

definition identity_glob :: "string \<Rightarrow> bool" where
  "identity_glob s \<longleftrightarrow> between 1 MAX_GLOB_LENGTH (length s) \<and> list_all (\<lambda>c. \<not> white_space c) s"

definition field_bounds :: "rule_conditions \<Rightarrow> bool" where
  "field_bounds c \<longleftrightarrow>
     opt_all (\<lambda>s. between 1 16 (length s)) (rc_type_code c) \<and>
     opt_all (\<lambda>s. between 1 120 (length s)) (rc_model c) \<and>
     opt_all (\<lambda>i. 1 \<le> i) (rc_watchlist_id c) \<and>
     opt_all (between 1 MAX_RARITY_THRESHOLD) (rc_rare_aircraft c) \<and>
     opt_all (between 1 MAX_RARITY_THRESHOLD) (rc_rare_type c) \<and>
     opt_all (\<lambda>d. 0 < d \<and> d \<le> RULE_MAX_DISTANCE_NM) (rc_max_distance_nm c) \<and>
     opt_all (between 0 RULE_MAX_DISTANCE_NM) (rc_min_distance_nm c) \<and>
     opt_all (between RULE_MIN_ALTITUDE_FT RULE_MAX_ALTITUDE_FT) (rc_max_alt_ft c) \<and>
     opt_all (between RULE_MIN_ALTITUDE_FT RULE_MAX_ALTITUDE_FT) (rc_min_alt_ft c) \<and>
     opt_all (\<lambda>ss. between 1 MAX_SQUAWK_CODES (length ss) \<and> list_all squawk_code ss) (rc_squawk_in c) \<and>
     opt_all identity_glob (rc_callsign_glob c) \<and>
     opt_all identity_glob (rc_registration_glob c) \<and>
     opt_all (between 0 RULE_MAX_GROUND_SPEED_KT) (rc_min_ground_speed_kt c) \<and>
     opt_all (\<lambda>v. 0 < v \<and> v \<le> RULE_MAX_GROUND_SPEED_KT) (rc_max_ground_speed_kt c) \<and>
     opt_all (between (- RULE_MAX_VERTICAL_RATE_FPM) RULE_MAX_VERTICAL_RATE_FPM) (rc_min_vertical_rate_fpm c) \<and>
     opt_all (between (- RULE_MAX_VERTICAL_RATE_FPM) RULE_MAX_VERTICAL_RATE_FPM) (rc_max_vertical_rate_fpm c) \<and>
     opt_all (\<lambda>ss. between 1 MAX_EMITTER_CATEGORIES (length ss) \<and> list_all emitter_code ss)
       (rc_emitter_category_in c)"

definition one_valid_ring :: "vertex list list \<Rightarrow> vertex list list result" where
  "one_valid_ring rings = (case rings of
      [ring] \<Rightarrow> bindE (normalize_ring ring) (\<lambda>kept. Inr [kept])
    | _ \<Rightarrow> Inl ValueError)"

definition as_sorted_set :: "string list option \<Rightarrow> string list option" where
  "as_sorted_set values = map_option (\<lambda>vs. sort (remdups vs)) values"

definition extended :: "rule_conditions \<Rightarrow> bool" where
  "extended c \<longleftrightarrow> rc_squawk_in c \<noteq> None \<or> rc_callsign_glob c \<noteq> None \<or> rc_registration_glob c \<noteq> None \<or>
     rc_min_ground_speed_kt c \<noteq> None \<or> rc_max_ground_speed_kt c \<noteq> None \<or>
     rc_min_vertical_rate_fpm c \<noteq> None \<or> rc_max_vertical_rate_fpm c \<noteq> None \<or>
     rc_emitter_category_in c \<noteq> None \<or> rc_within_area c \<noteq> None"

datatype phrase =
    PhClassification classification_condition | PhType string | PhModel string | PhWatchlist int
  | PhAnyWatchlist | PhRareAircraft int | PhRareType int | PhMinDistance real | PhMaxDistance real
  | PhMinAlt real | PhMaxAlt real | PhSquawks "string list" | PhCallsign string | PhRegistration string
  | PhCategories "string list" | PhMinSpeed real | PhMaxSpeed real | PhMinRate real | PhMaxRate real
  | PhArea "vertex list list"

definition say :: "('a \<Rightarrow> phrase) \<Rightarrow> 'a option \<Rightarrow> phrase list" where
  "say f x = (case x of None \<Rightarrow> [] | Some y \<Rightarrow> [f y])"

definition describe :: "rule_conditions \<Rightarrow> phrase list" where
  "describe c =
     say PhClassification (rc_classification c) @ say PhType (rc_type_code c) @ say PhModel (rc_model c) @
     say PhWatchlist (rc_watchlist_id c) @ (if rc_watchlist_any c then [PhAnyWatchlist] else []) @
     say PhRareAircraft (rc_rare_aircraft c) @ say PhRareType (rc_rare_type c) @
     say PhMinDistance (rc_min_distance_nm c) @ say PhMaxDistance (rc_max_distance_nm c) @
     say PhMinAlt (rc_min_alt_ft c) @ say PhMaxAlt (rc_max_alt_ft c) @
     say PhSquawks (rc_squawk_in c) @ say PhCallsign (rc_callsign_glob c) @
     say PhRegistration (rc_registration_glob c) @ say PhCategories (rc_emitter_category_in c) @
     say PhMinSpeed (rc_min_ground_speed_kt c) @ say PhMaxSpeed (rc_max_ground_speed_kt c) @
     say PhMinRate (rc_min_vertical_rate_fpm c) @ say PhMaxRate (rc_max_vertical_rate_fpm c) @
     say PhArea (rc_within_area c)"

definition window_ok :: "real option \<Rightarrow> real option \<Rightarrow> bool" where
  "window_ok low high \<longleftrightarrow> opt_all (\<lambda>l. opt_all (\<lambda>h. l < h) high) low"

definition is_a_rule :: "rule_conditions \<Rightarrow> bool" where
  "is_a_rule c \<longleftrightarrow> describe c \<noteq> [] \<and>
     window_ok (rc_min_distance_nm c) (rc_max_distance_nm c) \<and>
     window_ok (rc_min_alt_ft c) (rc_max_alt_ft c) \<and>
     window_ok (rc_min_ground_speed_kt c) (rc_max_ground_speed_kt c) \<and>
     window_ok (rc_min_vertical_rate_fpm c) (rc_max_vertical_rate_fpm c)"

definition validate_area :: "vertex list list option \<Rightarrow> vertex list list option result" where
  "validate_area area = (case area of
      None \<Rightarrow> Inr None
    | Some rings \<Rightarrow> bindE (one_valid_ring rings) (\<lambda>kept. Inr (Some kept)))"

definition validate_conditions :: "rule_conditions \<Rightarrow> rule_conditions result" where
  "validate_conditions c =
     (if \<not> field_bounds c \<or> \<not> opt_all asserts_something (rc_classification c) then Inl ValueError
      else bindE (validate_area (rc_within_area c)) (\<lambda>area.
        let c' = c\<lparr>rc_squawk_in := as_sorted_set (rc_squawk_in c),
                   rc_emitter_category_in := as_sorted_set (rc_emitter_category_in c),
                   rc_within_area := area\<rparr>
        in if is_a_rule c' then Inr c' else Inl ValueError))"

text \<open>\<^verbatim>\<open>from_json\<close> on the decoded text.\<close>

definition model_validate :: "(entry \<Rightarrow> rule_conditions option) \<Rightarrow> entry \<Rightarrow> rule_conditions result" where
  "model_validate typed_fields data =
     bindE (upgrade data) (\<lambda>upgraded. case typed_fields upgraded of
         None \<Rightarrow> Inl ValueError
       | Some c \<Rightarrow> validate_conditions c)"

definition from_json :: "(entry \<Rightarrow> rule_conditions option) \<Rightarrow> json \<Rightarrow> rule_conditions result" where
  "from_json typed_fields decoded = (case decoded of
      JObj data \<Rightarrow> model_validate typed_fields data
    | _ \<Rightarrow> Inl ValueError)"

section \<open>Rules, subjects and proposals\<close>

record alert_rule =
  ar_id :: int
  ar_name :: string
  ar_severity :: alert_severity
  ar_conditions :: rule_conditions
  ar_description :: "string option"
  ar_enabled :: bool
  ar_template_key :: "string option"
  ar_created_ms :: int
  ar_updated_ms :: int

definition rule_reason :: "alert_rule \<Rightarrow> string" where
  "rule_reason r = ''Rule: '' @ ar_name r"

record extended_conditions =
  xc_squawks :: "string set option"
  xc_categories :: "string set option"
  xc_min_ground_speed_kt :: "real option"
  xc_max_ground_speed_kt :: "real option"
  xc_min_vertical_rate_fpm :: "real option"
  xc_max_vertical_rate_fpm :: "real option"
  xc_callsign :: "glob_part list option"
  xc_registration :: "glob_part list option"
  xc_area :: "compiled_area option"

definition compile_extended :: "rule_conditions \<Rightarrow> extended_conditions option" where
  "compile_extended c =
     (if \<not> extended c then None
      else Some \<lparr>xc_squawks = map_option set (rc_squawk_in c),
        xc_categories = map_option set (rc_emitter_category_in c),
        xc_min_ground_speed_kt = rc_min_ground_speed_kt c, xc_max_ground_speed_kt = rc_max_ground_speed_kt c,
        xc_min_vertical_rate_fpm = rc_min_vertical_rate_fpm c, xc_max_vertical_rate_fpm = rc_max_vertical_rate_fpm c,
        xc_callsign = map_option compile_glob (rc_callsign_glob c),
        xc_registration = map_option compile_glob (rc_registration_glob c),
        xc_area = map_option (\<lambda>rings. from_ring (hd rings)) (rc_within_area c)\<rparr>)"

record compiled_rule =
  cr_rule :: alert_rule
  cr_watchlist_name :: "string option"
  cr_extended :: "extended_conditions option"

definition compile_rule :: "alert_rule \<Rightarrow> string option \<Rightarrow> compiled_rule" where
  "compile_rule r watchlist_name = \<lparr>cr_rule = r, cr_watchlist_name = watchlist_name,
     cr_extended = compile_extended (ar_conditions r)\<rparr>"

definition unresolved_watchlist :: "compiled_rule \<Rightarrow> bool" where
  "unresolved_watchlist r \<longleftrightarrow> rc_watchlist_id (ar_conditions (cr_rule r)) \<noteq> None \<and> cr_watchlist_name r = None"

record alert_subject =
  sj_icao :: string
  sj_at_ms :: int
  sj_sighting_id :: "int option"
  sj_aircraft_id :: "int option"
  sj_squawk :: "string option"
  sj_decoder_emergency :: "string option"
  sj_distance_nm :: "real option"
  sj_altitude_ft :: "real option"
  sj_ground_state :: ground_state
  sj_ground_speed_kt :: "real option"
  sj_vertical_rate_fpm :: "real option"
  sj_emitter_category :: "string option"
  sj_latitude :: "real option"
  sj_longitude :: "real option"
  sj_callsign :: "string option"
  sj_classification :: classification
  sj_type_code :: "string option"
  sj_model :: "string option"
  sj_registration :: "string option"
  sj_watchlists :: "string list"
  sj_sightings_here :: int
  sj_type_aircraft_here :: "int option"
  sj_metadata_resolved :: bool

definition on_ground :: "alert_subject \<Rightarrow> bool" where
  "on_ground s \<longleftrightarrow> sj_ground_state s = OnGround"

datatype match_key = RuleKey int | BuiltinKey string

record match_proposal =
  mp_key :: match_key
  mp_severity :: alert_severity
  mp_reason :: string
  mp_rule_id :: "int option"
  mp_builtin_key :: "string option"
  mp_emergency_source :: "string option"
  mp_emergency_kind :: "string option"

definition is_builtin :: "match_proposal \<Rightarrow> bool" where
  "is_builtin p \<longleftrightarrow> mp_builtin_key p \<noteq> None"

section \<open>Globs\<close>

text \<open>What a glob means, read off the pattern itself.\<close>

fun glob_matches :: "string \<Rightarrow> string \<Rightarrow> bool" where
  "glob_matches [] s \<longleftrightarrow> s = []"
| "glob_matches (p # ps) s \<longleftrightarrow>
     (if p = CHR ''*'' then \<exists>k \<le> length s. glob_matches ps (drop k s)
      else s \<noteq> [] \<and> (p = CHR ''?'' \<or> same_letter (hd s) p) \<and> glob_matches ps (tl s))"

lemma fullmatch_run: "fullmatch (AnyRun # ps) s \<longleftrightarrow> (\<exists>k \<le> length s. fullmatch ps (drop k s))"
proof (induction s)
  case (Cons c s)
  have "(\<exists>k \<le> length (c # s). fullmatch ps (drop k (c # s))) \<longleftrightarrow>
      fullmatch ps (c # s) \<or> (\<exists>k \<le> length s. fullmatch ps (drop k s))"
    by (metis Suc_le_mono drop0 drop_Suc_Cons le0 length_Cons not0_implies_Suc)
  with Cons show ?case by simp
qed simp

lemma fullmatch_one:
  "fullmatch (AnyOne # ps) s \<longleftrightarrow> s \<noteq> [] \<and> fullmatch ps (tl s)"
  "fullmatch (Literal d # ps) s \<longleftrightarrow> s \<noteq> [] \<and> same_letter (hd s) d \<and> fullmatch ps (tl s)"
  by (cases s; simp)+

lemma fullmatch_runs: "fullmatch (AnyRun # AnyRun # ps) s \<longleftrightarrow> fullmatch (AnyRun # ps) s"
proof -
  have "(\<exists>k \<le> length s. \<exists>j \<le> length (drop k s). fullmatch ps (drop j (drop k s))) \<longleftrightarrow>
      (\<exists>k \<le> length s. fullmatch ps (drop k s))"
    by (metis add.commute drop0 drop_drop le0 le_add_diff_inverse2 length_drop nat_add_left_cancel_le add_le_mono1)
  then show ?thesis by (simp only: fullmatch_run)
qed

lemma fullmatch_cong: "(\<And>s. fullmatch xs s = fullmatch ys s) \<Longrightarrow> fullmatch (ps @ xs) s = fullmatch (ps @ ys) s"
proof (induction ps arbitrary: s)
  case (Cons p ps)
  then show ?case by (cases p) (simp_all add: fullmatch_run fullmatch_one)
qed simp

definition glob_part_of :: "char \<Rightarrow> glob_part" where
  "glob_part_of c = (if c = CHR ''*'' then AnyRun else if c = CHR ''?'' then AnyOne else Literal c)"

lemma compile_parts_match:
  "fullmatch (compile_parts cs parts) s = fullmatch (parts @ map glob_part_of cs) s"
proof (induction cs parts arbitrary: s rule: compile_parts.induct)
  case (2 c cs parts)
  show ?case
  proof (cases "c = CHR ''*'' \<and> parts \<noteq> [] \<and> last parts = AnyRun")
    case True
    then obtain ps where ps: "parts = ps @ [AnyRun]" by (metis append_butlast_last_id)
    have "fullmatch (ps @ AnyRun # map glob_part_of cs) s = fullmatch (ps @ AnyRun # AnyRun # map glob_part_of cs) s"
      by (rule fullmatch_cong) (simp only: fullmatch_runs)
    moreover have "fullmatch (compile_parts cs parts) s = fullmatch (ps @ AnyRun # map glob_part_of cs) s"
      using 2 True ps by auto
    ultimately show ?thesis using True by (simp add: ps) (simp add: glob_part_of_def [of "CHR ''*''"])
  next
    case False
    with 2 show ?thesis by (auto simp: glob_part_of_def [of c])
  qed
qed simp

lemma glob_part_match: "fullmatch (map glob_part_of p) s = glob_matches p s"
  by (induction p arbitrary: s) (auto simp: glob_part_of_def fullmatch_run fullmatch_one)

lemma compile_glob_matches: "fullmatch (compile_glob p) s = glob_matches p s"
  unfolding compile_glob_def compile_parts_match by (simp add: glob_part_match)

lemma compile_parts_runs:
  "\<nexists>xs ys. parts = xs @ [AnyRun, AnyRun] @ ys \<Longrightarrow> \<nexists>xs ys. compile_parts cs parts = xs @ [AnyRun, AnyRun] @ ys"
proof (induction cs parts rule: compile_parts.induct)
  case (2 c cs parts)
  have snoc: "\<nexists>xs ys. parts @ [p] = xs @ [AnyRun, AnyRun] @ ys"
    if "p \<noteq> AnyRun \<or> parts = [] \<or> last parts \<noteq> AnyRun" for p
  proof
    assume "\<exists>xs ys. parts @ [p] = xs @ [AnyRun, AnyRun] @ ys"
    then obtain xs ys where split: "parts @ [p] = xs @ [AnyRun, AnyRun] @ ys" by blast
    then show False
    proof (cases ys rule: rev_cases)
      case Nil
      with split have "parts = xs @ [AnyRun]" "p = AnyRun" by (metis append_Cons append_Nil append_assoc append1_eq_conv)+
      with that show False by simp
    next
      case (snoc zs z)
      with split have "parts = xs @ [AnyRun, AnyRun] @ zs" by (metis append_assoc append1_eq_conv)
      with "2.prems" show False by blast
    qed
  qed
  with 2 show ?case by auto
qed simp

section \<open>Validation\<close>

lemma as_sorted_set_idem [simp]: "as_sorted_set (as_sorted_set vs) = as_sorted_set vs"
  by (cases vs) (simp_all add: as_sorted_set_def distinct_remdups_id sorted_sort_id)

lemma one_valid_ring_fixed: "one_valid_ring rings = Inr kept \<Longrightarrow> one_valid_ring kept = Inr kept"
  using open_ring_closed
  by (auto simp: one_valid_ring_def bindE_Inr_iff normalize_iff split: list.splits)

lemma validate_area_fixed: "validate_area area = Inr kept \<Longrightarrow> validate_area kept = Inr kept"
  using one_valid_ring_fixed by (auto simp: validate_area_def bindE_Inr_iff split: option.splits)

lemma sorted_set_bounds:
  "opt_all (\<lambda>ss. between 1 n (length ss) \<and> list_all P ss) vs \<Longrightarrow>
     opt_all (\<lambda>ss. between 1 n (length ss) \<and> list_all P ss) (as_sorted_set vs)"
proof (cases vs)
  case (Some ss)
  assume a: "opt_all (\<lambda>ss. between 1 n (length ss) \<and> list_all P ss) vs"
  have "length (remdups ss) \<le> length ss" by (rule length_remdups_leq)
  moreover have "sort (remdups ss) \<noteq> [] \<longleftrightarrow> ss \<noteq> []" by (metis length_0_conv length_sort remdups_eq_nil_iff)
  ultimately show ?thesis
    using a by (auto simp: Some as_sorted_set_def between_def list_all_iff Suc_le_eq intro: order_trans)
qed (simp add: as_sorted_set_def)

lemma validate_conditions_Inr:
  assumes "validate_conditions c = Inr c'"
  shows "field_bounds c'" "opt_all asserts_something (rc_classification c')" "is_a_rule c'"
    "validate_area (rc_within_area c') = Inr (rc_within_area c')"
    "as_sorted_set (rc_squawk_in c') = rc_squawk_in c'"
    "as_sorted_set (rc_emitter_category_in c') = rc_emitter_category_in c'"
proof -
  from assms obtain area where bounds: "field_bounds c" "opt_all asserts_something (rc_classification c)"
    and area: "validate_area (rc_within_area c) = Inr area"
    and c': "c' = c\<lparr>rc_squawk_in := as_sorted_set (rc_squawk_in c),
       rc_emitter_category_in := as_sorted_set (rc_emitter_category_in c), rc_within_area := area\<rparr>"
    and rule: "is_a_rule c'"
    by (auto simp: validate_conditions_def bindE_Inr_iff Let_def split: if_splits)
  show "field_bounds c'" using bounds(1) unfolding field_bounds_def c' by (simp add: sorted_set_bounds [unfolded One_nat_def])
  show "opt_all asserts_something (rc_classification c')" "is_a_rule c'"
    "as_sorted_set (rc_squawk_in c') = rc_squawk_in c'"
    "as_sorted_set (rc_emitter_category_in c') = rc_emitter_category_in c'"
    using bounds(2) rule by (simp_all add: c')
  show "validate_area (rc_within_area c') = Inr (rc_within_area c')"
    using validate_area_fixed [OF area] by (simp add: c')
qed

lemma validated_fixed_point:
  assumes "validate_conditions c = Inr c'"
  shows "validate_conditions c' = Inr c'"
proof -
  note v = validate_conditions_Inr [OF assms]
  have "c'\<lparr>rc_squawk_in := rc_squawk_in c', rc_emitter_category_in := rc_emitter_category_in c',
      rc_within_area := rc_within_area c'\<rparr> = c'" by simp
  with v show ?thesis by (simp add: validate_conditions_def)
qed

section \<open>Properties\<close>

text \<open>
  A compiled glob accepts exactly the strings its pattern describes as a whole: a star
  stands for any run, a question mark for one character and every other character for itself in either
  case, so no character of a registration is ever pattern syntax. Collapsing stars changes nothing,
  and the compiled pattern never has two runs in a row.
\<close>

theorem glob_is_whole_string:
  "(fullmatch (compile_glob p) s \<longleftrightarrow> glob_matches p s) \<and>
     (\<nexists>xs ys. compile_glob p = xs @ [AnyRun, AnyRun] @ ys)"
  using compile_glob_matches compile_parts_runs [of "[]" p] by (simp add: compile_glob_def)

text \<open>
  Whatever document is accepted, the conditions it yields pass validation again and come
  out unchanged, so saving a rule and reading it back is a fixed point. They state at least one
  condition, no window is empty, every threshold is within its bounds, and a drawn area is a single
  ring that the ring validation accepts as it is.
\<close>

theorem accepted_conditions_fixed_point:
  assumes "model_validate typed_fields data = Inr c"
  shows "validate_conditions c = Inr c \<and> describe c \<noteq> [] \<and> field_bounds c \<and>
     window_ok (rc_min_distance_nm c) (rc_max_distance_nm c) \<and> window_ok (rc_min_alt_ft c) (rc_max_alt_ft c) \<and>
     window_ok (rc_min_ground_speed_kt c) (rc_max_ground_speed_kt c) \<and>
     window_ok (rc_min_vertical_rate_fpm c) (rc_max_vertical_rate_fpm c) \<and>
     (\<forall>rings. rc_within_area c = Some rings \<longrightarrow> (\<exists>ring. rings = [ring] \<and> normalize_ring ring = Inr ring))"
proof -
  obtain raw where raw: "validate_conditions raw = Inr c"
    using assms by (auto simp: model_validate_def bindE_Inr_iff split: option.splits)
  note v = validate_conditions_Inr [OF raw]
  have "\<exists>ring. rings = [ring] \<and> normalize_ring ring = Inr ring" if "rc_within_area c = Some rings" for rings
    using v(4) that by (auto simp: validate_area_def one_valid_ring_def bindE_Inr_iff split: list.splits)
  with v(1,3) validated_fixed_point [OF raw] show ?thesis by (simp add: is_a_rule_def)
qed

lemma upgrade_one:
  "map_of data ''version'' = Some (JInt 1) \<Longrightarrow> list_all (\<lambda>key. map_of data key = None) V2_CONDITION_KEYS \<Longrightarrow>
     upgrade data = Inr (AList.update ''version'' (JInt CONDITIONS_VERSION) data)"
  by (simp add: upgrade_def list_ex_iff list_all_iff)

lemma upgrade_two: "map_of data ''version'' \<noteq> Some (JInt 1) \<Longrightarrow> upgrade data = Inr data"
  by (simp add: upgrade_def)

text \<open>
  A version 1 document means what it always meant: it is refused when it carries any
  version 2 key, even with a null value, and is otherwise read exactly as the same document marked
  version 2. The conditions it yields have no version 2 part, so their compiled rule has none to
  evaluate. The hypothesis on the field reader says that a key which is absent takes its default.
\<close>

theorem version_one_means_the_same:
  assumes "map_of data ''version'' = Some (JInt 1)"
    and reader: "\<And>d c. typed_fields d = Some c \<Longrightarrow> list_all (\<lambda>key. map_of d key = None) V2_CONDITION_KEYS \<Longrightarrow> \<not> extended c"
  shows "if list_ex (\<lambda>key. map_of data key \<noteq> None) V2_CONDITION_KEYS
     then model_validate typed_fields data = Inl ValueError
     else model_validate typed_fields data = model_validate typed_fields (AList.update ''version'' (JInt 2) data) \<and>
       (\<forall>c. model_validate typed_fields data = Inr c \<longrightarrow> compile_extended c = None)"
proof (cases "list_ex (\<lambda>key. map_of data key \<noteq> None) V2_CONDITION_KEYS")
  case True
  then show ?thesis using assms(1) by (simp add: model_validate_def upgrade_def)
next
  case False
  then have absent: "list_all (\<lambda>key. map_of data key = None) V2_CONDITION_KEYS"
    by (simp add: list_ex_iff list_all_iff)
  let ?two = "AList.update ''version'' (JInt 2) data"
  have "upgrade data = Inr ?two" using upgrade_one [OF assms(1) absent] by (simp add: CONDITIONS_VERSION_def)
  moreover have "upgrade ?two = Inr ?two" by (rule upgrade_two) (simp add: update_conv')
  moreover have absent_two: "list_all (\<lambda>key. map_of ?two key = None) V2_CONDITION_KEYS"
    using absent by (simp add: V2_CONDITION_KEYS_def update_conv')
  moreover have "\<not> extended c" if "typed_fields ?two = Some raw" "validate_conditions raw = Inr c" for raw c
    using reader [OF that(1) absent_two] that(2)
    by (auto simp: validate_conditions_def bindE_Inr_iff Let_def extended_def validate_area_def as_sorted_set_def
        split: if_splits option.splits)
  ultimately show ?thesis
    using False by (auto simp: model_validate_def compile_extended_def split: option.splits)
qed

section \<open>Witnesses\<close>

definition no_conditions :: rule_conditions where
  "no_conditions = \<lparr>rc_classification = None, rc_type_code = None, rc_model = None, rc_watchlist_id = None,
     rc_watchlist_any = False, rc_rare_aircraft = None, rc_rare_type = None, rc_max_distance_nm = None,
     rc_min_distance_nm = None, rc_max_alt_ft = None, rc_min_alt_ft = None, rc_applies_on_ground = False,
     rc_squawk_in = None, rc_callsign_glob = None, rc_registration_glob = None, rc_min_ground_speed_kt = None,
     rc_max_ground_speed_kt = None, rc_min_vertical_rate_fpm = None, rc_max_vertical_rate_fpm = None,
     rc_emitter_category_in = None, rc_within_area = None\<rparr>"

text \<open>A reader of documents that may state a type.\<close>

definition type_reader :: "entry \<Rightarrow> rule_conditions option" where
  "type_reader d = (case map_of d ''type_code'' of
      Some (JStr t) \<Rightarrow> Some (no_conditions\<lparr>rc_type_code := Some t\<rparr>)
    | None \<Rightarrow> Some no_conditions
    | _ \<Rightarrow> None)"

definition type_document :: entry where
  "type_document = [(''version'', JInt 1), (''type_code'', JStr ''C17'')]"

lemma type_document_read:
  "model_validate type_reader type_document = Inr (no_conditions\<lparr>rc_type_code := Some ''C17''\<rparr>)"
  by (simp add: model_validate_def type_document_def upgrade_def V2_CONDITION_KEYS_def type_reader_def
      validate_conditions_def validate_area_def no_conditions_def field_bounds_def between_def
      as_sorted_set_def is_a_rule_def describe_def say_def window_ok_def)

theorem accepted_conditions_fixed_point_witness:
  "validate_conditions (no_conditions\<lparr>rc_type_code := Some ''C17''\<rparr>) = Inr (no_conditions\<lparr>rc_type_code := Some ''C17''\<rparr>)"
  using accepted_conditions_fixed_point [OF type_document_read] by blast

theorem version_one_means_the_same_witness:
  "model_validate type_reader type_document =
     model_validate type_reader (AList.update ''version'' (JInt 2) type_document)"
proof -
  have "\<not> extended c" if "type_reader d = Some c" for d c
    using that by (auto simp: type_reader_def no_conditions_def extended_def split: option.splits json.splits)
  with version_one_means_the_same [of type_document type_reader] show ?thesis
    by (auto simp: type_document_def V2_CONDITION_KEYS_def)
qed

end
