(* ===== verification/AlertTables.thy ===== *)
theory AlertTables
  imports AlertModel
begin

text \<open>
  \<^verbatim>\<open>alerts/repository.py\<close> over the two tables of \<^verbatim>\<open>db/models.py\<close>: rules, and the
  matches with their two partial unique indexes and their foreign keys. A statement that raises rolls
  its transaction back, which is \<open>None\<close>. SQLite gives a new row the number after the largest one in
  use, since the tables have no \<^verbatim>\<open>AUTOINCREMENT\<close>.
\<close>

section \<open>Tables\<close>

record alert_row =
  am_id :: int
  am_rule_id :: "int option"
  am_builtin_key :: "string option"
  am_sighting_id :: int
  am_aircraft_id :: int
  am_matched_ms :: int
  am_severity :: alert_severity
  am_reason :: string
  am_notified :: bool

record new_match =
  nm_sighting_id :: int
  nm_aircraft_id :: int
  nm_matched_ms :: int
  nm_severity :: alert_severity
  nm_reason :: string
  nm_rule_id :: "int option"
  nm_builtin_key :: "string option"

record alert_tables =
  at_rules :: "alert_rule list"
  at_matches :: "alert_row list"
  at_sightings :: "(int \<times> bool) list"
  at_aircraft :: "int list"

definition next_rowid :: "int list \<Rightarrow> int" where
  "next_rowid ids = (if ids = [] then 1 else Max (set ids) + 1)"

section \<open>Rules\<close>

definition create_rule_row :: "string \<Rightarrow> string option \<Rightarrow> alert_severity \<Rightarrow> rule_conditions \<Rightarrow> bool
    \<Rightarrow> string option \<Rightarrow> int \<Rightarrow> alert_tables \<Rightarrow> alert_rule \<times> alert_tables" where
  "create_rule_row name description severity conditions enabled template_key now_ms db =
     (let r = \<lparr>ar_id = next_rowid (map ar_id (at_rules db)), ar_name = name, ar_severity = severity,
        ar_conditions = conditions, ar_description = description, ar_enabled = enabled,
        ar_template_key = template_key, ar_created_ms = now_ms, ar_updated_ms = now_ms\<rparr>
      in (r, db\<lparr>at_rules := at_rules db @ [r]\<rparr>))"

definition update_rule_row :: "int \<Rightarrow> string \<Rightarrow> string option \<Rightarrow> alert_severity \<Rightarrow> rule_conditions \<Rightarrow> bool
    \<Rightarrow> int \<Rightarrow> alert_tables \<Rightarrow> alert_rule option \<times> alert_tables" where
  "update_rule_row rule_id name description severity conditions enabled now_ms db =
     (case find (\<lambda>r. ar_id r = rule_id) (at_rules db) of
        None \<Rightarrow> (None, db)
      | Some row \<Rightarrow>
          (let new = row\<lparr>ar_name := name, ar_description := description, ar_severity := severity,
             ar_enabled := enabled, ar_conditions := conditions, ar_updated_ms := now_ms\<rparr>
           in (Some new, db\<lparr>at_rules := map (\<lambda>r. if ar_id r = rule_id then new else r) (at_rules db)\<rparr>)))"

definition delete_rule_row :: "int \<Rightarrow> alert_tables \<Rightarrow> bool \<times> alert_tables" where
  "delete_rule_row rule_id db =
     (case find (\<lambda>r. ar_id r = rule_id) (at_rules db) of
        None \<Rightarrow> (False, db)
      | Some _ \<Rightarrow> (True, db\<lparr>at_rules := filter (\<lambda>r. ar_id r \<noteq> rule_id) (at_rules db),
          at_matches := filter (\<lambda>m. am_rule_id m \<noteq> Some rule_id) (at_matches db)\<rparr>))"

definition has_template_rules :: "alert_tables \<Rightarrow> bool" where
  "has_template_rules db = list_ex (\<lambda>r. ar_template_key r \<noteq> None) (at_rules db)"

definition template_keys_present :: "alert_tables \<Rightarrow> string set" where
  "template_keys_present db = set (List.map_filter ar_template_key (at_rules db))"

section \<open>Matches\<close>

text \<open>The two partial unique indexes: a null column is not constrained.\<close>

definition conflicts :: "new_match \<Rightarrow> alert_row \<Rightarrow> bool" where
  "conflicts m row \<longleftrightarrow> am_sighting_id row = nm_sighting_id m \<and>
     (nm_rule_id m \<noteq> None \<and> am_rule_id row = nm_rule_id m \<or>
      nm_builtin_key m \<noteq> None \<and> am_builtin_key row = nm_builtin_key m)"

definition keys_exist :: "new_match \<Rightarrow> alert_tables \<Rightarrow> bool" where
  "keys_exist m db \<longleftrightarrow> opt_all (\<lambda>i. i \<in> set (map ar_id (at_rules db))) (nm_rule_id m) \<and>
     nm_sighting_id m \<in> set (map fst (at_sightings db)) \<and> nm_aircraft_id m \<in> set (at_aircraft db)"

definition insert_match :: "new_match \<Rightarrow> alert_tables \<Rightarrow> (int option \<times> alert_tables) option" where
  "insert_match m db =
     (if list_ex (conflicts m) (at_matches db) then Some (None, db)
      else if \<not> keys_exist m db then None
      else let row = \<lparr>am_id = next_rowid (map am_id (at_matches db)), am_rule_id = nm_rule_id m,
             am_builtin_key = nm_builtin_key m, am_sighting_id = nm_sighting_id m,
             am_aircraft_id = nm_aircraft_id m, am_matched_ms = nm_matched_ms m,
             am_severity = nm_severity m, am_reason = nm_reason m, am_notified = False\<rparr>
           in Some (Some (am_id row), db\<lparr>at_matches := at_matches db @ [row]\<rparr>))"

fun record_matches :: "new_match list \<Rightarrow> alert_tables \<Rightarrow> (int option list \<times> alert_tables) option" where
  "record_matches [] db = Some ([], db)"
| "record_matches (m # ms) db = Option.bind (insert_match m db) (\<lambda>(i, db').
     map_option (\<lambda>(is, db''). (i # is, db'')) (record_matches ms db'))"

definition mark_notified :: "int \<Rightarrow> alert_tables \<Rightarrow> bool \<times> alert_tables" where
  "mark_notified match_id db =
     (list_ex (\<lambda>m. am_id m = match_id) (at_matches db),
      db\<lparr>at_matches := map (\<lambda>m. if am_id m = match_id \<and> \<not> am_notified m then m\<lparr>am_notified := True\<rparr> else m)
        (at_matches db)\<rparr>)"

definition row_key :: "alert_row \<Rightarrow> match_key" where
  "row_key m = (case am_rule_id m of Some i \<Rightarrow> RuleKey i | None \<Rightarrow> BuiltinKey (the (am_builtin_key m)))"

definition open_sighting_match_keys :: "alert_tables \<Rightarrow> (int \<times> (match_key \<times> alert_severity) list) list" where
  "open_sighting_match_keys db =
     fold (\<lambda>m keys. let known = (case map_of keys (am_sighting_id m) of None \<Rightarrow> [] | Some ks \<Rightarrow> ks)
             in AList.update (am_sighting_id m) (AList.update (row_key m) (am_severity m) known) keys)
       (filter (\<lambda>m. map_of (at_sightings db) (am_sighting_id m) = Some False) (at_matches db)) []"

section \<open>Invariant\<close>

text \<open>
  Numbers are unique, each row is about a rule or a built-in but not both, and no two rows share a
  sighting and a rule, or a sighting and a built-in key.
\<close>

definition one_origin :: "'a option \<Rightarrow> 'b option \<Rightarrow> bool" where
  "one_origin x y \<longleftrightarrow> (x = None) \<noteq> (y = None)"

definition tables_ok :: "alert_tables \<Rightarrow> bool" where
  "tables_ok db \<longleftrightarrow> distinct (map ar_id (at_rules db)) \<and> distinct (map am_id (at_matches db)) \<and>
     (\<forall>m \<in> set (at_matches db). one_origin (am_rule_id m) (am_builtin_key m)) \<and>
     (\<forall>m \<in> set (at_matches db). opt_all (\<lambda>i. i \<in> set (map ar_id (at_rules db))) (am_rule_id m)) \<and>
     distinct (map (\<lambda>m. (am_sighting_id m, row_key m)) (at_matches db))"

lemma next_rowid_fresh: "next_rowid ids \<notin> set ids"
proof
  assume a: "next_rowid ids \<in> set ids"
  then have "next_rowid ids \<le> Max (set ids)" "ids \<noteq> []" by auto
  then show False by (simp add: next_rowid_def)
qed

lemma conflicts_key:
  assumes "one_origin (nm_rule_id m) (nm_builtin_key m)" "one_origin (am_rule_id row) (am_builtin_key row)"
  shows "conflicts m row \<longleftrightarrow> am_sighting_id row = nm_sighting_id m \<and>
    row_key row = (case nm_rule_id m of Some i \<Rightarrow> RuleKey i | None \<Rightarrow> BuiltinKey (the (nm_builtin_key m)))"
  using assms by (auto simp: conflicts_def row_key_def one_origin_def split: option.splits)

definition new_key :: "new_match \<Rightarrow> match_key" where
  "new_key m = (case nm_rule_id m of Some i \<Rightarrow> RuleKey i | None \<Rightarrow> BuiltinKey (the (nm_builtin_key m)))"

text \<open>What an insert does, told by the key of the match.\<close>

lemma insert_match_cases:
  assumes "tables_ok db" "one_origin (nm_rule_id m) (nm_builtin_key m)" "insert_match m db = Some (i, db')"
  shows "tables_ok db' \<and> at_rules db' = at_rules db \<and> at_sightings db' = at_sightings db \<and>
    at_aircraft db' = at_aircraft db \<and>
    (if (nm_sighting_id m, new_key m) \<in> (\<lambda>r. (am_sighting_id r, row_key r)) ` set (at_matches db)
     then i = None \<and> db' = db
     else \<exists>row. i = Some (am_id row) \<and> at_matches db' = at_matches db @ [row] \<and>
       row_key row = new_key m \<and> am_sighting_id row = nm_sighting_id m \<and> am_severity row = nm_severity m \<and>
       am_aircraft_id row = nm_aircraft_id m \<and> am_matched_ms row = nm_matched_ms m)"
proof -
  have origin: "one_origin (am_rule_id r) (am_builtin_key r)" if "r \<in> set (at_matches db)" for r
    using assms(1) that by (simp add: tables_ok_def)
  have conflict: "list_ex (conflicts m) (at_matches db) \<longleftrightarrow>
      (nm_sighting_id m, new_key m) \<in> (\<lambda>r. (am_sighting_id r, row_key r)) ` set (at_matches db)"
  proof -
    have "conflicts m r \<longleftrightarrow> (nm_sighting_id m, new_key m) = (am_sighting_id r, row_key r)"
      if "r \<in> set (at_matches db)" for r
      using conflicts_key [OF assms(2) origin [OF that]] by (auto simp: new_key_def)
    then show ?thesis by (auto simp: list_ex_iff image_iff)
  qed
  show ?thesis
  proof (cases "list_ex (conflicts m) (at_matches db)")
    case True
    with assms(1,3) show ?thesis unfolding conflict [symmetric] by (simp add: insert_match_def)
  next
    case False
    let ?row = "\<lparr>am_id = next_rowid (map am_id (at_matches db)), am_rule_id = nm_rule_id m,
             am_builtin_key = nm_builtin_key m, am_sighting_id = nm_sighting_id m,
             am_aircraft_id = nm_aircraft_id m, am_matched_ms = nm_matched_ms m,
             am_severity = nm_severity m, am_reason = nm_reason m, am_notified = False\<rparr>"
    have keys: "keys_exist m db" and res: "i = Some (am_id ?row)" "db' = db\<lparr>at_matches := at_matches db @ [?row]\<rparr>"
      using False assms(3) by (auto simp: insert_match_def Let_def split: if_splits)
    have key: "row_key ?row = new_key m" by (simp add: row_key_def new_key_def split: option.split)
    have "tables_ok db'"
      using assms(1,2) keys False next_rowid_fresh [of "map am_id (at_matches db)"] key
      unfolding conflict by (auto simp: tables_ok_def res(2) keys_exist_def)
    with False key res show ?thesis unfolding conflict [symmetric] by auto
  qed
qed

text \<open>What a whole write does.\<close>

definition match_keys :: "alert_tables \<Rightarrow> (int \<times> match_key) set" where
  "match_keys db = (\<lambda>r. (am_sighting_id r, row_key r)) ` set (at_matches db)"

definition asked_key :: "new_match \<Rightarrow> int \<times> match_key" where
  "asked_key m = (nm_sighting_id m, new_key m)"

definition same_frame :: "alert_tables \<Rightarrow> alert_tables \<Rightarrow> bool" where
  "same_frame db db' \<longleftrightarrow> at_rules db' = at_rules db \<and> at_sightings db' = at_sightings db \<and>
     at_aircraft db' = at_aircraft db"

definition row_for :: "new_match \<Rightarrow> alert_row \<Rightarrow> bool" where
  "row_for m row \<longleftrightarrow> row_key row = new_key m \<and> am_sighting_id row = nm_sighting_id m \<and>
     am_severity row = nm_severity m \<and> am_aircraft_id row = nm_aircraft_id m \<and>
     am_matched_ms row = nm_matched_ms m"

fun created_ok :: "(int \<times> match_key) set \<Rightarrow> (new_match \<times> int option) list \<Rightarrow> alert_row list \<Rightarrow> bool" where
  "created_ok keys [] rows \<longleftrightarrow> rows = []"
| "created_ok keys ((m, i) # rest) rows \<longleftrightarrow>
     (if asked_key m \<in> keys then i = None \<and> created_ok keys rest rows
      else (case rows of [] \<Rightarrow> False
            | row # rows' \<Rightarrow> i = Some (am_id row) \<and> row_for m row \<and> created_ok (insert (asked_key m) keys) rest rows'))"

lemma record_matches_spec:
  assumes "record_matches ms db = Some (created, db')" "tables_ok db"
    and "\<And>m. m \<in> set ms \<Longrightarrow> one_origin (nm_rule_id m) (nm_builtin_key m)"
  shows "tables_ok db' \<and> same_frame db db' \<and> length created = length ms \<and>
    (\<exists>rows. at_matches db' = at_matches db @ rows \<and> created_ok (match_keys db) (zip ms created) rows) \<and>
    match_keys db' = match_keys db \<union> asked_key ` set ms"
  using assms
proof (induction ms arbitrary: db created)
  case Nil
  then show ?case by (auto simp: same_frame_def)
next
  case (Cons m ms)
  obtain i db1 cs where step: "insert_match m db = Some (i, db1)" "record_matches ms db1 = Some (cs, db')"
      "created = i # cs"
    using Cons.prems(1) by (auto simp: bind_eq_Some_conv)
  note ins = insert_match_cases [OF Cons.prems(2) Cons.prems(3) [OF list.set_intros(1)] step(1)]
  note IH = Cons.IH [OF step(2) conjunct1 [OF ins] Cons.prems(3) [OF list.set_intros(2)]]
  obtain rows where rows: "at_matches db' = at_matches db1 @ rows"
      "created_ok (match_keys db1) (zip ms cs) rows"
    using IH by blast
  show ?case
  proof (cases "asked_key m \<in> match_keys db")
    case True
    then have same: "i = None" "db1 = db" using ins by (simp_all add: asked_key_def match_keys_def)
    then show ?thesis using IH True step(3) by auto
  next
    case False
    then obtain row where row: "i = Some (am_id row)" "at_matches db1 = at_matches db @ [row]" "row_for m row"
      using ins unfolding asked_key_def match_keys_def row_for_def by auto
    then have keys: "match_keys db1 = insert (asked_key m) (match_keys db)"
      by (simp add: match_keys_def asked_key_def row_for_def)
    have "created_ok (match_keys db) (zip (m # ms) created) (row # rows)"
      using False row rows(2) keys step(3) by simp
    moreover have "at_matches db' = at_matches db @ row # rows" using rows(1) row(2) by simp
    ultimately show ?thesis using IH ins keys step(3) by (auto simp: same_frame_def)
  qed
qed

lemma created_ok_rows:
  assumes "created_ok keys (zip ms cs) rows" "length cs = length ms"
  shows "map am_id rows = List.map_filter id cs"
  using assms
proof (induction ms arbitrary: keys cs rows)
  case Nil
  then show ?case by (simp add: map_filter_def)
next
  case (Cons m ms)
  then obtain i cs' where cs: "cs = i # cs'" "length cs' = length ms" by (cases cs) auto
  show ?case
  proof (cases "asked_key m \<in> keys")
    case True
    then show ?thesis using Cons.prems(1) Cons.IH [of keys cs' rows] cs by (auto simp: map_filter_def)
  next
    case False
    then obtain row rows' where "rows = row # rows'" "i = Some (am_id row)"
        "created_ok (insert (asked_key m) keys) (zip ms cs') rows'"
      using Cons.prems(1) cs by (auto split: list.splits)
    then show ?thesis using Cons.IH [of "insert (asked_key m) keys" cs' rows'] cs by (auto simp: map_filter_def)
  qed
qed

lemma tables_ok_create:
  assumes "tables_ok db" "create_rule_row name description severity conditions enabled key now_ms db = (r, db')"
  shows "tables_ok db'"
proof -
  have "opt_all (\<lambda>i. i \<in> A) x \<Longrightarrow> opt_all (\<lambda>i. i = n \<or> i \<in> A) x" for A :: "int set" and n x
    by (cases x) simp_all
  then show ?thesis
    using assms next_rowid_fresh [of "map ar_id (at_rules db)"]
    by (auto simp: create_rule_row_def Let_def tables_ok_def)
qed

lemma tables_ok_update:
  assumes "tables_ok db" "update_rule_row rule_id name description severity conditions enabled now_ms db = (r, db')"
  shows "tables_ok db'"
proof (cases "find (\<lambda>r. ar_id r = rule_id) (at_rules db)")
  case (Some row)
  then have "ar_id row = rule_id" by (auto simp: find_Some_iff)
  then have "map ar_id (at_rules db') = map ar_id (at_rules db)" "at_matches db' = at_matches db"
    using assms(2) Some by (auto simp: update_rule_row_def Let_def)
  then show ?thesis using assms(1) by (simp add: tables_ok_def)
qed (use assms in \<open>auto simp: update_rule_row_def\<close>)

lemma tables_ok_delete:
  assumes "tables_ok db" "delete_rule_row rule_id db = (found, db')"
  shows "tables_ok db'"
proof (cases "find (\<lambda>r. ar_id r = rule_id) (at_rules db)")
  case (Some row)
  then have db': "db' = db\<lparr>at_rules := filter (\<lambda>r. ar_id r \<noteq> rule_id) (at_rules db),
      at_matches := filter (\<lambda>m. am_rule_id m \<noteq> Some rule_id) (at_matches db)\<rparr>"
    using assms(2) by (simp add: delete_rule_row_def)
  have "opt_all (\<lambda>i. i \<in> set (map ar_id (at_rules db'))) (am_rule_id m)" if "m \<in> set (at_matches db')" for m
    using assms(1) that by (cases "am_rule_id m") (fastforce simp: tables_ok_def db')+
  moreover have "distinct (map ar_id (at_rules db'))" "distinct (map am_id (at_matches db'))"
      "distinct (map (\<lambda>m. (am_sighting_id m, row_key m)) (at_matches db'))"
    using assms(1) by (simp_all add: tables_ok_def db' distinct_map_filter)
  ultimately show ?thesis using assms(1) by (auto simp: tables_ok_def db')
qed (use assms in \<open>auto simp: delete_rule_row_def\<close>)

lemma tables_ok_map:
  assumes "tables_ok db" and "\<And>m. am_id (g m) = am_id m" "\<And>m. am_rule_id (g m) = am_rule_id m"
    and "\<And>m. am_builtin_key (g m) = am_builtin_key m" "\<And>m. am_sighting_id (g m) = am_sighting_id m"
  shows "tables_ok (db\<lparr>at_matches := map g (at_matches db)\<rparr>)"
proof -
  have "row_key (g m) = row_key m" for m
    by (simp add: row_key_def assms(3,4) split: option.split)
  with assms show ?thesis by (simp add: tables_ok_def comp_def)
qed

lemma tables_ok_notified: "tables_ok db \<Longrightarrow> tables_ok (snd (mark_notified match_id db))"
  unfolding mark_notified_def snd_conv by (rule tables_ok_map) simp_all

end
