(* ===== verification/AlertEvaluator.thy ===== *)
theory AlertEvaluator
  imports AlertModel "HOL-Library.Product_Lexorder"
begin

text \<open>
  \<^verbatim>\<open>alerts/builtins.py\<close> and \<^verbatim>\<open>alerts/evaluator.py\<close>: the built-in emergency match, and
  the evaluation of rules against one aircraft. Everything is a function of the subject, the rules and
  the alert radius.
\<close>

section \<open>Built-in emergencies\<close>

definition emergency_reason :: "string \<Rightarrow> string" where
  "emergency_reason squawk = ''Emergency squawk '' @ squawk @ '' ('' @ the (map_of EMERGENCY_MEANINGS squawk) @ '')''"

definition decoder_emergency_reason :: "string \<Rightarrow> string" where
  "decoder_emergency_reason kind = ''Decoder emergency state: '' @ the (map_of DECODER_EMERGENCY_MEANINGS kind)"

definition emergency_match :: "alert_subject \<Rightarrow> match_proposal option" where
  "emergency_match s =
     (case declared_emergency (sj_squawk s) (sj_decoder_emergency s) of
        None \<Rightarrow> None
      | Some (source, kind) \<Rightarrow>
          if map_of DECODER_EMERGENCY_MEANINGS kind = None then None
          else Some \<lparr>mp_key = BuiltinKey (emergency_kind_builtin_key kind), mp_severity = EMERGENCY_SEVERITY,
             mp_reason = (case sj_squawk s of
                 Some squawk \<Rightarrow> if source = EMERGENCY_SOURCE_SQUAWK then emergency_reason squawk
                   else decoder_emergency_reason kind
               | None \<Rightarrow> decoder_emergency_reason kind),
             mp_rule_id = None, mp_builtin_key = Some (emergency_kind_builtin_key kind),
             mp_emergency_source = Some source, mp_emergency_kind = Some kind\<rparr>)"

section \<open>Conditions\<close>

definition classification_holds :: "classification_condition \<Rightarrow> classification \<Rightarrow> bool" where
  "classification_holds condition c =
     (if cc_military condition \<and> \<not> cl_military c then False
      else if cc_government condition \<and> \<not> cl_government c then False
      else if cc_law_enforcement condition \<and> \<not> cl_law_enforcement c then False
      else \<not> (cc_mission condition \<noteq> None \<and> Some (cl_mission c) \<noteq> cc_mission condition))"

definition watchlist_holds :: "rule_conditions \<Rightarrow> compiled_rule \<Rightarrow> string list \<Rightarrow> bool" where
  "watchlist_holds c r matched =
     (if rc_watchlist_any c \<and> matched = [] then False
      else if rc_watchlist_id c = None then True
      else case cr_watchlist_name r of None \<Rightarrow> False | Some name \<Rightarrow> name \<in> set matched)"

definition window_holds :: "real option \<Rightarrow> real option \<Rightarrow> real option \<Rightarrow> bool" where
  "window_holds value low high =
     (if low = None \<and> high = None then True
      else case value of
        None \<Rightarrow> False
      | Some v \<Rightarrow> if \<not> opt_all (\<lambda>h. v \<le> h) high then False else opt_all (\<lambda>l. l \<le> v) low)"

definition distance_holds :: "rule_conditions \<Rightarrow> real option \<Rightarrow> bool" where
  "distance_holds c distance =
     (if rc_max_distance_nm c = None \<and> rc_min_distance_nm c = None then True
      else case distance of
        None \<Rightarrow> False
      | Some d \<Rightarrow> if \<not> opt_all (\<lambda>h. d \<le> h) (rc_max_distance_nm c) then False
          else opt_all (\<lambda>l. l \<le> d) (rc_min_distance_nm c))"

definition altitude_holds :: "rule_conditions \<Rightarrow> real option \<Rightarrow> bool" where
  "altitude_holds c altitude =
     (if rc_max_alt_ft c = None \<and> rc_min_alt_ft c = None then True
      else case altitude of
        None \<Rightarrow> False
      | Some a \<Rightarrow> if \<not> opt_all (\<lambda>h. a \<le> h) (rc_max_alt_ft c) then False
          else opt_all (\<lambda>l. l \<le> a) (rc_min_alt_ft c))"

definition rarity_holds :: "rule_conditions \<Rightarrow> alert_subject \<Rightarrow> bool" where
  "rarity_holds c s =
     (if \<not> opt_all (\<lambda>n. sj_sightings_here s \<le> n) (rc_rare_aircraft c) then False
      else case rc_rare_type c of
        None \<Rightarrow> True
      | Some n \<Rightarrow> (case sj_type_aircraft_here s of None \<Rightarrow> False | Some here \<Rightarrow> here \<le> n))"

definition glob_holds :: "glob_part list option \<Rightarrow> string option \<Rightarrow> bool" where
  "glob_holds matcher value = (case matcher of
      None \<Rightarrow> True
    | Some parts \<Rightarrow> (case value of None \<Rightarrow> False | Some v \<Rightarrow> fullmatch parts (py_strip v)))"

definition member_holds :: "string set option \<Rightarrow> string option \<Rightarrow> bool" where
  "member_holds codes value = (case codes of
      None \<Rightarrow> True
    | Some cs \<Rightarrow> (case value of None \<Rightarrow> False | Some v \<Rightarrow> v \<in> cs))"

definition extended_holds :: "extended_conditions \<Rightarrow> alert_subject \<Rightarrow> bool" where
  "extended_holds x s =
     (if \<not> member_holds (xc_squawks x) (sj_squawk s) then False
      else if \<not> member_holds (xc_categories x) (sj_emitter_category s) then False
      else if \<not> window_holds (sj_ground_speed_kt s) (xc_min_ground_speed_kt x) (xc_max_ground_speed_kt x) then False
      else if \<not> window_holds (sj_vertical_rate_fpm s) (xc_min_vertical_rate_fpm x) (xc_max_vertical_rate_fpm x) then False
      else if \<not> glob_holds (xc_callsign x) (sj_callsign s) then False
      else if \<not> glob_holds (xc_registration x) (sj_registration s) then False
      else case xc_area x of
        None \<Rightarrow> True
      | Some area \<Rightarrow> (case (sj_latitude s, sj_longitude s) of
            (Some lat, Some lon) \<Rightarrow> area_contains area lon lat
          | _ \<Rightarrow> False))"

definition contains_text :: "string \<Rightarrow> string \<Rightarrow> bool" where
  "contains_text needle text = list_ex (\<lambda>i. take (length needle) (drop i text) = needle) [0..<Suc (length text)]"

definition matches :: "real option \<Rightarrow> compiled_rule \<Rightarrow> alert_subject \<Rightarrow> bool" where
  "matches alert_radius_nm r s =
     (let c = ar_conditions (cr_rule r)
      in if \<not> ar_enabled (cr_rule r) then False
         else if on_ground s \<and> \<not> rc_applies_on_ground c then False
         else if \<not> opt_all (\<lambda>radius. opt_all (\<lambda>d. d \<le> radius) (sj_distance_nm s)) alert_radius_nm then False
         else if \<not> opt_all (\<lambda>condition. classification_holds condition (sj_classification s)) (rc_classification c) then False
         else if \<not> opt_all (\<lambda>t. \<exists>u \<in> set_option (sj_type_code s). str_upper u = str_upper t) (rc_type_code c) then False
         else if \<not> opt_all (\<lambda>m. \<exists>n \<in> set_option (sj_model s). contains_text (str_casefold m) (str_casefold n)) (rc_model c) then False
         else if \<not> watchlist_holds c r (sj_watchlists s) then False
         else if \<not> rarity_holds c s then False
         else if \<not> distance_holds c (sj_distance_nm s) then False
         else if \<not> altitude_holds c (sj_altitude_ft s) then False
         else case cr_extended r of None \<Rightarrow> True | Some x \<Rightarrow> extended_holds x s)"

section \<open>Evaluation\<close>

definition rule_proposal :: "alert_rule \<Rightarrow> match_proposal" where
  "rule_proposal r = \<lparr>mp_key = RuleKey (ar_id r), mp_severity = ar_severity r, mp_reason = rule_reason r,
     mp_rule_id = Some (ar_id r), mp_builtin_key = None, mp_emergency_source = None, mp_emergency_kind = None\<rparr>"

definition proposal_order :: "match_proposal \<Rightarrow> int \<times> int" where
  "proposal_order p = (- int (severity_rank (mp_severity p)), case mp_rule_id p of None \<Rightarrow> 0 | Some i \<Rightarrow> i)"

definition evaluate :: "real option \<Rightarrow> compiled_rule list \<Rightarrow> alert_subject \<Rightarrow> match_proposal list" where
  "evaluate alert_radius_nm rules s =
     sort_key proposal_order
       ((case emergency_match s of None \<Rightarrow> [] | Some p \<Rightarrow> [p]) @
        map (\<lambda>r. rule_proposal (cr_rule r)) (filter (\<lambda>r. matches alert_radius_nm r s) rules))"

section \<open>What each phrase of a rule requires\<close>

definition known :: "('a \<Rightarrow> bool) \<Rightarrow> 'a option \<Rightarrow> bool" where
  "known P x \<longleftrightarrow> (\<exists>v. x = Some v \<and> P v)"

lemma known_simps [simp]: "\<not> known P None" "known P (Some v) = P v"
  by (simp_all add: known_def)

text \<open>
  The reading of a rule off its description: each phrase is one requirement on what is known of the
  aircraft, and something unknown satisfies none.
\<close>

fun phrase_holds :: "string option \<Rightarrow> alert_subject \<Rightarrow> phrase \<Rightarrow> bool" where
  "phrase_holds w s (PhClassification k) \<longleftrightarrow>
     (cc_military k \<longrightarrow> cl_military (sj_classification s)) \<and>
     (cc_government k \<longrightarrow> cl_government (sj_classification s)) \<and>
     (cc_law_enforcement k \<longrightarrow> cl_law_enforcement (sj_classification s)) \<and>
     opt_all (\<lambda>m. cl_mission (sj_classification s) = m) (cc_mission k)"
| "phrase_holds w s (PhType t) \<longleftrightarrow> known (\<lambda>u. str_upper u = str_upper t) (sj_type_code s)"
| "phrase_holds w s (PhModel m) \<longleftrightarrow> known (\<lambda>n. sublist (str_casefold m) (str_casefold n)) (sj_model s)"
| "phrase_holds w s (PhWatchlist i) \<longleftrightarrow> known (\<lambda>name. name \<in> set (sj_watchlists s)) w"
| "phrase_holds w s PhAnyWatchlist \<longleftrightarrow> sj_watchlists s \<noteq> []"
| "phrase_holds w s (PhRareAircraft n) \<longleftrightarrow> sj_sightings_here s \<le> n"
| "phrase_holds w s (PhRareType n) \<longleftrightarrow> known (\<lambda>k. k \<le> n) (sj_type_aircraft_here s)"
| "phrase_holds w s (PhMinDistance l) \<longleftrightarrow> known (\<lambda>d. l \<le> d) (sj_distance_nm s)"
| "phrase_holds w s (PhMaxDistance h) \<longleftrightarrow> known (\<lambda>d. d \<le> h) (sj_distance_nm s)"
| "phrase_holds w s (PhMinAlt l) \<longleftrightarrow> known (\<lambda>a. l \<le> a) (sj_altitude_ft s)"
| "phrase_holds w s (PhMaxAlt h) \<longleftrightarrow> known (\<lambda>a. a \<le> h) (sj_altitude_ft s)"
| "phrase_holds w s (PhSquawks qs) \<longleftrightarrow> known (\<lambda>q. q \<in> set qs) (sj_squawk s)"
| "phrase_holds w s (PhCallsign p) \<longleftrightarrow> known (\<lambda>v. glob_matches p (py_strip v)) (sj_callsign s)"
| "phrase_holds w s (PhRegistration p) \<longleftrightarrow> known (\<lambda>v. glob_matches p (py_strip v)) (sj_registration s)"
| "phrase_holds w s (PhCategories es) \<longleftrightarrow> known (\<lambda>e. e \<in> set es) (sj_emitter_category s)"
| "phrase_holds w s (PhMinSpeed l) \<longleftrightarrow> known (\<lambda>v. l \<le> v) (sj_ground_speed_kt s)"
| "phrase_holds w s (PhMaxSpeed h) \<longleftrightarrow> known (\<lambda>v. v \<le> h) (sj_ground_speed_kt s)"
| "phrase_holds w s (PhMinRate l) \<longleftrightarrow> known (\<lambda>v. l \<le> v) (sj_vertical_rate_fpm s)"
| "phrase_holds w s (PhMaxRate h) \<longleftrightarrow> known (\<lambda>v. v \<le> h) (sj_vertical_rate_fpm s)"
| "phrase_holds w s (PhArea rings) \<longleftrightarrow> known (\<lambda>lat. known (\<lambda>lon. area_contains (from_ring (hd rings)) lon lat)
     (sj_longitude s)) (sj_latitude s)"

definition in_scope :: "real option \<Rightarrow> compiled_rule \<Rightarrow> alert_subject \<Rightarrow> bool" where
  "in_scope radius r s \<longleftrightarrow> ar_enabled (cr_rule r) \<and>
     (on_ground s \<longrightarrow> rc_applies_on_ground (ar_conditions (cr_rule r))) \<and>
     opt_all (\<lambda>far. opt_all (\<lambda>d. d \<le> far) (sj_distance_nm s)) radius"

lemma say_all [simp]: "(\<forall>p \<in> set (say f x). P p) \<longleftrightarrow> opt_all (\<lambda>y. P (f y)) x"
  by (cases x) (simp_all add: say_def)

lemma window_known:
  "window_holds v low high \<longleftrightarrow> opt_all (\<lambda>h. known (\<lambda>x. x \<le> h) v) high \<and> opt_all (\<lambda>l. known (\<lambda>x. l \<le> x) v) low"
  by (cases v; cases low; cases high) (auto simp: window_holds_def)

lemma distance_known: "distance_holds c d = window_holds d (rc_min_distance_nm c) (rc_max_distance_nm c)"
  by (auto simp: distance_holds_def window_holds_def)

lemma altitude_known: "altitude_holds c a = window_holds a (rc_min_alt_ft c) (rc_max_alt_ft c)"
  by (auto simp: altitude_holds_def window_holds_def)

lemma classification_known:
  "opt_all (\<lambda>k. classification_holds k (sj_classification s)) x \<longleftrightarrow> opt_all (\<lambda>k. phrase_holds w s (PhClassification k)) x"
proof (cases x)
  case (Some k)
  show ?thesis by (cases "cc_mission k") (auto simp: Some classification_holds_def)
qed simp

lemma watchlist_known:
  "watchlist_holds c r ws \<longleftrightarrow> (rc_watchlist_any c \<longrightarrow> ws \<noteq> []) \<and>
     opt_all (\<lambda>i. known (\<lambda>name. name \<in> set ws) (cr_watchlist_name r)) (rc_watchlist_id c)"
  by (cases "rc_watchlist_id c"; cases "cr_watchlist_name r") (auto simp: watchlist_holds_def)

lemma rarity_known:
  "rarity_holds c s \<longleftrightarrow> opt_all (\<lambda>n. sj_sightings_here s \<le> n) (rc_rare_aircraft c) \<and>
     opt_all (\<lambda>n. known (\<lambda>k. k \<le> n) (sj_type_aircraft_here s)) (rc_rare_type c)"
  by (cases "rc_rare_type c"; cases "sj_type_aircraft_here s") (auto simp: rarity_holds_def)

lemma contains_text_sublist: "contains_text needle text \<longleftrightarrow> sublist needle text"
proof
  assume "contains_text needle text"
  then obtain i where "take (length needle) (drop i text) = needle"
    by (auto simp: contains_text_def list_ex_iff)
  then have "text = take i text @ needle @ drop (length needle) (drop i text)"
    by (metis append_take_drop_id)
  then show "sublist needle text" by (auto simp: sublist_def)
next
  assume "sublist needle text"
  then obtain a b where "text = a @ needle @ b" by (auto simp: sublist_def)
  then show "contains_text needle text"
    by (auto simp: contains_text_def list_ex_iff intro!: bexI [of _ "length a"])
qed

lemma option_known: "(\<exists>u \<in> set_option x. P u) \<longleftrightarrow> known P x"
  by (cases x) simp_all

lemma member_known: "member_holds (map_option set codes) v \<longleftrightarrow> opt_all (\<lambda>cs. known (\<lambda>x. x \<in> set cs) v) codes"
  by (cases codes; cases v) (simp_all add: member_holds_def)

lemma glob_known: "glob_holds (map_option compile_glob p) v \<longleftrightarrow> opt_all (\<lambda>p. known (\<lambda>x. glob_matches p (py_strip x)) v) p"
  by (cases p; cases v) (simp_all add: glob_holds_def compile_glob_matches)

lemma extended_known:
  "(case compile_extended c of None \<Rightarrow> True | Some x \<Rightarrow> extended_holds x s) \<longleftrightarrow>
     opt_all (\<lambda>cs. known (\<lambda>x. x \<in> set cs) (sj_squawk s)) (rc_squawk_in c) \<and>
     opt_all (\<lambda>cs. known (\<lambda>x. x \<in> set cs) (sj_emitter_category s)) (rc_emitter_category_in c) \<and>
     window_holds (sj_ground_speed_kt s) (rc_min_ground_speed_kt c) (rc_max_ground_speed_kt c) \<and>
     window_holds (sj_vertical_rate_fpm s) (rc_min_vertical_rate_fpm c) (rc_max_vertical_rate_fpm c) \<and>
     opt_all (\<lambda>p. known (\<lambda>x. glob_matches p (py_strip x)) (sj_callsign s)) (rc_callsign_glob c) \<and>
     opt_all (\<lambda>p. known (\<lambda>x. glob_matches p (py_strip x)) (sj_registration s)) (rc_registration_glob c) \<and>
     opt_all (\<lambda>rings. known (\<lambda>y. known (\<lambda>x. area_contains (from_ring (hd rings)) x y) (sj_longitude s)) (sj_latitude s))
       (rc_within_area c)"
proof (cases "extended c")
  case True
  then have "compile_extended c \<noteq> None" by (simp add: compile_extended_def)
  with True show ?thesis
    by (cases "rc_within_area c"; cases "sj_latitude s"; cases "sj_longitude s")
      (simp_all add: compile_extended_def extended_holds_def member_known glob_known)
next
  case False
  then show ?thesis by (auto simp: compile_extended_def extended_def window_holds_def)
qed

lemma matches_phrases:
  "matches radius (compile_rule rule w) s \<longleftrightarrow>
     in_scope radius (compile_rule rule w) s \<and> (\<forall>p \<in> set (describe (ar_conditions rule)). phrase_holds w s p)"
proof -
  have "matches radius (compile_rule rule w) s \<longleftrightarrow> in_scope radius (compile_rule rule w) s \<and>
      opt_all (\<lambda>k. classification_holds k (sj_classification s)) (rc_classification (ar_conditions rule)) \<and>
      opt_all (\<lambda>t. known (\<lambda>u. str_upper u = str_upper t) (sj_type_code s)) (rc_type_code (ar_conditions rule)) \<and>
      opt_all (\<lambda>m. known (\<lambda>n. sublist (str_casefold m) (str_casefold n)) (sj_model s)) (rc_model (ar_conditions rule)) \<and>
      watchlist_holds (ar_conditions rule) (compile_rule rule w) (sj_watchlists s) \<and>
      rarity_holds (ar_conditions rule) s \<and>
      distance_holds (ar_conditions rule) (sj_distance_nm s) \<and>
      altitude_holds (ar_conditions rule) (sj_altitude_ft s) \<and>
      (case compile_extended (ar_conditions rule) of None \<Rightarrow> True | Some x \<Rightarrow> extended_holds x s)"
    unfolding matches_def in_scope_def Let_def option_known contains_text_sublist compile_rule_def compiled_rule.simps
    by (simp only: if_bool_eq_conj simp_thms) blast
  then show ?thesis
    unfolding classification_known [of s _ w] watchlist_known rarity_known distance_known altitude_known
      extended_known window_known describe_def set_append ball_Un say_all phrase_holds.simps
    by (auto simp: compile_rule_def)
qed

section \<open>Lemmas on evaluation\<close>

lemma emergency_match_cases:
  "emergency_match s = None \<or> (\<exists>p. emergency_match s = Some p \<and> mp_severity p = CriticalSev \<and>
     mp_rule_id p = None \<and> is_builtin p \<and> mp_key p = BuiltinKey (the (mp_builtin_key p)))"
  by (auto simp: emergency_match_def EMERGENCY_SEVERITY_def is_builtin_def split: option.splits prod.splits)

lemma set_evaluate:
  "set (evaluate radius rules s) = set_option (emergency_match s) \<union>
     (\<lambda>r. rule_proposal (cr_rule r)) ` {r \<in> set rules. matches radius r s}"
  unfolding evaluate_def set_sort by (cases "emergency_match s") auto

lemma evaluate_sorted: "sorted (map proposal_order (evaluate radius rules s))"
  by (simp add: evaluate_def)

lemma length_evaluate:
  "length (evaluate radius rules s) = (if emergency_match s = None then 0 else 1) +
     length (filter (\<lambda>r. matches radius r s) rules)"
  by (cases "emergency_match s") (simp_all add: evaluate_def)

text \<open>More is known of \<open>t\<close> than of \<open>s\<close>, and nothing that was known changed.\<close>

definition refines :: "'a option \<Rightarrow> 'a option \<Rightarrow> bool" where
  "refines x y \<longleftrightarrow> x = None \<or> x = y"

lemma refines_known: "refines x y \<Longrightarrow> known P x \<Longrightarrow> known P y"
  by (auto simp: refines_def)

definition less_known :: "alert_subject \<Rightarrow> alert_subject \<Rightarrow> bool" where
  "less_known s t \<longleftrightarrow>
     refines (sj_squawk s) (sj_squawk t) \<and> refines (sj_distance_nm s) (sj_distance_nm t) \<and>
     refines (sj_altitude_ft s) (sj_altitude_ft t) \<and> sj_ground_state s = sj_ground_state t \<and>
     refines (sj_ground_speed_kt s) (sj_ground_speed_kt t) \<and>
     refines (sj_vertical_rate_fpm s) (sj_vertical_rate_fpm t) \<and>
     refines (sj_emitter_category s) (sj_emitter_category t) \<and>
     refines (sj_latitude s) (sj_latitude t) \<and> refines (sj_longitude s) (sj_longitude t) \<and>
     refines (sj_callsign s) (sj_callsign t) \<and> sj_classification s = sj_classification t \<and>
     refines (sj_type_code s) (sj_type_code t) \<and> refines (sj_model s) (sj_model t) \<and>
     refines (sj_registration s) (sj_registration t) \<and> sj_watchlists s = sj_watchlists t \<and>
     sj_sightings_here s = sj_sightings_here t \<and>
     refines (sj_type_aircraft_here s) (sj_type_aircraft_here t)"

lemma phrase_less_known:
  assumes "less_known s t" "phrase_holds w s p"
  shows "phrase_holds w t p"
proof (cases p)
  case (PhArea rings)
  have "refines (sj_latitude s) (sj_latitude t)" "refines (sj_longitude s) (sj_longitude t)"
    using assms(1) by (simp_all add: less_known_def)
  then show ?thesis using assms(2) unfolding PhArea by (auto simp: refines_def known_def)
qed (use assms refines_known in \<open>auto simp: less_known_def\<close>)

section \<open>Properties\<close>

text \<open>
  Property C16. A rule is exactly the conjunction of what its description says: it matches when it is
  enabled, the aircraft is in scope (in the air unless the rule applies on the ground, and not known
  to be beyond the alert radius), and every phrase of the description holds of what is known about the
  aircraft. The order of the checks and the compiled form of the version 2 conditions do not show.
\<close>

theorem rule_matches_its_description:
  "matches radius (compile_rule rule w) s \<longleftrightarrow>
     in_scope radius (compile_rule rule w) s \<and> list_all (phrase_holds w s) (describe (ar_conditions rule))"
  by (simp add: matches_phrases list_all_iff)

text \<open>
  Unknown is never a quiet yes: a rule that matches an aircraft of which something is
  unknown still matches when more becomes known and nothing known changed, as long as the aircraft is
  not found to be beyond the alert radius. A condition is never met because its input is missing.
\<close>

theorem unknown_is_no_quiet_yes:
  assumes "matches radius (compile_rule rule w) s" "less_known s t"
    and "opt_all (\<lambda>far. opt_all (\<lambda>d. d \<le> far) (sj_distance_nm t)) radius"
  shows "matches radius (compile_rule rule w) t"
proof -
  have "in_scope radius (compile_rule rule w) t"
    using assms unfolding matches_phrases by (auto simp: in_scope_def on_ground_def less_known_def)
  then show ?thesis using assms(1) phrase_less_known [OF assms(2)] unfolding matches_phrases by blast
qed

text \<open>An aircraft nothing is known of, and often seen.\<close>

definition blank_subject :: "string \<Rightarrow> int \<Rightarrow> int \<Rightarrow> alert_subject" where
  "blank_subject icao at_ms sightings = \<lparr>sj_icao = icao, sj_at_ms = at_ms, sj_sighting_id = None,
     sj_aircraft_id = None, sj_squawk = None, sj_decoder_emergency = None, sj_distance_nm = None,
     sj_altitude_ft = None, sj_ground_state = UnknownGround, sj_ground_speed_kt = None,
     sj_vertical_rate_fpm = None, sj_emitter_category = None, sj_latitude = None, sj_longitude = None,
     sj_callsign = None, sj_classification = unknown_classification, sj_type_code = None, sj_model = None,
     sj_registration = None, sj_watchlists = [], sj_sightings_here = sightings, sj_type_aircraft_here = None,
     sj_metadata_resolved = False\<rparr>"

lemma known_never [simp]: "\<not> known (\<lambda>x. False) w"
  by (simp add: known_def)

lemma describe_said:
  "PhClassification k \<in> set (describe c) \<Longrightarrow> rc_classification c = Some k"
  "PhRareAircraft n \<in> set (describe c) \<Longrightarrow> rc_rare_aircraft c = Some n"
  by (auto simp: describe_def say_def split: option.splits if_splits)

lemma blank_fails:
  assumes "field_bounds c" "opt_all asserts_something (rc_classification c)" "p \<in> set (describe c)"
    and "MAX_RARITY_THRESHOLD < sightings"
  shows "\<not> phrase_holds w (blank_subject icao at_ms sightings) p"
proof (cases p)
  case (PhClassification k)
  then have "asserts_something k" using assms(2,3) describe_said(1) by fastforce
  then show ?thesis
    by (cases "cc_mission k") (auto simp: PhClassification blank_subject_def unknown_classification_def asserts_something_def)
next
  case (PhRareAircraft n)
  then have "n \<le> MAX_RARITY_THRESHOLD"
    using assms(1,3) describe_said(2) [of n c] by (auto simp: field_bounds_def between_def)
  then show ?thesis using assms(4) by (simp add: PhRareAircraft blank_subject_def)
qed (simp_all add: blank_subject_def)

text \<open>
  No accepted rule matches everything: of an aircraft of which nothing is known, and which
  has been seen here more often than any rarity threshold allows, every rule whose conditions were
  accepted says no. That is what refusing an empty condition set is for.
\<close>

theorem no_rule_matches_everything:
  assumes "model_validate typed_fields data = Inr (ar_conditions rule)" "MAX_RARITY_THRESHOLD < sightings"
  shows "\<not> matches radius (compile_rule rule w) (blank_subject icao at_ms sightings)"
proof -
  obtain raw where raw: "validate_conditions raw = Inr (ar_conditions rule)"
    using assms(1) by (auto simp: model_validate_def bindE_Inr_iff split: option.splits)
  note v = validate_conditions_Inr [OF raw]
  obtain p where "p \<in> set (describe (ar_conditions rule))" using v(3) list.set_sel(1) unfolding is_a_rule_def by blast
  with blank_fails [OF v(1,2) _ assms(2)] show ?thesis unfolding matches_phrases by blast
qed

text \<open>
  Property C17. An evaluation returns everything that matches and nothing else, each matching rule once
  and at most one built-in emergency, from the highest severity down and by rule number within a
  severity. With distinct rule numbers the keys are distinct, so no two proposals share an identity.
\<close>

theorem evaluation_is_complete_and_ordered:
  assumes "distinct (map (\<lambda>r. ar_id (cr_rule r)) rules)"
  shows "set (evaluate radius rules s) = set_option (emergency_match s) \<union>
       {rule_proposal (cr_rule r) | r. r \<in> set rules \<and> matches radius r s} \<and>
     sorted (map proposal_order (evaluate radius rules s)) \<and> distinct (map mp_key (evaluate radius rules s)) \<and>
     sorted (rev (map mp_severity (evaluate radius rules s)))"
proof -
  let ?found = "(case emergency_match s of None \<Rightarrow> [] | Some p \<Rightarrow> [p]) @
        map (\<lambda>r. rule_proposal (cr_rule r)) (filter (\<lambda>r. matches radius r s) rules)"
  have "distinct (map mp_key ?found)"
    using assms emergency_match_cases [of s]
    by (auto simp: distinct_map rule_proposal_def comp_def inj_on_def split: option.splits)
  moreover have "mset (evaluate radius rules s) = mset ?found" by (simp add: evaluate_def)
  ultimately have "distinct (map mp_key (evaluate radius rules s))"
    by (metis mset_map mset_eq_imp_distinct_iff)
  moreover have "sorted (rev (map mp_severity (evaluate radius rules s)))"
  proof -
    have "sorted_wrt (\<lambda>p q. mp_severity q \<le> mp_severity p) (evaluate radius rules s)"
      using evaluate_sorted [of radius rules s] unfolding sorted_map
      by (rule sorted_wrt_mono_rel [rotated]) (auto simp: proposal_order_def less_eq_alert_severity_def less_eq_prod_def)
    then show ?thesis by (simp add: sorted_wrt_rev sorted_wrt_map)
  qed
  ultimately show ?thesis using evaluate_sorted set_evaluate by (auto simp: image_def)
qed

lemma builtin_keys_match:
  "set EMERGENCY_BUILTIN_KEYS = (\<lambda>(kind, _). emergency_kind_builtin_key kind) ` set DECODER_EMERGENCY_MEANINGS"
  "distinct (map (\<lambda>(kind, _). emergency_kind_builtin_key kind) DECODER_EMERGENCY_MEANINGS)"
  by (auto simp: EMERGENCY_BUILTIN_KEYS_def EMERGENCY_MEANINGS_def DECODER_EMERGENCY_MEANINGS_def SQUAWK_FOR_KIND_def
      EMERGENCY_BUILTIN_PREFIX_def emergency_kind_builtin_key_def emergency_builtin_key_def)

lemma squawk_key:
  "map_of SQUAWK_EMERGENCY_KINDS q = Some kind \<Longrightarrow> emergency_kind_builtin_key kind = EMERGENCY_BUILTIN_PREFIX @ q"
  by (auto simp: SQUAWK_EMERGENCY_KINDS_def emergency_kind_builtin_key_def emergency_builtin_key_def
      SQUAWK_FOR_KIND_def split: if_splits)

lemma squawk_kinds_meant:
  "map_of SQUAWK_EMERGENCY_KINDS q = Some kind \<Longrightarrow> map_of DECODER_EMERGENCY_MEANINGS kind \<noteq> None"
  by (auto simp: SQUAWK_EMERGENCY_KINDS_def DECODER_EMERGENCY_MEANINGS_def split: if_splits)

lemma emergency_match_iff:
  "emergency_match s \<noteq> None \<longleftrightarrow> known (\<lambda>q. map_of SQUAWK_EMERGENCY_KINDS q \<noteq> None) (sj_squawk s) \<or>
     known (\<lambda>k. map_of DECODER_EMERGENCY_MEANINGS k \<noteq> None) (sj_decoder_emergency s)"
proof (cases "Option.bind (sj_squawk s) (map_of SQUAWK_EMERGENCY_KINDS)")
  case None
  then show ?thesis
    by (cases "sj_squawk s"; cases "sj_decoder_emergency s")
      (auto simp: emergency_match_def declared_emergency_def)
next
  case (Some kind)
  then obtain q where "sj_squawk s = Some q" "map_of SQUAWK_EMERGENCY_KINDS q = Some kind"
    by (auto simp: bind_eq_Some_conv)
  then show ?thesis
    using squawk_kinds_meant by (auto simp: emergency_match_def declared_emergency_def)
qed

text \<open>
  An emergency alerts whatever the configuration: the built-in part of an evaluation is
  the emergency match alone, whatever the rules and the alert radius; it exists exactly when the squawk
  is an emergency code or the decoder declares an emergency state, is always critical, and looks at
  nothing else. The six kinds have six different keys, and a squawk shares the key of its kind.
\<close>

theorem emergency_needs_no_rule:
  "filter is_builtin (evaluate radius rules s) = (case emergency_match s of None \<Rightarrow> [] | Some p \<Rightarrow> [p]) \<and>
     (emergency_match s \<noteq> None \<longleftrightarrow> known (\<lambda>q. map_of SQUAWK_EMERGENCY_KINDS q \<noteq> None) (sj_squawk s) \<or>
        known (\<lambda>k. map_of DECODER_EMERGENCY_MEANINGS k \<noteq> None) (sj_decoder_emergency s)) \<and>
     opt_all (\<lambda>p. mp_severity p = CriticalSev) (emergency_match s) \<and>
     distinct (map (\<lambda>(kind, _). emergency_kind_builtin_key kind) DECODER_EMERGENCY_MEANINGS) \<and>
     list_all (\<lambda>(q, kind). emergency_kind_builtin_key kind = EMERGENCY_BUILTIN_PREFIX @ q) SQUAWK_EMERGENCY_KINDS"
proof -
  have none: "filter is_builtin (map (\<lambda>r. rule_proposal (cr_rule r)) rs) = []" for rs
    by (induction rs) (simp_all add: is_builtin_def rule_proposal_def)
  then have "filter is_builtin (evaluate radius rules s) =
      sort_key proposal_order (filter is_builtin (case emergency_match s of None \<Rightarrow> [] | Some p \<Rightarrow> [p]))"
    unfolding evaluate_def filter_sort filter_append by (simp only: none append_Nil2)
  then have "filter is_builtin (evaluate radius rules s) = (case emergency_match s of None \<Rightarrow> [] | Some p \<Rightarrow> [p])"
    using emergency_match_cases [of s] by auto
  moreover have "opt_all (\<lambda>p. mp_severity p = CriticalSev) (emergency_match s)"
    using emergency_match_cases [of s] by auto
  moreover have "list_all (\<lambda>(q, kind). emergency_kind_builtin_key kind = EMERGENCY_BUILTIN_PREFIX @ q) SQUAWK_EMERGENCY_KINDS"
    by (simp add: SQUAWK_EMERGENCY_KINDS_def squawk_key)
  ultimately show ?thesis using emergency_match_iff builtin_keys_match(2) by blast
qed

section \<open>Witnesses\<close>

definition type_rule :: alert_rule where
  "type_rule = \<lparr>ar_id = 1, ar_name = ''Globemaster'', ar_severity = HighSev,
     ar_conditions = no_conditions\<lparr>rc_type_code := Some ''C17''\<rparr>, ar_description = None, ar_enabled = True,
     ar_template_key = None, ar_created_ms = 0, ar_updated_ms = 0\<rparr>"

definition globemaster :: alert_subject where
  "globemaster = (blank_subject ''ae1234'' 0 5000)\<lparr>sj_type_code := Some ''C17''\<rparr>"

lemma globemaster_matches: "matches (Some 50) (compile_rule type_rule None) globemaster"
  unfolding matches_phrases
  by (simp add: in_scope_def compile_rule_def type_rule_def no_conditions_def globemaster_def
      blank_subject_def on_ground_def describe_def say_def)

theorem unknown_is_no_quiet_yes_witness:
  "matches (Some 50) (compile_rule type_rule None) (globemaster\<lparr>sj_distance_nm := Some 20\<rparr>)"
  using unknown_is_no_quiet_yes [OF globemaster_matches, of "globemaster\<lparr>sj_distance_nm := Some 20\<rparr>"]
  by (simp add: less_known_def refines_def globemaster_def blank_subject_def)

theorem no_rule_matches_everything_witness:
  "\<not> matches None (compile_rule type_rule None) (blank_subject ''ae1234'' 0 5000)"
  by (rule no_rule_matches_everything [of type_reader type_document])
    (simp_all add: type_document_read type_rule_def MAX_RARITY_THRESHOLD_def)

theorem evaluation_is_complete_and_ordered_witness:
  "rule_proposal type_rule \<in> set (evaluate (Some 50) [compile_rule type_rule None] globemaster)"
  using evaluation_is_complete_and_ordered [of "[compile_rule type_rule None]" "Some 50" globemaster] globemaster_matches
  by (auto simp: compile_rule_def)

end
