(* ===== verification/Metadata.thy ===== *)
theory Metadata
  imports Operators
begin

text \<open>
  \<^verbatim>\<open>metadata/records.py\<close> and \<^verbatim>\<open>metadata/precedence.py\<close>: normalising one source row, and
  merging what the sources say about an airframe field by field. Fields are a datatype instead of
  attribute names; the extra \<^verbatim>\<open>flags\<close> of a record are left out; a raw value is the text \<^verbatim>\<open>str\<close> gives for it, or \<open>None\<close>.
\<close>

section \<open>Records\<close>

datatype md_field = Registration | TypeDesignator | Model | ManufactureYear | OperatorField | Owner

datatype md_value = Txt string | Num int

record aircraft_record =
  md_icao24 :: string
  md_registration :: "string option"
  md_type_code :: "string option"
  md_model :: "string option"
  md_manufacture_year :: "int option"
  md_operator_name :: "string option"
  md_owner :: "string option"
  md_military_flag :: "bool option"

definition MIN_MANUFACTURE_YEAR :: int where "MIN_MANUFACTURE_YEAR = 1900"

definition hex_digit :: "char \<Rightarrow> bool" where
  "hex_digit c = (let n = (of_char c :: nat) in 48 \<le> n \<and> n \<le> 57 \<or> 97 \<le> n \<and> n \<le> 102)"

definition icao24_ok :: "string \<Rightarrow> bool" where
  "icao24_ok s \<longleftrightarrow> length s = 6 \<and> list_all hex_digit s"

definition removeprefix :: "string \<Rightarrow> string \<Rightarrow> string" where
  "removeprefix p s = (if starts_with p s then drop (length p) s else s)"

definition normalize_icao24 :: "string \<Rightarrow> string result" where
  "normalize_icao24 raw =
     (let text = removeprefix ''~'' (removeprefix ''0x'' (str_lower (py_strip raw)))
      in if icao24_ok text then Inr text else Inl ValueError)"

definition normalize_text :: "string option \<Rightarrow> string option" where
  "normalize_text raw = (case raw of
      None \<Rightarrow> None
    | Some r \<Rightarrow> (let text = join_words (py_split r) in if text = '''' then None else Some text))"

text \<open>
  \<^verbatim>\<open>int\<close> of a text without white space: an optional sign and digits, where one underscore may
  stand between two digits. White space around it does not occur after normalisation.
\<close>

fun digits_value :: "bool \<Rightarrow> int \<Rightarrow> string \<Rightarrow> int option" where
  "digits_value after_digit acc [] = (if after_digit then Some acc else None)"
| "digits_value after_digit acc (c # cs) =
     (if digit c then digits_value True (10 * acc + (of_char c - 48)) cs
      else if c = CHR ''_'' \<and> after_digit \<and> cs \<noteq> [] then digits_value False acc cs
      else None)"

definition parse_int :: "string \<Rightarrow> int option" where
  "parse_int s = (case s of
      c # cs \<Rightarrow> if c = CHR ''-'' then map_option uminus (digits_value False 0 cs)
                else if c = CHR ''+'' then digits_value False 0 cs
                else digits_value False 0 s
    | [] \<Rightarrow> None)"

definition normalize_year :: "string option \<Rightarrow> int option" where
  "normalize_year raw = (case Option.bind (normalize_text raw) parse_int of
      Some year \<Rightarrow> if MIN_MANUFACTURE_YEAR \<le> year then Some year else None
    | None \<Rightarrow> None)"

definition normalize_type_code :: "string option \<Rightarrow> string option" where
  "normalize_type_code raw = map_option str_upper (normalize_text raw)"

definition normalize_record :: "string \<Rightarrow> string option \<Rightarrow> string option \<Rightarrow> string option \<Rightarrow> string option
    \<Rightarrow> string option \<Rightarrow> string option \<Rightarrow> bool option \<Rightarrow> aircraft_record result" where
  "normalize_record icao24 registration type_code model manufacture_year operator_name owner military_flag =
     bindE (normalize_icao24 icao24) (\<lambda>address. Inr
       \<lparr>md_icao24 = address, md_registration = normalize_text registration,
        md_type_code = normalize_type_code type_code, md_model = normalize_text model,
        md_manufacture_year = normalize_year manufacture_year,
        md_operator_name = normalize_text operator_name, md_owner = normalize_text owner,
        md_military_flag = military_flag\<rparr>)"

section \<open>Precedence\<close>

definition RESOLVED_FIELDS :: "md_field list" where
  "RESOLVED_FIELDS = [Registration, TypeDesignator, Model, ManufactureYear, OperatorField, Owner]"

definition UNRANKED :: int where "UNRANKED = 1000"

record field_priority =
  fp_ranks :: "(md_field \<times> int) list"
  fp_default :: int

definition field_rank :: "field_priority \<Rightarrow> md_field \<Rightarrow> int" where
  "field_rank p name = (case map_of (fp_ranks p) name of None \<Rightarrow> fp_default p | Some r \<Rightarrow> r)"

definition DEFAULT_FIELD_PRIORITIES :: "(string \<times> field_priority) list" where
  "DEFAULT_FIELD_PRIORITIES =
     [(''mictronics'', \<lparr>fp_ranks = [(Registration, 0), (TypeDesignator, 0), (Model, 0), (OperatorField, 0),
         (ManufactureYear, 1), (Owner, 1)], fp_default = UNRANKED\<rparr>),
      (''faa'', \<lparr>fp_ranks = [(Registration, 1), (TypeDesignator, 1), (Model, 1), (OperatorField, 1),
         (ManufactureYear, 0), (Owner, 0)], fp_default = UNRANKED\<rparr>),
      (''opensky'', \<lparr>fp_ranks = [(Model, 2), (ManufactureYear, 2), (OperatorField, 2), (Owner, 2)],
         fp_default = UNRANKED\<rparr>)]"

record source_claim =
  sc_source :: string
  sc_record :: aircraft_record

fun claim_value :: "md_field \<Rightarrow> source_claim \<Rightarrow> md_value option" where
  "claim_value Registration c = map_option Txt (md_registration (sc_record c))"
| "claim_value TypeDesignator c = map_option Txt (md_type_code (sc_record c))"
| "claim_value Model c = map_option Txt (md_model (sc_record c))"
| "claim_value ManufactureYear c = map_option Num (md_manufacture_year (sc_record c))"
| "claim_value OperatorField c = map_option Txt (md_operator_name (sc_record c))"
| "claim_value Owner c = map_option Txt (md_owner (sc_record c))"

type_synonym precedence_model = "(string \<times> field_priority) list"

definition rank_source :: "precedence_model \<Rightarrow> string \<Rightarrow> md_field \<Rightarrow> int" where
  "rank_source priorities source name = (case map_of priorities source of
      None \<Rightarrow> UNRANKED
    | Some p \<Rightarrow> field_rank p name)"

text \<open>Tuples compare by rank and then by the name of the source.\<close>

definition key_less :: "int \<times> string \<Rightarrow> int \<times> string \<Rightarrow> bool" where
  "key_less a b \<longleftrightarrow> fst a < fst b \<or> fst a = fst b \<and> snd a < snd b"

fun winner_from :: "precedence_model \<Rightarrow> md_field \<Rightarrow> source_claim option \<Rightarrow> source_claim list \<Rightarrow> source_claim option" where
  "winner_from priorities name best [] = best"
| "winner_from priorities name best (c # cs) =
     (if claim_value name c = None then winner_from priorities name best cs
      else case best of
        None \<Rightarrow> winner_from priorities name (Some c) cs
      | Some b \<Rightarrow> winner_from priorities name
          (if key_less (rank_source priorities (sc_source c) name, sc_source c)
                       (rank_source priorities (sc_source b) name, sc_source b) then Some c else Some b) cs)"

definition winner :: "precedence_model \<Rightarrow> md_field \<Rightarrow> source_claim list \<Rightarrow> source_claim option" where
  "winner priorities name claims = winner_from priorities name None claims"

record resolved_metadata =
  rm_icao24 :: string
  rm_updated_ms :: int
  rm_registration :: "string option"
  rm_registration_src :: "string option"
  rm_type_code :: "string option"
  rm_type_code_src :: "string option"
  rm_model :: "string option"
  rm_model_src :: "string option"
  rm_manufacture_year :: "int option"
  rm_year_src :: "string option"
  rm_operator_name :: "string option"
  rm_operator_src :: "string option"
  rm_operator_group_id :: "nat option"
  rm_owner :: "string option"
  rm_owner_src :: "string option"

definition pick_text :: "precedence_model \<Rightarrow> md_field \<Rightarrow> source_claim list \<Rightarrow> string option \<times> string option" where
  "pick_text priorities name claims = (case winner priorities name claims of
      None \<Rightarrow> (None, None)
    | Some w \<Rightarrow> (case claim_value name w of Some (Txt t) \<Rightarrow> Some t | _ \<Rightarrow> None, Some (sc_source w)))"

definition pick_int :: "precedence_model \<Rightarrow> md_field \<Rightarrow> source_claim list \<Rightarrow> int option \<times> string option" where
  "pick_int priorities name claims = (case winner priorities name claims of
      None \<Rightarrow> (None, None)
    | Some w \<Rightarrow> (case claim_value name w of Some (Num n) \<Rightarrow> Some n | _ \<Rightarrow> None, Some (sc_source w)))"

definition resolve :: "precedence_model \<Rightarrow> string \<Rightarrow> source_claim list \<Rightarrow> int \<Rightarrow> nat option \<Rightarrow> resolved_metadata" where
  "resolve priorities icao24 claims updated_ms operator_group_id =
     (let (registration, registration_src) = pick_text priorities Registration claims;
          (type_code, type_code_src) = pick_text priorities TypeDesignator claims;
          (model, model_src) = pick_text priorities Model claims;
          (manufacture_year, year_src) = pick_int priorities ManufactureYear claims;
          (operator_name, operator_src) = pick_text priorities OperatorField claims;
          (owner, owner_src) = pick_text priorities Owner claims
      in \<lparr>rm_icao24 = icao24, rm_updated_ms = updated_ms, rm_registration = registration,
          rm_registration_src = registration_src, rm_type_code = type_code, rm_type_code_src = type_code_src,
          rm_model = model, rm_model_src = model_src, rm_manufacture_year = manufacture_year,
          rm_year_src = year_src, rm_operator_name = operator_name, rm_operator_src = operator_src,
          rm_operator_group_id = operator_group_id, rm_owner = owner, rm_owner_src = owner_src\<rparr>)"

fun resolved_value :: "md_field \<Rightarrow> resolved_metadata \<Rightarrow> md_value option" where
  "resolved_value Registration r = map_option Txt (rm_registration r)"
| "resolved_value TypeDesignator r = map_option Txt (rm_type_code r)"
| "resolved_value Model r = map_option Txt (rm_model r)"
| "resolved_value ManufactureYear r = map_option Num (rm_manufacture_year r)"
| "resolved_value OperatorField r = map_option Txt (rm_operator_name r)"
| "resolved_value Owner r = map_option Txt (rm_owner r)"

text \<open>\<^verbatim>\<open>SRC_COLUMNS\<close>: the provenance column of a field.\<close>

fun resolved_src :: "md_field \<Rightarrow> resolved_metadata \<Rightarrow> string option" where
  "resolved_src Registration r = rm_registration_src r"
| "resolved_src TypeDesignator r = rm_type_code_src r"
| "resolved_src Model r = rm_model_src r"
| "resolved_src ManufactureYear r = rm_year_src r"
| "resolved_src OperatorField r = rm_operator_src r"
| "resolved_src Owner r = rm_owner_src r"

fun PROVENANCE_KEYS :: "md_field \<Rightarrow> string" where
  "PROVENANCE_KEYS Registration = ''registration''"
| "PROVENANCE_KEYS TypeDesignator = ''type_code''"
| "PROVENANCE_KEYS Model = ''model''"
| "PROVENANCE_KEYS ManufactureYear = ''manufacture_year''"
| "PROVENANCE_KEYS OperatorField = ''operator''"
| "PROVENANCE_KEYS Owner = ''owner''"

definition is_empty_row :: "resolved_metadata \<Rightarrow> bool" where
  "is_empty_row r \<longleftrightarrow> list_all (\<lambda>name. resolved_value name r = None) RESOLVED_FIELDS"

definition resolved_provenance :: "resolved_metadata \<Rightarrow> (string \<times> string) list" where
  "resolved_provenance r = List.map_filter
     (\<lambda>name. case resolved_src name r of
        Some source \<Rightarrow> if resolved_value name r \<noteq> None then Some (PROVENANCE_KEYS name, source) else None
      | None \<Rightarrow> None) RESOLVED_FIELDS"

section \<open>Lemmas\<close>

lemma key_less_linear: "\<not> key_less a b \<Longrightarrow> a \<noteq> b \<Longrightarrow> key_less b a"
  by (cases a; cases b) (auto simp: key_less_def)

lemma key_less_trans: "key_less a b \<Longrightarrow> key_less b c \<Longrightarrow> key_less a c"
  by (auto simp: key_less_def)

lemma key_less_asym: "key_less a b \<Longrightarrow> \<not> key_less b a"
  by (auto simp: key_less_def)

lemma key_less_irrefl [simp]: "\<not> key_less a a"
  by (simp add: key_less_def)

definition precedence_key :: "precedence_model \<Rightarrow> md_field \<Rightarrow> source_claim \<Rightarrow> int \<times> string" where
  "precedence_key priorities name c = (rank_source priorities (sc_source c) name, sc_source c)"

definition claims_field :: "md_field \<Rightarrow> source_claim \<Rightarrow> bool" where
  "claims_field name c \<longleftrightarrow> claim_value name c \<noteq> None"

lemma winner_from_spec:
  fixes cs :: "source_claim list"
  assumes "\<And>b. best = Some b \<Longrightarrow> claims_field name b"
  defines "pool \<equiv> set_option best \<union> {c \<in> set cs. claims_field name c}"
  shows "case winner_from priorities name best cs of
      None \<Rightarrow> pool = {}
    | Some w \<Rightarrow> w \<in> pool \<and> (\<forall>c \<in> pool. \<not> key_less (precedence_key priorities name c) (precedence_key priorities name w))"
  using assms(1) unfolding pool_def
proof (induction cs arbitrary: best)
  case Nil
  then show ?case by (cases best) simp_all
next
  case (Cons c cs)
  show ?case
  proof (cases "claims_field name c")
    case False
    then have same: "set_option best \<union> {x \<in> set (c # cs). claims_field name x} =
        set_option best \<union> {x \<in> set cs. claims_field name x}" by auto
    from Cons.IH [OF Cons.prems] False show ?thesis unfolding same by (simp add: claims_field_def)
  next
    case True
    show ?thesis
    proof (cases best)
      case None
      have same: "set_option best \<union> {x \<in> set (c # cs). claims_field name x} =
          set_option (Some c) \<union> {x \<in> set cs. claims_field name x}" using True None by auto
      have step: "winner_from priorities name best (c # cs) = winner_from priorities name (Some c) cs"
        using True None by (auto simp: claims_field_def)
      from Cons.IH [of "Some c"] True show ?thesis unfolding same step by auto
    next
      case (Some b)
      let ?m = "if key_less (precedence_key priorities name c) (precedence_key priorities name b) then c else b"
      let ?o = "if key_less (precedence_key priorities name c) (precedence_key priorities name b) then b else c"
      have b: "claims_field name b" using Cons.prems Some by simp
      have step: "winner_from priorities name best (c # cs) = winner_from priorities name (Some ?m) cs"
        using True by (auto simp: Some claims_field_def precedence_key_def)
      have pool: "set_option best \<union> {x \<in> set (c # cs). claims_field name x} =
          insert ?o (set_option (Some ?m) \<union> {x \<in> set cs. claims_field name x})" using True Some by auto
      have not_less: "\<not> key_less (precedence_key priorities name ?o) (precedence_key priorities name ?m)"
        by (simp add: key_less_asym)
      from Cons.IH [of "Some ?m"] True b
      have IH: "case winner_from priorities name (Some ?m) cs of
          None \<Rightarrow> set_option (Some ?m) \<union> {x \<in> set cs. claims_field name x} = {}
        | Some w \<Rightarrow> w \<in> set_option (Some ?m) \<union> {x \<in> set cs. claims_field name x} \<and>
            (\<forall>x \<in> set_option (Some ?m) \<union> {x \<in> set cs. claims_field name x}.
               \<not> key_less (precedence_key priorities name x) (precedence_key priorities name w))" by auto
      show ?thesis
      proof (cases "winner_from priorities name (Some ?m) cs")
        case None
        with IH show ?thesis by simp
      next
        case (Some w)
        with IH have w: "\<not> key_less (precedence_key priorities name ?m) (precedence_key priorities name w)" by auto
        have "\<not> key_less (precedence_key priorities name ?o) (precedence_key priorities name w)"
          using w not_less key_less_linear key_less_trans by metis
        with IH Some show ?thesis unfolding step pool by auto
      qed
    qed
  qed
qed

lemma winner_None: "winner priorities name claims = None \<longleftrightarrow> (\<forall>c \<in> set claims. \<not> claims_field name c)"
  using winner_from_spec [where best = None and name = name and priorities = priorities and cs = claims] by (auto simp: winner_def split: option.splits)

lemma winner_Some:
  "winner priorities name claims = Some w \<Longrightarrow> w \<in> set claims \<and> claims_field name w \<and>
     (\<forall>c \<in> set claims. claims_field name c \<longrightarrow> \<not> key_less (precedence_key priorities name c) (precedence_key priorities name w))"
  using winner_from_spec [where best = None and name = name and priorities = priorities and cs = claims] by (auto simp: winner_def split: option.splits)

lemma pick_value:
  "name \<noteq> ManufactureYear \<Longrightarrow> map_option Txt (fst (pick_text priorities name claims)) =
     Option.bind (winner priorities name claims) (claim_value name)"
  "map_option Num (fst (pick_int priorities ManufactureYear claims)) =
     Option.bind (winner priorities ManufactureYear claims) (claim_value ManufactureYear)"
  by (cases name; auto simp: pick_text_def split: option.split) (auto simp: pick_int_def split: option.split)

lemma pick_src:
  "snd (pick_text priorities name claims) = map_option sc_source (winner priorities name claims)"
  "snd (pick_int priorities name claims) = map_option sc_source (winner priorities name claims)"
  by (auto simp: pick_text_def pick_int_def split: option.split)

lemma resolve_field:
  "resolved_value name (resolve priorities icao24 claims updated_ms group_id) =
     Option.bind (winner priorities name claims) (claim_value name)"
  "resolved_src name (resolve priorities icao24 claims updated_ms group_id) =
     map_option sc_source (winner priorities name claims)"
  using pick_value pick_src by (cases name; simp add: resolve_def split_beta)+

lemma removeprefix_id: "s \<noteq> [] \<Longrightarrow> hd s \<noteq> hd p \<Longrightarrow> p \<noteq> [] \<Longrightarrow> removeprefix p s = s"
  by (cases s; cases p) (auto simp: removeprefix_def starts_with_def)

lemma strip_id: "list_all (\<lambda>c. \<not> is_space c) s \<Longrightarrow> py_strip s = s"
proof -
  have id: "dropWhile is_space t = t" if "list_all (\<lambda>c. \<not> is_space c) t" for t
    using that by (cases t) auto
  assume "list_all (\<lambda>c. \<not> is_space c) s"
  then show ?thesis by (simp add: py_strip_def id)
qed

lemma hex_digit_char: "hex_digit c \<Longrightarrow> \<not> is_space c \<and> latin_lower c = c \<and> c \<noteq> CHR ''x'' \<and> c \<noteq> CHR ''~''"
  by (auto simp: hex_digit_def is_space_def latin_lower_def upper_letter_def Let_def)

lemma normalize_icao24_ok:
  assumes "icao24_ok s"
  shows "normalize_icao24 s = Inr s"
proof -
  have hex: "list_all hex_digit s" and len: "length s = 6" using assms by (auto simp: icao24_ok_def)
  have "py_strip s = s" by (rule strip_id) (use hex hex_digit_char in \<open>auto simp: list_all_iff\<close>)
  moreover have "str_lower s = s"
    unfolding str_lower_def by (rule map_idI) (use hex hex_digit_char in \<open>auto simp: list_all_iff\<close>)
  moreover have "removeprefix ''0x'' s = s"
    using hex hex_digit_char len by (cases s; cases "tl s") (auto simp: removeprefix_def starts_with_def)
  moreover have "removeprefix ''~'' s = s"
    using hex hex_digit_char len by (cases s) (auto simp: removeprefix_def starts_with_def)
  ultimately show ?thesis using assms by (simp add: normalize_icao24_def)
qed

lemma normalize_text_Some:
  "normalize_text raw = Some text \<Longrightarrow> text \<noteq> '''' \<and> py_split text \<noteq> [] \<and> text = join_words (py_split text)"
proof -
  assume a: "normalize_text raw = Some text"
  then obtain r where r: "raw = Some r" "text = join_words (py_split r)" "text \<noteq> ''''"
    by (auto simp: normalize_text_def Let_def split: option.splits if_splits)
  have "py_split text = py_split r"
    unfolding r(2) py_split_def by (rule runs_join) (use runs_ne in \<open>auto simp: py_split_def\<close>)
  with r show ?thesis by (auto simp: py_split_def)
qed

lemma normalize_text_idem: "normalize_text raw = Some t \<Longrightarrow> normalize_text (Some t) = Some t"
  using normalize_text_Some [of raw t] by (auto simp: normalize_text_def Let_def)

section \<open>Properties\<close>

text \<open>
  Property C22. Precedence picks, for every field, the claim with the lowest rank and, within a rank, the
  lowest source name among the sources that say something: silence never wins, and the order in which
  the claims arrive does not matter when each source speaks once.
\<close>

theorem precedence_picks_the_best:
  assumes "mset claims' = mset claims" "distinct (map sc_source claims)"
  shows "(case winner priorities name claims of
       None \<Rightarrow> \<forall>c \<in> set claims. claim_value name c = None
     | Some w \<Rightarrow> w \<in> set claims \<and> claim_value name w \<noteq> None \<and>
         (\<forall>c \<in> set claims. claim_value name c \<noteq> None \<longrightarrow> c \<noteq> w \<longrightarrow>
            key_less (precedence_key priorities name w) (precedence_key priorities name c))) \<and>
     winner priorities name claims' = winner priorities name claims"
proof -
  have sets: "set claims' = set claims" using assms(1) by (metis set_mset_mset)
  have inj: "c = d" if "c \<in> set claims" "d \<in> set claims" "precedence_key priorities name c = precedence_key priorities name d" for c d
    using that assms(2) by (auto simp: precedence_key_def distinct_map inj_on_def)
  have best: "key_less (precedence_key priorities name w) (precedence_key priorities name c)"
    if "winner priorities name claims = Some w" "c \<in> set claims" "claims_field name c" "c \<noteq> w" for w c
    using winner_Some [OF that(1)] that key_less_linear inj by metis
  have "winner priorities name claims' = winner priorities name claims"
  proof (cases "winner priorities name claims")
    case None
    then show ?thesis using winner_None [of priorities name] sets by metis
  next
    case (Some w)
    then have w: "w \<in> set claims" "claims_field name w" using winner_Some by blast+
    then obtain w' where w': "winner priorities name claims' = Some w'"
      using winner_None [of priorities name claims'] sets by (cases "winner priorities name claims'") auto
    have "w' = w" using winner_Some [OF w'] best [OF Some] w sets key_less_linear by metis
    with w' Some show ?thesis by simp
  qed
  moreover have "case winner priorities name claims of
       None \<Rightarrow> \<forall>c \<in> set claims. claim_value name c = None
     | Some w \<Rightarrow> w \<in> set claims \<and> claim_value name w \<noteq> None \<and>
         (\<forall>c \<in> set claims. claim_value name c \<noteq> None \<longrightarrow> c \<noteq> w \<longrightarrow>
            key_less (precedence_key priorities name w) (precedence_key priorities name c))"
    using winner_None [of priorities name claims] winner_Some [of priorities name claims] best
    by (auto simp: claims_field_def split: option.split)
  ultimately show ?thesis by blast
qed

text \<open>
  A resolved field is empty exactly when no source claims it, carries a source exactly when
  it has a value, and then holds the value that very source claims: sparse sources never blank richer
  ones, and provenance never names a source for a field that has no value.
\<close>

theorem resolution_is_justified:
  fixes priorities icao24 claims updated_ms group_id
  defines "r \<equiv> resolve priorities icao24 claims updated_ms group_id"
  shows "(resolved_value name r = None \<longleftrightarrow> (\<forall>c \<in> set claims. claim_value name c = None)) \<and>
     (resolved_src name r = None \<longleftrightarrow> resolved_value name r = None) \<and>
     (\<forall>source. resolved_src name r = Some source \<longrightarrow>
        (\<exists>c \<in> set claims. sc_source c = source \<and> resolved_value name r = claim_value name c))"
  unfolding r_def resolve_field
  using winner_None [of priorities name claims] winner_Some [of priorities name claims]
  by (cases "winner priorities name claims") (auto simp: claims_field_def)

text \<open>
  OpenSky fills gaps only: with the shipped priorities, a field resolved from OpenSky is one
  that neither Mictronics nor the FAA registry claims, whatever the claims and their order.
\<close>

theorem opensky_only_fills_gaps:
  assumes "resolved_src name (resolve DEFAULT_FIELD_PRIORITIES icao24 claims updated_ms group_id) = Some ''opensky''"
    and "c \<in> set claims" "sc_source c = ''mictronics'' \<or> sc_source c = ''faa''"
  shows "claim_value name c = None"
proof (rule ccontr)
  assume "claim_value name c \<noteq> None"
  then have c: "claims_field name c" by (simp add: claims_field_def)
  obtain w where w: "winner DEFAULT_FIELD_PRIORITIES name claims = Some w" "sc_source w = ''opensky''"
    using assms(1) unfolding resolve_field by auto
  have "fst (precedence_key DEFAULT_FIELD_PRIORITIES name c) \<le> 1"
    using assms(3) by (cases name) (auto simp: precedence_key_def rank_source_def field_rank_def DEFAULT_FIELD_PRIORITIES_def)
  moreover have "2 \<le> fst (precedence_key DEFAULT_FIELD_PRIORITIES name w)"
    using w(2) by (cases name) (simp_all add: precedence_key_def rank_source_def field_rank_def DEFAULT_FIELD_PRIORITIES_def UNRANKED_def)
  ultimately have "key_less (precedence_key DEFAULT_FIELD_PRIORITIES name c) (precedence_key DEFAULT_FIELD_PRIORITIES name w)"
    by (simp add: key_less_def)
  with winner_Some [OF w(1)] assms(2) c show False by blast
qed

text \<open>
  A normalised record is stable: its address is six lower-case hexadecimal digits that
  normalise to themselves, its texts are never empty and normalise to themselves, and its year, if it
  has one, is not before 1900.
\<close>

theorem normalized_record_stable:
  assumes "normalize_record icao24 registration type_code model year operator_name owner military = Inr r"
  shows "icao24_ok (md_icao24 r) \<and> normalize_icao24 (md_icao24 r) = Inr (md_icao24 r) \<and>
     list_all (opt_all (\<lambda>t. t \<noteq> '''' \<and> normalize_text (Some t) = Some t))
       [md_registration r, md_model r, md_operator_name r, md_owner r] \<and>
     opt_all (\<lambda>y. MIN_MANUFACTURE_YEAR \<le> y) (md_manufacture_year r)"
proof -
  have texts: "opt_all (\<lambda>t. t \<noteq> '''' \<and> normalize_text (Some t) = Some t) (normalize_text raw)" for raw
    using normalize_text_Some normalize_text_idem by (cases "normalize_text raw") auto
  have year: "opt_all (\<lambda>y. MIN_MANUFACTURE_YEAR \<le> y) (normalize_year raw)" for raw
    by (auto simp: normalize_year_def split: option.split)
  from assms obtain address where "normalize_icao24 icao24 = Inr address" and r: "md_icao24 r = address"
      "md_registration r = normalize_text registration" "md_model r = normalize_text model"
      "md_operator_name r = normalize_text operator_name" "md_owner r = normalize_text owner"
      "md_manufacture_year r = normalize_year year"
    by (auto simp: normalize_record_def bindE_Inr_iff)
  then have "icao24_ok address" by (auto simp: normalize_icao24_def Let_def split: if_splits)
  then show ?thesis using normalize_icao24_ok texts year unfolding r by simp
qed

section \<open>Witnesses\<close>

definition sample_record :: aircraft_record where
  "sample_record = \<lparr>md_icao24 = ''ae1234'', md_registration = None, md_type_code = Some ''C17'', md_model = None,
     md_manufacture_year = Some 1995, md_operator_name = None, md_owner = None, md_military_flag = None\<rparr>"

definition sample_claims :: "source_claim list" where
  "sample_claims = [\<lparr>sc_source = ''opensky'', sc_record = sample_record\<lparr>md_owner := Some ''USAF''\<rparr>\<rparr>,
     \<lparr>sc_source = ''faa'', sc_record = sample_record\<rparr>]"

theorem precedence_picks_the_best_witness:
  "winner DEFAULT_FIELD_PRIORITIES ManufactureYear (rev sample_claims) =
     winner DEFAULT_FIELD_PRIORITIES ManufactureYear sample_claims"
  using precedence_picks_the_best [where claims' = "rev sample_claims" and claims = sample_claims]
  by (simp add: sample_claims_def)

theorem opensky_only_fills_gaps_witness:
  "claim_value Owner \<lparr>sc_source = ''faa'', sc_record = sample_record\<rparr> = None"
  by (rule opensky_only_fills_gaps [of Owner "''ae1234''" sample_claims 0 None])
    (simp_all add: sample_claims_def sample_record_def resolve_def pick_text_def pick_int_def winner_def Let_def)

lemma sample_normalized:
  "normalize_record '' ~AE1234 '' None (Some ''c17'') None (Some ''1995'') None None None = Inr sample_record"
  by code_simp

theorem normalized_record_stable_witness: "normalize_icao24 (md_icao24 sample_record) = Inr (md_icao24 sample_record)"
  using normalized_record_stable [OF sample_normalized] by blast

end
