(* ===== verification/AlertEngine.thy ===== *)
theory AlertEngine
  imports AlertTables AlertEvaluator Metadata Worker
begin

text \<open>
  \<^verbatim>\<open>alerts/engine.py\<close>: one evaluation cycle, from the events of the live store to the rows it
  writes, the severities it raises on the open sightings and the facts it announces. The live store, the
  metadata views and the watchlist index are what the cycle reads of them; the persistence worker is
  the one of \<^theory_text>\<open>Worker\<close>. A cycle runs without interruption except for the write, whose success or
  failure is an input. Listeners receive the facts; what they do with them is theirs.
\<close>

section \<open>What the engine reads\<close>

record metadata_view =
  mv_icao24 :: string
  mv_metadata :: "resolved_metadata option"
  mv_sighting_count :: "int option"
  mv_type_count :: "int option"
  mv_operator_group :: "string option"
  mv_evidence :: evidence
  mv_classification :: classification

record alert_world =
  wd_live :: "live_aircraft list"
  wd_views :: "(string \<times> metadata_view) list"
  wd_watchlists :: "string \<Rightarrow> string list"
  wd_now_ms :: int
  wd_write_ok :: bool

definition live_record :: "alert_world \<Rightarrow> string \<Rightarrow> live_aircraft option" where
  "live_record world icao = find (\<lambda>a. la_icao a = icao) (wd_live world)"

definition subject_for :: "alert_world \<Rightarrow> worker \<Rightarrow> string \<Rightarrow> alert_subject option" where
  "subject_for world w icao =
     (case live_record world icao of
        None \<Rightarrow> None
      | Some record \<Rightarrow>
          (let view = map_of (wd_views world) icao;
               resolved = Option.bind view mv_metadata;
               active = sighting_for icao w
           in Some \<lparr>sj_icao = icao, sj_at_ms = wd_now_ms world,
                sj_sighting_id = Option.bind active sg_sighting_id,
                sj_aircraft_id = Option.bind active sg_aircraft_id,
                sj_squawk = la_squawk record, sj_decoder_emergency = la_decoder_emergency record,
                sj_distance_nm = la_distance_nm record, sj_altitude_ft = la_altitude_ft record,
                sj_ground_state = la_ground_state record, sj_ground_speed_kt = la_ground_speed_kt record,
                sj_vertical_rate_fpm = la_vertical_rate_fpm record,
                sj_emitter_category = la_emitter_category record,
                sj_latitude = map_option pos_lat (la_position record),
                sj_longitude = map_option pos_lon (la_position record),
                sj_callsign = la_callsign record,
                sj_classification = (case view of None \<Rightarrow> unknown_classification | Some v \<Rightarrow> mv_classification v),
                sj_type_code = Option.bind resolved rm_type_code,
                sj_model = Option.bind resolved rm_model,
                sj_registration = Option.bind resolved rm_registration,
                sj_watchlists = wd_watchlists world icao,
                sj_sightings_here = (case view of None \<Rightarrow> 1
                   | Some v \<Rightarrow> (case mv_sighting_count v of None \<Rightarrow> 0 | Some n \<Rightarrow> n) + 1),
                sj_type_aircraft_here = map_option (max 1) (Option.bind view mv_type_count),
                sj_metadata_resolved = view \<noteq> None\<rparr>))"

section \<open>State\<close>

record interesting_state =
  is_severity :: alert_severity
  is_reasons :: "string list"

record aircraft_alert_state =
  st_sighting_id :: "int option"
  st_fired :: "(match_key \<times> alert_severity) list"
  st_pending :: "(match_key \<times> match_proposal) list"
  st_interesting :: "interesting_state option"
  st_awaiting_metadata :: bool

definition new_alert_state :: aircraft_alert_state where
  "new_alert_state = \<lparr>st_sighting_id = None, st_fired = [], st_pending = [], st_interesting = None,
     st_awaiting_metadata = True\<rparr>"

type_synonym alert_states = "(string \<times> aircraft_alert_state) list"

record alert_engine =
  en_rules :: "compiled_rule list"
  en_states :: alert_states
  en_adopted :: "(int \<times> (match_key \<times> alert_severity) list) list"
  en_radius :: "real option"

definition new_engine :: "real option \<Rightarrow> alert_engine" where
  "new_engine radius = \<lparr>en_rules = [], en_states = [], en_adopted = [], en_radius = radius\<rparr>"

definition set_rules :: "compiled_rule list \<Rightarrow> alert_engine \<Rightarrow> alert_engine" where
  "set_rules rules e = e\<lparr>en_rules := rules\<rparr>"

definition set_alert_radius :: "real option \<Rightarrow> alert_engine \<Rightarrow> alert_engine" where
  "set_alert_radius radius e = e\<lparr>en_radius := radius\<rparr>"

definition adopt_open_matches :: "(int \<times> (match_key \<times> alert_severity) list) list \<Rightarrow> alert_engine \<Rightarrow> alert_engine" where
  "adopt_open_matches keys e = e\<lparr>en_adopted := keys\<rparr>"

definition interesting :: "alert_engine \<Rightarrow> string \<Rightarrow> interesting_state option" where
  "interesting e icao = Option.bind (map_of (en_states e) icao) st_interesting"

definition tracked :: "alert_engine \<Rightarrow> nat" where
  "tracked e = length (en_states e)"

section \<open>Which aircraft a cycle looks at\<close>

fun collect_events :: "live_event list \<Rightarrow> string list \<Rightarrow> alert_states \<Rightarrow> string list \<times> alert_states" where
  "collect_events [] wanted states = (wanted, states)"
| "collect_events (AircraftRemoved a t # es) wanted states =
     collect_events es (removeAll (la_icao a) wanted) (AList.delete (la_icao a) states)"
| "collect_events (AircraftStale a t # es) wanted states = collect_events es wanted states"
| "collect_events (e # es) wanted states =
     collect_events es (if event_icao e \<in> set wanted then wanted else wanted @ [event_icao e]) states"

definition owes_evaluation :: "aircraft_alert_state \<Rightarrow> bool" where
  "owes_evaluation st \<longleftrightarrow> st_awaiting_metadata st \<or> st_pending st \<noteq> []"

definition collect :: "live_event list \<Rightarrow> alert_states \<Rightarrow> string list \<times> alert_states" where
  "collect events states =
     (let (wanted, states') = collect_events events [] states
      in (wanted @ filter (\<lambda>icao. icao \<notin> set wanted)
            (map fst (filter (\<lambda>(icao, st). owes_evaluation st) states')), states'))"

definition resync_alerts :: "alert_world \<Rightarrow> alert_states \<Rightarrow> string list \<times> alert_states" where
  "resync_alerts world states =
     (let live = map la_icao (wd_live world)
      in (sort (remdups live), filter (\<lambda>(icao, st). icao \<in> set live) states))"

section \<open>Evaluating\<close>

definition interesting_of :: "match_proposal list \<Rightarrow> interesting_state option" where
  "interesting_of proposals = (case proposals of
      [] \<Rightarrow> None
    | p # ps \<Rightarrow> Some \<lparr>is_severity = first_max severity_rank (mp_severity p) (map mp_severity ps),
        is_reasons = map mp_reason proposals\<rparr>)"

definition state_for :: "alert_engine \<Rightarrow> string \<Rightarrow> alert_subject \<Rightarrow> aircraft_alert_state" where
  "state_for e icao s =
     (let st = (case map_of (en_states e) icao of None \<Rightarrow> new_alert_state | Some st \<Rightarrow> st);
          st' = (if sj_sighting_id s \<noteq> st_sighting_id st
                 then st\<lparr>st_fired := (case sj_sighting_id s of
                            None \<Rightarrow> []
                          | Some i \<Rightarrow> (case map_of (en_adopted e) i of None \<Rightarrow> [] | Some keys \<Rightarrow> keys)),
                         st_sighting_id := sj_sighting_id s\<rparr>
                 else st)
      in st'\<lparr>st_awaiting_metadata := \<not> sj_metadata_resolved s\<rparr>)"

definition setdefault :: "'a \<Rightarrow> 'b \<Rightarrow> ('a \<times> 'b) list \<Rightarrow> ('a \<times> 'b) list" where
  "setdefault k v al = (if map_of al k = None then al @ [(k, v)] else al)"

definition hold_proposals :: "match_proposal list \<Rightarrow> aircraft_alert_state \<Rightarrow> aircraft_alert_state" where
  "hold_proposals proposals st = st\<lparr>st_pending :=
     fold (\<lambda>p al. if map_of (st_fired st) (mp_key p) = None then setdefault (mp_key p) p al else al)
       proposals (st_pending st)\<rparr>"

definition evaluate_one :: "alert_world \<Rightarrow> worker \<Rightarrow> string \<Rightarrow> alert_engine \<times> (string \<times> match_proposal) list
    \<Rightarrow> alert_engine \<times> (string \<times> match_proposal) list" where
  "evaluate_one world w icao = (\<lambda>(e, owed).
     case subject_for world w icao of
       None \<Rightarrow> (e\<lparr>en_states := AList.delete icao (en_states e)\<rparr>, owed)
     | Some s \<Rightarrow>
         (let proposals = evaluate (en_radius e) (en_rules e) s;
              st = hold_proposals proposals ((state_for e icao s)\<lparr>st_interesting := interesting_of proposals\<rparr>)
          in (e\<lparr>en_states := AList.update icao st (en_states e)\<rparr>,
              owed @ map (\<lambda>(k, p). (icao, p)) (st_pending st))))"

definition evaluate_all :: "alert_world \<Rightarrow> worker \<Rightarrow> string list \<Rightarrow> alert_engine
    \<Rightarrow> alert_engine \<times> (string \<times> match_proposal) list" where
  "evaluate_all world w icaos e = fold (evaluate_one world w) icaos (e, [])"

section \<open>The write leg\<close>

definition sighting_ids :: "worker \<Rightarrow> string \<Rightarrow> (int \<times> int) option" where
  "sighting_ids w icao = Option.bind (sighting_for icao w) (\<lambda>s.
     case (sg_sighting_id s, sg_aircraft_id s) of (Some i, Some a) \<Rightarrow> Some (i, a) | _ \<Rightarrow> None)"

type_synonym write_item = "string \<times> match_proposal \<times> new_match"

definition writable :: "alert_world \<Rightarrow> worker \<Rightarrow> (string \<times> match_proposal) list \<Rightarrow> write_item list" where
  "writable world w owed = List.map_filter (\<lambda>(icao, p). case sighting_ids w icao of
      None \<Rightarrow> None
    | Some (sighting_id, aircraft_id) \<Rightarrow> Some (icao, p,
        \<lparr>nm_sighting_id = sighting_id, nm_aircraft_id = aircraft_id, nm_matched_ms = wd_now_ms world,
         nm_severity = mp_severity p, nm_reason = mp_reason p, nm_rule_id = mp_rule_id p,
         nm_builtin_key = mp_builtin_key p\<rparr>)) owed"

record alert_match_fact =
  af_match_id :: int
  af_matched_ms :: int
  af_severity :: string
  af_reason :: string
  af_aircraft_id :: int
  af_sighting_id :: int
  af_icao24 :: string
  af_rule_id :: "int option"
  af_rule_name :: "string option"
  af_builtin_key :: "string option"
  af_emergency_source :: "string option"
  af_emergency_kind :: "string option"
  af_squawk :: "string option"
  af_callsign :: "string option"
  af_registration :: "string option"
  af_type_code :: "string option"
  af_model :: "string option"
  af_operator :: "string option"
  af_distance_nm :: "real option"
  af_altitude_ft :: "real option"
  af_military :: bool
  af_government :: bool
  af_law_enforcement :: bool

definition match_fact :: "alert_world \<Rightarrow> alert_engine \<Rightarrow> int \<Rightarrow> write_item \<Rightarrow> alert_match_fact" where
  "match_fact world e match_id = (\<lambda>(icao, p, m).
     let record = live_record world icao;
         view = map_of (wd_views world) icao;
         resolved = Option.bind view mv_metadata;
         c = (case view of None \<Rightarrow> unknown_classification | Some v \<Rightarrow> mv_classification v);
         rule = find (\<lambda>r. Some (ar_id (cr_rule r)) = mp_rule_id p) (en_rules e)
     in \<lparr>af_match_id = match_id, af_matched_ms = nm_matched_ms m, af_severity = severity_value (mp_severity p),
         af_reason = mp_reason p, af_aircraft_id = nm_aircraft_id m, af_sighting_id = nm_sighting_id m,
         af_icao24 = icao, af_rule_id = mp_rule_id p, af_rule_name = map_option (\<lambda>r. ar_name (cr_rule r)) rule,
         af_builtin_key = mp_builtin_key p, af_emergency_source = mp_emergency_source p,
         af_emergency_kind = mp_emergency_kind p, af_squawk = Option.bind record la_squawk,
         af_callsign = Option.bind record la_callsign, af_registration = Option.bind resolved rm_registration,
         af_type_code = Option.bind resolved rm_type_code, af_model = Option.bind resolved rm_model,
         af_operator = Option.bind resolved rm_operator_name, af_distance_nm = Option.bind record la_distance_nm,
         af_altitude_ft = Option.bind record la_altitude_ft, af_military = cl_military c,
         af_government = cl_government c, af_law_enforcement = cl_law_enforcement c\<rparr>)"

definition mark_fired :: "string \<Rightarrow> match_proposal \<Rightarrow> alert_states \<Rightarrow> alert_states" where
  "mark_fired icao p states = (case map_of states icao of
      None \<Rightarrow> states
    | Some st \<Rightarrow> AList.update icao (st\<lparr>st_pending := AList.delete (mp_key p) (st_pending st),
        st_fired := AList.update (mp_key p) (mp_severity p) (st_fired st)\<rparr>) states)"

text \<open>
  The loop after the write: facts so far and upgrades so far are carried along. An exception from the
  seam would leave the cycle with what was done up to there.
\<close>

fun apply_created :: "alert_world \<Rightarrow> (write_item \<times> int option) list \<Rightarrow> alert_engine \<Rightarrow> worker
    \<Rightarrow> alert_match_fact list \<Rightarrow> nat \<Rightarrow> alert_engine \<times> worker \<times> (alert_match_fact list \<times> nat) result" where
  "apply_created world [] e w facts upgraded = (e, w, Inr (facts, upgraded))"
| "apply_created world (((icao, p, m), created) # rest) e w facts upgraded =
     (let e' = e\<lparr>en_states := mark_fired icao p (en_states e)\<rparr>
      in case created of
        None \<Rightarrow> apply_created world rest e' w facts upgraded
      | Some match_id \<Rightarrow>
          (case worker_apply_alert_severity icao (severity_value (mp_severity p)) (mp_reason p) (wd_now_ms world) w of
             Inl exn \<Rightarrow> (e', w, Inl exn)
           | Inr (w', changed) \<Rightarrow> apply_created world rest e' w'
               (facts @ [match_fact world e match_id (icao, p, m)]) (if changed then Suc upgraded else upgraded)))"

record alert_outcome =
  ao_engine :: alert_engine
  ao_worker :: worker
  ao_tables :: alert_tables
  ao_facts :: "alert_match_fact list"
  ao_evaluated :: nat
  ao_held :: nat
  ao_upgraded :: nat
  ao_failed :: bool
  ao_raised :: bool

text \<open>
  The write is the one await of a cycle: \<open>later\<close> and \<open>w'\<close> are the live set, the metadata views and the
  worker as the write finds them when it returns. The engine's own state belongs to this task.
\<close>

definition record_owed :: "alert_world \<Rightarrow> alert_world \<Rightarrow> (string \<times> match_proposal) list \<Rightarrow> alert_engine \<Rightarrow> worker \<Rightarrow> worker
    \<Rightarrow> alert_tables \<Rightarrow> alert_outcome" where
  "record_owed world later owed e w w' db =
     (let items = writable world w owed;
          held = length owed - length items;
          sorted_items = sort_key (\<lambda>(icao, p, m). - int (severity_rank (mp_severity p))) items;
          nothing = \<lparr>ao_engine = e, ao_worker = w', ao_tables = db, ao_facts = [], ao_evaluated = 0,
            ao_held = held, ao_upgraded = 0, ao_failed = False, ao_raised = False\<rparr>
      in if items = [] then nothing
         else case (if wd_write_ok world then record_matches (map (\<lambda>(icao, p, m). m) sorted_items) db else None) of
           None \<Rightarrow> nothing\<lparr>ao_held := held + length items, ao_failed := True\<rparr>
         | Some (created, db') \<Rightarrow>
             (case apply_created (later\<lparr>wd_now_ms := wd_now_ms world\<rparr>) (zip sorted_items created) e w' [] 0 of
                (e', w'', Inr (facts, upgraded)) \<Rightarrow> nothing\<lparr>ao_engine := e', ao_worker := w'', ao_tables := db',
                   ao_facts := facts, ao_upgraded := upgraded\<rparr>
              | (e', w'', Inl exn) \<Rightarrow> nothing\<lparr>ao_engine := e', ao_worker := w'', ao_tables := db', ao_raised := True\<rparr>))"

text \<open>One cycle: the overflow flag of the subscription decides between events and the snapshot.\<close>

definition alert_cycle :: "alert_world \<Rightarrow> alert_world \<Rightarrow> bool \<Rightarrow> live_event list \<Rightarrow> alert_engine \<Rightarrow> worker
    \<Rightarrow> worker \<Rightarrow> alert_tables \<Rightarrow> alert_outcome" where
  "alert_cycle world later overflowed events e w w' db =
     (let (wanted, states) = (if overflowed then resync_alerts world (en_states e) else collect events (en_states e));
          (e', owed) = evaluate_all world w wanted (e\<lparr>en_states := states\<rparr>)
      in (record_owed world later owed e' w w' db)\<lparr>ao_evaluated := length wanted\<rparr>)"

end
