(* ===== verification/AlertService.thy ===== *)
theory AlertService
  imports AlertEngine
begin

text \<open>
  \<^verbatim>\<open>alerts/templates.py\<close> and \<^verbatim>\<open>alerts/service.py\<close>: the shipped templates, the rules a client
  creates, edits and deletes, and the recompiling of the engine's rules after each change. The watchlists
  and the configured radius are read where the code reads them and are arguments here. The calls of the
  service are made one at a time; a call that raises leaves the service and the tables as they were.
\<close>

section \<open>Templates\<close>

record alert_template =
  tp_key :: string
  tp_name :: string
  tp_description :: string
  tp_severity :: alert_severity
  tp_conditions :: "rule_conditions option"
  tp_builtin :: bool

definition instantiable :: "alert_template \<Rightarrow> bool" where
  "instantiable t \<longleftrightarrow> tp_conditions t \<noteq> None \<and> \<not> tp_builtin t"

definition TEMPLATE_RARE_MAX_SIGHTINGS :: int where "TEMPLATE_RARE_MAX_SIGHTINGS = 2"
definition TEMPLATE_RARE_MAX_TYPE_AIRCRAFT :: int where "TEMPLATE_RARE_MAX_TYPE_AIRCRAFT = 2"

definition no_flags :: classification_condition where
  "no_flags = \<lparr>cc_military = False, cc_government = False, cc_law_enforcement = False, cc_mission = None\<rparr>"

definition spec_mark :: "string \<Rightarrow> string" where
  "spec_mark n = ''SPEC '' @ [CHR 0xA7] @ n"

definition rule_template :: "string \<Rightarrow> string \<Rightarrow> string \<Rightarrow> alert_severity \<Rightarrow> rule_conditions \<Rightarrow> alert_template" where
  "rule_template key name description severity conditions =
     \<lparr>tp_key = key, tp_name = name, tp_description = description, tp_severity = severity,
      tp_conditions = Some conditions, tp_builtin = False\<rparr>"

definition SHIPPED_TEMPLATES :: "alert_template list" where
  "SHIPPED_TEMPLATES =
     [rule_template ''military'' ''Military aircraft''
        (''Any aircraft classified as military ('' @ spec_mark ''39'' @ '').'') HighSev
        (no_conditions\<lparr>rc_classification := Some (no_flags\<lparr>cc_military := True\<rparr>)\<rparr>),
      rule_template ''government'' ''Government aircraft''
        ''Any aircraft classified as a government operator.'' HighSev
        (no_conditions\<lparr>rc_classification := Some (no_flags\<lparr>cc_government := True\<rparr>)\<rparr>),
      rule_template ''police'' ''Police and law enforcement''
        (''Any aircraft classified as law enforcement ('' @ spec_mark ''39'' @ '').'') HighSev
        (no_conditions\<lparr>rc_classification := Some (no_flags\<lparr>cc_law_enforcement := True\<rparr>)\<rparr>),
      \<lparr>tp_key = ''emergency_squawk'', tp_name = ''Emergency squawk'',
       tp_description = ''Squawk 7500, 7600 or 7700. Built in and always on: '' @ spec_mark ''47'' @
         '' requires emergency squawks to alert without a rule, so this template has no rule to enable or disable.'',
       tp_severity = EMERGENCY_SEVERITY, tp_conditions = None, tp_builtin = True\<rparr>,
      rule_template ''first_ever'' ''First-ever aircraft''
        (''An airframe this receiver has never recorded before ('' @ spec_mark ''44'' @ '').'') InfoSev
        (no_conditions\<lparr>rc_rare_aircraft := Some 1\<rparr>),
      rule_template ''locally_rare'' ''Locally rare aircraft''
        (''An airframe recorded at most 2 times here, this sighting included ('' @ spec_mark ''44'' @ '').'')
        InterestingSev (no_conditions\<lparr>rc_rare_aircraft := Some TEMPLATE_RARE_MAX_SIGHTINGS\<rparr>),
      rule_template ''locally_rare_type'' ''Locally rare type''
        (''An ICAO type designator recorded on at most 2 airframes here ('' @ spec_mark ''44'' @ '').'')
        InterestingSev (no_conditions\<lparr>rc_rare_type := Some TEMPLATE_RARE_MAX_TYPE_AIRCRAFT\<rparr>),
      rule_template ''watchlist'' ''Watchlist match''
        (''Any aircraft on any watchlist ('' @ spec_mark ''42'' @ ''). Matches by membership rather than by '' @
         ''a named list, because a template instantiated at first run has no watchlist to name yet.'')
        InterestingSev (no_conditions\<lparr>rc_watchlist_any := True\<rparr>)]"

definition template_by_key :: "string \<Rightarrow> alert_template option" where
  "template_by_key key = find (\<lambda>t. tp_key t = key) SHIPPED_TEMPLATES"

definition TEMPLATE_KEY_ALIASES :: "(string \<times> string) list" where
  "TEMPLATE_KEY_ALIASES = [(''law_enforcement'', ''police'')]"

definition resolve_key :: "string \<Rightarrow> string" where
  "resolve_key key = (case map_of TEMPLATE_KEY_ALIASES key of None \<Rightarrow> key | Some k \<Rightarrow> k)"

definition normalize_template_keys :: "string list \<Rightarrow> string list" where
  "normalize_template_keys keys =
     fold (\<lambda>key normalized. if resolve_key key \<in> set normalized then normalized
                            else normalized @ [resolve_key key]) keys []"

definition aliased_template_keys :: "string list \<Rightarrow> string list" where
  "aliased_template_keys keys = filter (\<lambda>key. map_of TEMPLATE_KEY_ALIASES key \<noteq> None) keys"

definition enabled_templates :: "string list \<Rightarrow> alert_template list" where
  "enabled_templates keys = filter (\<lambda>t. tp_key t \<in> set (normalize_template_keys keys)) SHIPPED_TEMPLATES"

definition unknown_template_keys :: "string list \<Rightarrow> string list" where
  "unknown_template_keys keys = filter (\<lambda>key. template_by_key key = None) (normalize_template_keys keys)"

section \<open>The service\<close>

datatype alert_error = AlertRuleValueError | AlertRuleNotFoundError | AlertTemplateNotFoundError
  | AlertTemplateConflictError

record alert_service =
  sv_template_keys :: "string list"
  sv_started :: bool
  sv_engine :: alert_engine

record alert_config =
  cf_watchlists :: "(int \<times> string) list"
  cf_radius :: "real option"

definition new_service :: "string list \<Rightarrow> alert_service" where
  "new_service keys = \<lparr>sv_template_keys = keys, sv_started = False, sv_engine = new_engine None\<rparr>"

definition normalize_rule_name :: "string \<Rightarrow> alert_error + string" where
  "normalize_rule_name name = (if py_strip name = [] then Inl AlertRuleValueError else Inr (py_strip name))"

definition normalize_description :: "string option \<Rightarrow> string option" where
  "normalize_description description = (case description of
      None \<Rightarrow> None
    | Some d \<Rightarrow> (if py_strip d = [] then None else Some (py_strip d)))"

definition compile_all :: "alert_config \<Rightarrow> alert_tables \<Rightarrow> compiled_rule list" where
  "compile_all cfg db = map (\<lambda>r. compile_rule r
       (Option.bind (rc_watchlist_id (ar_conditions r)) (map_of (cf_watchlists cfg))))
     (sort_key ar_id (at_rules db))"

definition reload_rules :: "alert_config \<Rightarrow> alert_tables \<Rightarrow> alert_service \<Rightarrow> alert_service" where
  "reload_rules cfg db svc = svc\<lparr>sv_engine :=
     set_alert_radius (cf_radius cfg) (set_rules (compile_all cfg db) (sv_engine svc))\<rparr>"

definition create_template_rule :: "int \<Rightarrow> alert_template \<Rightarrow> alert_tables \<Rightarrow> alert_rule \<times> alert_tables" where
  "create_template_rule now_ms t db =
     create_rule_row (tp_name t) (Some (tp_description t)) (tp_severity t) (the (tp_conditions t)) True
       (Some (tp_key t)) now_ms db"

definition create_template_rules :: "int \<Rightarrow> alert_template list \<Rightarrow> alert_tables \<Rightarrow> nat \<times> alert_tables" where
  "create_template_rules now_ms ts db =
     (length ts, fold (\<lambda>t db. snd (create_template_rule now_ms t db)) ts db)"

definition instantiate_templates :: "int \<Rightarrow> alert_service \<Rightarrow> alert_tables \<Rightarrow> nat \<times> alert_tables" where
  "instantiate_templates now_ms svc db =
     (if sv_template_keys svc = [] then (0, db)
      else if has_template_rules db then (0, db)
      else create_template_rules now_ms (filter instantiable (enabled_templates (sv_template_keys svc))) db)"

definition start_service :: "int \<Rightarrow> alert_config \<Rightarrow> alert_service \<Rightarrow> alert_tables \<Rightarrow> alert_service \<times> alert_tables" where
  "start_service now_ms cfg svc db =
     (let (created, db') = instantiate_templates now_ms svc db;
          svc' = reload_rules cfg db' svc
      in (svc'\<lparr>sv_engine := adopt_open_matches (open_sighting_match_keys db') (sv_engine svc'),
               sv_started := True\<rparr>, db'))"

definition stop_service :: "alert_service \<Rightarrow> alert_service" where
  "stop_service svc = svc\<lparr>sv_started := False\<rparr>"

definition apply_enabled_templates :: "int \<Rightarrow> alert_config \<Rightarrow> string list \<Rightarrow> alert_service \<Rightarrow> alert_tables
    \<Rightarrow> nat \<times> alert_service \<times> alert_tables" where
  "apply_enabled_templates now_ms cfg keys svc db =
     (let previous = normalize_template_keys (sv_template_keys svc);
          current = normalize_template_keys keys;
          svc' = svc\<lparr>sv_template_keys := keys\<rparr>
      in if \<not> sv_started svc then (0, svc', db)
         else let added = filter (\<lambda>key. key \<notin> set previous) current
           in if added = [] then (0, svc', db)
              else let existing = template_keys_present db;
                       wanted = filter (\<lambda>t. instantiable t \<and> tp_key t \<notin> existing) (enabled_templates added)
                in if wanted = [] then (0, svc', db)
                   else let (created, db') = create_template_rules now_ms wanted db
                     in (created, reload_rules cfg db' svc', db'))"

definition create_rule :: "int \<Rightarrow> alert_config \<Rightarrow> string \<Rightarrow> string option \<Rightarrow> alert_severity \<Rightarrow> rule_conditions
    \<Rightarrow> bool \<Rightarrow> alert_service \<Rightarrow> alert_tables \<Rightarrow> alert_error + alert_rule \<times> alert_service \<times> alert_tables" where
  "create_rule now_ms cfg name description severity conditions enabled svc db =
     (case normalize_rule_name name of
        Inl e \<Rightarrow> Inl e
      | Inr n \<Rightarrow> (let (r, db') = create_rule_row n (normalize_description description) severity conditions
                    enabled None now_ms db
                  in Inr (r, reload_rules cfg db' svc, db')))"

definition instantiate_template :: "int \<Rightarrow> alert_config \<Rightarrow> string \<Rightarrow> alert_service \<Rightarrow> alert_tables
    \<Rightarrow> alert_error + alert_rule \<times> alert_service \<times> alert_tables" where
  "instantiate_template now_ms cfg key svc db =
     (case template_by_key key of
        None \<Rightarrow> Inl AlertTemplateNotFoundError
      | Some t \<Rightarrow>
          (if \<not> instantiable t then Inl AlertTemplateConflictError
           else if list_ex (\<lambda>r. ar_template_key r = Some key) (at_rules db) then Inl AlertTemplateConflictError
           else let (r, db') = create_rule_row (tp_name t) (Some (tp_description t)) (tp_severity t)
                  (the (tp_conditions t)) True (Some key) now_ms db
             in Inr (r, reload_rules cfg db' svc, db')))"

definition update_rule :: "int \<Rightarrow> alert_config \<Rightarrow> int \<Rightarrow> string \<Rightarrow> string option \<Rightarrow> alert_severity
    \<Rightarrow> rule_conditions \<Rightarrow> bool \<Rightarrow> alert_service \<Rightarrow> alert_tables
    \<Rightarrow> alert_error + alert_rule \<times> alert_service \<times> alert_tables" where
  "update_rule now_ms cfg rule_id name description severity conditions enabled svc db =
     (case normalize_rule_name name of
        Inl e \<Rightarrow> Inl e
      | Inr n \<Rightarrow>
          (case update_rule_row rule_id n (normalize_description description) severity conditions enabled now_ms db of
             (None, _) \<Rightarrow> Inl AlertRuleNotFoundError
           | (Some r, db') \<Rightarrow> Inr (r, reload_rules cfg db' svc, db')))"

definition delete_rule :: "alert_config \<Rightarrow> int \<Rightarrow> alert_service \<Rightarrow> alert_tables
    \<Rightarrow> bool \<times> alert_service \<times> alert_tables" where
  "delete_rule cfg rule_id svc db =
     (case delete_rule_row rule_id db of
        (True, db') \<Rightarrow> (True, reload_rules cfg db' svc, db')
      | (False, db') \<Rightarrow> (False, svc, db'))"

end
