(* ===== verification/AlertRuns.thy ===== *)
theory AlertRuns
  imports AlertService
begin

text \<open>
  The alert engine over runs: its invariant, the functional description of a cycle (which addresses are
  evaluated, what is held, what is written, what is marked), and the runs of cycles with their
  invariant.
\<close>

section \<open>Invariant\<close>

definition proposal_ok :: "match_proposal \<Rightarrow> bool" where
  "proposal_ok p \<longleftrightarrow> one_origin (mp_rule_id p) (mp_builtin_key p) \<and>
     mp_key p = (case mp_rule_id p of Some i \<Rightarrow> RuleKey i | None \<Rightarrow> BuiltinKey (the (mp_builtin_key p)))"

definition pending_ok :: "(match_key \<times> match_proposal) list \<Rightarrow> bool" where
  "pending_ok al \<longleftrightarrow> distinct (map fst al) \<and> (\<forall>(k, p) \<in> set al. mp_key p = k \<and> proposal_ok p)"

definition states_ok :: "alert_states \<Rightarrow> bool" where
  "states_ok states \<longleftrightarrow> distinct (map fst states) \<and> (\<forall>(icao, st) \<in> set states. pending_ok (st_pending st))"

lemma proposal_ok_emergency: "emergency_match s = Some p \<Longrightarrow> proposal_ok p"
  using emergency_match_cases [of s] by (auto simp: proposal_ok_def one_origin_def is_builtin_def)

lemma proposal_ok_rule: "proposal_ok (rule_proposal r)"
  by (simp add: proposal_ok_def rule_proposal_def one_origin_def)

lemma proposal_ok_evaluate: "p \<in> set (evaluate radius rules s) \<Longrightarrow> proposal_ok p"
  unfolding set_evaluate using proposal_ok_emergency proposal_ok_rule by auto

lemma states_ok_update:
  assumes "states_ok states" "pending_ok (st_pending st)"
  shows "states_ok (AList.update icao st states)"
  using assms dict_set_update [of states icao st] by (auto simp: states_ok_def distinct_update)

lemma states_ok_filter: "states_ok states \<Longrightarrow> states_ok (filter P states)"
  by (auto simp: states_ok_def distinct_map_filter)

lemma states_ok_delete: "states_ok states \<Longrightarrow> states_ok (AList.delete icao states)"
  by (auto simp: states_ok_def distinct_delete dict_set_delete)

lemma states_ok_lookup: "states_ok states \<Longrightarrow> map_of states icao = Some st \<Longrightarrow> pending_ok (st_pending st)"
  using map_of_SomeD by (fastforce simp: states_ok_def)

section \<open>Holding proposals\<close>

lemma map_of_setdefault:
  "map_of (setdefault k v al) = (if map_of al k = None then (map_of al)(k \<mapsto> v) else map_of al)"
  by (auto simp: setdefault_def map_add_def fun_eq_iff split: option.split)

lemma pending_ok_setdefault:
  assumes "pending_ok al" "proposal_ok p"
  shows "pending_ok (setdefault (mp_key p) p al)"
  using assms by (auto simp: pending_ok_def setdefault_def map_of_eq_None_iff)

definition hold_step :: "(match_key \<times> alert_severity) list \<Rightarrow> match_proposal \<Rightarrow>
    (match_key \<times> match_proposal) list \<Rightarrow> (match_key \<times> match_proposal) list" where
  "hold_step fired p al = (if map_of fired (mp_key p) = None then setdefault (mp_key p) p al else al)"

lemma st_pending_hold: "st_pending (hold_proposals ps st) = fold (hold_step (st_fired st)) ps (st_pending st)"
  by (simp add: hold_proposals_def hold_step_def [abs_def])

lemma hold_fields [simp]:
  "st_fired (hold_proposals ps st) = st_fired st" "st_sighting_id (hold_proposals ps st) = st_sighting_id st"
  "st_interesting (hold_proposals ps st) = st_interesting st"
  "st_awaiting_metadata (hold_proposals ps st) = st_awaiting_metadata st"
  by (simp_all add: hold_proposals_def)

lemma pending_ok_hold:
  assumes "pending_ok al" "\<And>p. p \<in> set ps \<Longrightarrow> proposal_ok p"
  shows "pending_ok (fold (hold_step fired) ps al)"
  using assms
  by (induction ps arbitrary: al) (simp_all add: hold_step_def pending_ok_setdefault)

text \<open>What is pending afterwards: what was, and the first new proposal of every key that has not fired.\<close>

lemma map_of_hold:
  "map_of (fold (hold_step fired) ps al) k = (case map_of al k of
      Some p \<Rightarrow> Some p
    | None \<Rightarrow> if map_of fired k = None then find (\<lambda>p. mp_key p = k) ps else None)"
  by (induction ps arbitrary: al) (auto simp: hold_step_def map_of_setdefault split: option.splits)

section \<open>Evaluating all addresses\<close>

definition eval_state :: "alert_world \<Rightarrow> worker \<Rightarrow> alert_engine \<Rightarrow> string \<Rightarrow> aircraft_alert_state option" where
  "eval_state world w e icao = map_option (\<lambda>s.
     let proposals = evaluate (en_radius e) (en_rules e) s
     in hold_proposals proposals ((state_for e icao s)\<lparr>st_interesting := interesting_of proposals\<rparr>))
     (subject_for world w icao)"

definition owed_by :: "string \<Rightarrow> aircraft_alert_state option \<Rightarrow> (string \<times> match_proposal) list" where
  "owed_by icao st = (case st of None \<Rightarrow> [] | Some st \<Rightarrow> map (\<lambda>(k, p). (icao, p)) (st_pending st))"

lemma evaluate_one_eval_state:
  "evaluate_one world w icao (e, owed) = (e\<lparr>en_states := (case eval_state world w e icao of
        None \<Rightarrow> AList.delete icao (en_states e) | Some st \<Rightarrow> AList.update icao st (en_states e))\<rparr>,
     owed @ owed_by icao (eval_state world w e icao))"
  by (simp add: evaluate_one_def eval_state_def owed_by_def Let_def split: option.split)

lemma eval_state_cong:
  assumes "en_rules e' = en_rules e" "en_radius e' = en_radius e" "en_adopted e' = en_adopted e"
    and "map_of (en_states e') icao = map_of (en_states e) icao"
  shows "eval_state world w e' icao = eval_state world w e icao"
  by (simp only: eval_state_def state_for_def assms)

lemma pending_ok_state_for:
  assumes "states_ok (en_states e)"
  shows "pending_ok (st_pending (state_for e icao s))"
  using states_ok_lookup [OF assms, of icao]
  by (auto simp: state_for_def Let_def new_alert_state_def pending_ok_def split: option.splits)

lemma pending_ok_eval_state:
  assumes "states_ok (en_states e)" "eval_state world w e icao = Some st"
  shows "pending_ok (st_pending st)"
proof -
  obtain s where "st = hold_proposals (evaluate (en_radius e) (en_rules e) s)
      ((state_for e icao s)\<lparr>st_interesting := interesting_of (evaluate (en_radius e) (en_rules e) s)\<rparr>)"
    using assms(2) by (auto simp: eval_state_def Let_def)
  then show ?thesis
    using pending_ok_hold [OF pending_ok_state_for [OF assms(1)]] proposal_ok_evaluate
    by (simp add: st_pending_hold)
qed

lemma evaluate_all_from:
  assumes "fold (evaluate_one world w) icaos (e, owed) = (e', owed')" "distinct icaos"
    and "states_ok (en_states e)"
  shows "en_rules e' = en_rules e \<and> en_radius e' = en_radius e \<and> en_adopted e' = en_adopted e \<and>
    states_ok (en_states e') \<and>
    (\<forall>icao. map_of (en_states e') icao =
       (if icao \<in> set icaos then eval_state world w e icao else map_of (en_states e) icao)) \<and>
    owed' = owed @ concat (map (\<lambda>icao. owed_by icao (eval_state world w e icao)) icaos)"
  using assms
proof (induction icaos arbitrary: e owed)
  case (Cons icao icaos)
  define e1 where "e1 = e\<lparr>en_states := (case eval_state world w e icao of
        None \<Rightarrow> AList.delete icao (en_states e) | Some st \<Rightarrow> AList.update icao st (en_states e))\<rparr>"
  have ok: "states_ok (en_states e1)"
    using Cons.prems(3) pending_ok_eval_state [OF Cons.prems(3), of world w icao]
    by (auto simp: e1_def states_ok_delete states_ok_update split: option.split)
  have first: "map_of (en_states e1) = (map_of (en_states e))(icao := eval_state world w e icao)"
    by (simp add: e1_def dict_simps split: option.split)
  have same: "en_rules e1 = en_rules e" "en_radius e1 = en_radius e" "en_adopted e1 = en_adopted e"
    by (simp_all add: e1_def)
  have rest: "eval_state world w e1 i = eval_state world w e i" if "i \<in> set icaos" for i
    by (rule eval_state_cong [OF same]) (use Cons.prems(2) that first in auto)
  have "fold (evaluate_one world w) icaos (e1, owed @ owed_by icao (eval_state world w e icao)) = (e', owed')"
    using Cons.prems(1) by (simp add: evaluate_one_eval_state e1_def)
  from Cons.IH [OF this _ ok] Cons.prems(2) show ?case
    using rest first same by (auto cong: map_cong)
qed auto

lemmas evaluate_all_spec = evaluate_all_from [where owed = "[]", folded evaluate_all_def, simplified append_Nil]

section \<open>Which addresses are evaluated\<close>

lemma collect_events_spec:
  assumes "collect_events events wanted states = (wanted', states')" "distinct wanted"
  shows "distinct wanted' \<and> (states_ok states \<longrightarrow> states_ok states') \<and>
    (\<forall>icao. icao \<notin> la_icao ` {a. \<exists>t. AircraftRemoved a t \<in> set events} \<longrightarrow>
       map_of states' icao = map_of states icao)"
  using assms
proof (induction events wanted states arbitrary: wanted' states' rule: collect_events.induct)
  case (2 a t es wanted states)
  then have "collect_events es (removeAll (la_icao a) wanted) (AList.delete (la_icao a) states) = (wanted', states')"
      "distinct (removeAll (la_icao a) wanted)"
    by (simp_all add: distinct_removeAll)
  note IH = 2(1) [OF this]
  show ?case
  proof (intro conjI allI impI)
    fix icao
    assume "icao \<notin> la_icao ` {b. \<exists>u. AircraftRemoved b u \<in> set (AircraftRemoved a t # es)}"
    then have "icao \<noteq> la_icao a" "icao \<notin> la_icao ` {b. \<exists>u. AircraftRemoved b u \<in> set es}" by auto
    then show "map_of states' icao = map_of states icao" using IH by (simp add: dict_simps)
  qed (use IH states_ok_delete in auto)
qed auto

lemma collect_spec:
  assumes "collect events states = (wanted, states')" "states_ok states"
  shows "distinct wanted \<and> states_ok states' \<and>
    (\<forall>icao st. map_of states' icao = Some st \<and> owes_evaluation st \<longrightarrow> icao \<in> set wanted) \<and>
    (\<forall>icao. icao \<notin> la_icao ` {a. \<exists>t. AircraftRemoved a t \<in> set events} \<longrightarrow>
       map_of states' icao = map_of states icao)"
proof -
  obtain seen where seen: "collect_events events [] states = (seen, states')"
      "wanted = seen @ filter (\<lambda>icao. icao \<notin> set seen) (map fst (filter (\<lambda>(icao, st). owes_evaluation st) states'))"
    using assms(1) by (auto simp: collect_def Let_def split: prod.splits)
  note ev = collect_events_spec [OF seen(1) distinct.simps(1) [THEN iffD2, OF TrueI]]
  have "distinct wanted" using ev assms(2) by (auto simp: seen(2) states_ok_def distinct_map_filter)
  moreover have "icao \<in> set wanted" if "map_of states' icao = Some st" "owes_evaluation st" for icao st
    using map_of_SomeD [OF that(1)] that(2) by (force simp: seen(2))
  ultimately show ?thesis using ev assms(2) by blast
qed

definition cycle_start :: "alert_world \<Rightarrow> bool \<Rightarrow> live_event list \<Rightarrow> alert_engine \<Rightarrow> string list \<times> alert_states" where
  "cycle_start world overflowed events e =
     (if overflowed then resync_alerts world (en_states e) else collect events (en_states e))"

lemma cycle_start_ok:
  assumes "cycle_start world overflowed events e = (wanted, states)" "states_ok (en_states e)"
  shows "distinct wanted \<and> states_ok states"
proof (cases overflowed)
  case True
  then show ?thesis using assms by (auto simp: cycle_start_def resync_alerts_def Let_def states_ok_filter)
next
  case False
  then have "collect events (en_states e) = (wanted, states)" using assms(1) by (simp add: cycle_start_def)
  from collect_spec [OF this assms(2)] show ?thesis by blast
qed

section \<open>The write\<close>

lemma set_map_filter: "set (List.map_filter f xs) = {y. \<exists>x \<in> set xs. f x = Some y}"
  by (force simp: map_filter_def)

lemma writable_item:
  assumes "(icao, p, m) \<in> set (writable world w owed)"
  shows "(icao, p) \<in> set owed \<and> sighting_ids w icao = Some (nm_sighting_id m, nm_aircraft_id m) \<and>
    nm_rule_id m = mp_rule_id p \<and> nm_builtin_key m = mp_builtin_key p \<and> nm_severity m = mp_severity p \<and>
    nm_matched_ms m = wd_now_ms world"
proof -
  from assms obtain x where "x \<in> set owed" "(case x of (icao, p) \<Rightarrow> (case sighting_ids w icao of
      None \<Rightarrow> None
    | Some (sighting_id, aircraft_id) \<Rightarrow> Some (icao, p,
        \<lparr>nm_sighting_id = sighting_id, nm_aircraft_id = aircraft_id, nm_matched_ms = wd_now_ms world,
         nm_severity = mp_severity p, nm_reason = mp_reason p, nm_rule_id = mp_rule_id p,
         nm_builtin_key = mp_builtin_key p\<rparr>))) = Some (icao, p, m)"
    unfolding writable_def set_map_filter by blast
  then show ?thesis by (auto split: option.splits prod.splits)
qed

lemma writable_complete:
  assumes "(icao, p) \<in> set owed" "sighting_ids w icao = Some (i, a)"
  shows "\<exists>m. (icao, p, m) \<in> set (writable world w owed) \<and> nm_sighting_id m = i \<and> nm_rule_id m = mp_rule_id p"
  using assms unfolding writable_def set_map_filter by force

lemma writable_key:
  assumes "(icao, p, m) \<in> set (writable world w owed)" "proposal_ok p"
  shows "one_origin (nm_rule_id m) (nm_builtin_key m)" "asked_key m = (nm_sighting_id m, mp_key p)"
  using writable_item [OF assms(1)] assms(2)
  by (auto simp: proposal_ok_def asked_key_def new_key_def split: option.split)

definition fact_of :: "alert_row \<Rightarrow> alert_match_fact \<Rightarrow> bool" where
  "fact_of row f \<longleftrightarrow> af_match_id f = am_id row \<and> af_sighting_id f = am_sighting_id row \<and>
     row_key row = (case af_rule_id f of Some i \<Rightarrow> RuleKey i | None \<Rightarrow> BuiltinKey (the (af_builtin_key f))) \<and>
     af_severity f = severity_value (am_severity row) \<and> af_aircraft_id f = am_aircraft_id row \<and>
     af_matched_ms f = am_matched_ms row"

fun facts_for :: "alert_world \<Rightarrow> alert_engine \<Rightarrow> (write_item \<times> int option) list \<Rightarrow> alert_match_fact list" where
  "facts_for world e [] = []"
| "facts_for world e ((item, c) # rest) =
     (case c of None \<Rightarrow> [] | Some i \<Rightarrow> [match_fact world e i item]) @ facts_for world e rest"

definition mark_items :: "write_item list \<Rightarrow> alert_states \<Rightarrow> alert_states" where
  "mark_items items = fold (\<lambda>(icao, p, m). mark_fired icao p) items"

lemma match_fact_cong: "en_rules e' = en_rules e \<Longrightarrow> match_fact world e' i item = match_fact world e i item"
  by (simp only: match_fact_def)

lemma facts_for_cong: "en_rules e' = en_rules e \<Longrightarrow> facts_for world e' xs = facts_for world e xs"
  by (induction xs) (auto simp: match_fact_cong [of e' e] split: option.split)

lemma apply_created_spec:
  assumes "apply_created world xs e w facts n = (e', w', r)"
  shows "(\<exists>k. e' = e\<lparr>en_states := mark_items (take k (map fst xs)) (en_states e)\<rparr> \<and>
      (\<forall>v. r = Inr v \<longrightarrow> k = length xs)) \<and>
    (\<forall>facts' n'. r = Inr (facts', n') \<longrightarrow> facts' = facts @ facts_for world e xs)"
  using assms
proof (induction world xs e w facts n rule: apply_created.induct)
  case (1 world e w facts n)
  then show ?case by (auto simp: mark_items_def intro!: exI [of _ 0])
next
  case (2 world icao p m created rest e w facts n)
  let ?e = "e\<lparr>en_states := mark_fired icao p (en_states e)\<rparr>"
  have step: "(\<exists>k. e' = e\<lparr>en_states := mark_items (take k ((icao, p, m) # map fst rest)) (en_states e)\<rparr> \<and>
      (\<forall>v. r = Inr v \<longrightarrow> k = Suc (length rest)))"
    if "\<exists>k. e' = ?e\<lparr>en_states := mark_items (take k (map fst rest)) (en_states ?e)\<rparr> \<and>
      (\<forall>v. r = Inr v \<longrightarrow> k = length rest)"
  proof -
    from that obtain k where "e' = ?e\<lparr>en_states := mark_items (take k (map fst rest)) (en_states ?e)\<rparr>"
        "\<forall>v. r = Inr v \<longrightarrow> k = length rest" by blast
    then show ?thesis by (intro exI [of _ "Suc k"]) (simp add: mark_items_def)
  qed
  have facts: "facts_for world ?e rest = facts_for world e rest"
    by (rule facts_for_cong) simp
  have fact: "match_fact world ?e i item = match_fact world e i item" for i item
    by (rule match_fact_cong) simp
  show ?case
  proof (cases created)
    case None
    with 2(3) have "apply_created world rest ?e w facts n = (e', w', r)" by simp
    from 2(1) [OF refl None this] step facts show ?thesis
      by (simp add: None)
  next
    case (Some i)
    show ?thesis
    proof (cases "worker_apply_alert_severity icao (severity_value (mp_severity p)) (mp_reason p) (wd_now_ms world) w")
      case (Inl exn)
      with 2(3) Some have "e' = ?e" "r = Inl exn" by simp_all
      then show ?thesis by (auto simp: mark_items_def intro!: exI [of _ "Suc 0"])
    next
      case (Inr v)
      obtain w1 changed where v: "v = (w1, changed)" by force
      have "apply_created world rest ?e w1 (facts @ [match_fact world e i (icao, p, m)])
          (if changed then Suc n else n) = (e', w', r)"
        using 2(3) by (simp add: Some Inr v fact)
      from 2(2) [OF refl Some Inr [unfolded v] refl this] step facts fact show ?thesis
        by (simp add: Some)
    qed
  qed
qed

lemma facts_of_rows:
  assumes "created_ok keys (zip (map (\<lambda>(icao, p, m). m) items) created) rows" "length created = length items"
    and "\<And>icao p m. (icao, p, m) \<in> set items \<Longrightarrow> nm_rule_id m = mp_rule_id p \<and> nm_builtin_key m = mp_builtin_key p \<and>
      nm_severity m = mp_severity p"
  shows "list_all2 fact_of rows (facts_for world e (zip items created))"
  using assms
proof (induction items arbitrary: keys created rows)
  case Nil
  then show ?case by simp
next
  case (Cons item items)
  obtain icao p m where item: "item = (icao, p, m)" by (cases item)
  obtain c cs where created: "created = c # cs" "length cs = length items"
    using Cons.prems(2) by (cases created) auto
  have items: "nm_rule_id m = mp_rule_id p \<and> nm_builtin_key m = mp_builtin_key p \<and> nm_severity m = mp_severity p"
    if "(icao, p, m) \<in> set items" for icao p m using Cons.prems(3) [of icao p m] that by simp
  show ?case
  proof (cases "asked_key m \<in> keys")
    case True
    then have "c = None" "created_ok keys (zip (map (\<lambda>(icao, p, m). m) items) cs) rows"
      using Cons.prems(1) by (simp_all add: item created)
    then show ?thesis using Cons.IH [OF _ created(2)] items by (simp add: created)
  next
    case False
    then obtain row rows' where rows: "rows = row # rows'" "c = Some (am_id row)" "row_for m row"
        "created_ok (insert (asked_key m) keys) (zip (map (\<lambda>(icao, p, m). m) items) cs) rows'"
      using Cons.prems(1) by (auto simp: item created split: list.splits)
    have "fact_of row (match_fact world e (am_id row) (icao, p, m))"
      using rows(3) Cons.prems(3) [of icao p m]
      by (simp add: fact_of_def match_fact_def Let_def row_for_def new_key_def item split: option.split)
    then show ?thesis using Cons.IH [OF rows(4) created(2)] items rows(1,2) by (simp add: created item)
  qed
qed

lemma record_owed_outcome:
  assumes "\<forall>(icao, p) \<in> set owed. proposal_ok p" "tables_ok db"
    and out: "out = record_owed world later owed e w w' db"
  shows "ao_engine out = e \<and> ao_worker out = w' \<and> ao_tables out = db \<and> ao_facts out = [] \<and> \<not> ao_raised out \<and>
      (\<not> ao_failed out \<longrightarrow> writable world w owed = []) \<or>
    (\<exists>items created rows k. \<not> ao_failed out \<and> set items = set (writable world w owed) \<and>
      record_matches (map (\<lambda>(icao, p, m). m) items) db = Some (created, ao_tables out) \<and>
      tables_ok (ao_tables out) \<and> same_frame db (ao_tables out) \<and>
      at_matches (ao_tables out) = at_matches db @ rows \<and>
      match_keys (ao_tables out) = match_keys db \<union> asked_key ` (\<lambda>(icao, p, m). m) ` set items \<and>
      ao_engine out = e\<lparr>en_states := mark_items (take k items) (en_states e)\<rparr> \<and>
      (if ao_raised out then ao_facts out = [] else k = length items \<and> list_all2 fact_of rows (ao_facts out)))"
proof -
  define items where "items = sort_key (\<lambda>(icao, p, m). - int (severity_rank (mp_severity p))) (writable world w owed)"
  have set_items: "set items = set (writable world w owed)" unfolding items_def set_sort by simp
  have item: "nm_rule_id m = mp_rule_id p \<and> nm_builtin_key m = mp_builtin_key p \<and> nm_severity m = mp_severity p"
      "one_origin (nm_rule_id m) (nm_builtin_key m)" if "(icao, p, m) \<in> set items" for icao p m
    using that writable_item writable_key(1) assms(1) unfolding set_items by blast+
  show ?thesis
  proof (cases "writable world w owed = [] \<or> \<not> wd_write_ok world \<or> record_matches (map (\<lambda>(icao, p, m). m) items) db = None")
    case True
    then show ?thesis by (auto simp: out record_owed_def Let_def items_def [symmetric] split: option.splits if_splits)
  next
    case False
    then obtain created db' where written: "record_matches (map (\<lambda>(icao, p, m). m) items) db = Some (created, db')"
      by auto
    obtain e' w'' r where applied:
        "apply_created (later\<lparr>wd_now_ms := wd_now_ms world\<rparr>) (zip items created) e w' [] 0 = (e', w'', r)"
      by (metis prod_cases3)
    have origins: "one_origin (nm_rule_id m) (nm_builtin_key m)" if "m \<in> set (map (\<lambda>(icao, p, m). m) items)" for m
      using that item(2) by auto
    note rec = record_matches_spec [OF written assms(2) origins]
    obtain rows where rows: "at_matches db' = at_matches db @ rows"
        "created_ok (match_keys db) (zip (map (\<lambda>(icao, p, m). m) items) created) rows"
      using rec by blast
    have len: "length created = length items" using rec by simp
    note app = apply_created_spec [OF applied]
    obtain k where k: "e' = e\<lparr>en_states := mark_items (take k items) (en_states e)\<rparr>" "\<And>v. r = Inr v \<Longrightarrow> k = length items"
      using app len by auto
    note facts = facts_of_rows [OF rows(2) len item(1)]
    have eqs: "ao_engine out = e'" "ao_tables out = db'" "\<not> ao_failed out" "ao_raised out = isl r"
        "ao_facts out = (case r of Inl _ \<Rightarrow> [] | Inr (facts, n) \<Rightarrow> facts)"
      using False written applied
      by (auto simp: out record_owed_def Let_def items_def [symmetric] split: sum.splits)
    have "if ao_raised out then ao_facts out = [] else k = length items \<and> list_all2 fact_of rows (ao_facts out)"
      using app facts k(2) unfolding eqs by (cases r) auto
    then show ?thesis
      using rec rows(1) k(1) set_items written eqs(3) unfolding eqs(1,2) by (intro disjI2 exI [of _ items] exI [of _ created] exI [of _ rows] exI [of _ k]) auto
  qed
qed

lemma alert_cycle_parts:
  assumes "cycle_start world overflowed events e = (wanted, states)"
    and "evaluate_all world w wanted (e\<lparr>en_states := states\<rparr>) = (e', owed)"
  shows "alert_cycle world later overflowed events e w w' db =
    (record_owed world later owed e' w w' db)\<lparr>ao_evaluated := length wanted\<rparr>"
  using assms by (simp add: alert_cycle_def cycle_start_def)

section \<open>Marking what has been written\<close>

definition mark_state :: "string \<Rightarrow> write_item list \<Rightarrow> aircraft_alert_state \<Rightarrow> aircraft_alert_state" where
  "mark_state icao items = fold (\<lambda>(i, p, m) st. if i = icao
     then st\<lparr>st_pending := AList.delete (mp_key p) (st_pending st),
             st_fired := AList.update (mp_key p) (mp_severity p) (st_fired st)\<rparr> else st) items"

lemma map_of_mark_items: "map_of (mark_items items states) icao = map_option (mark_state icao items) (map_of states icao)"
proof (induction items arbitrary: states)
  case Nil
  then show ?case by (simp add: mark_items_def mark_state_def option.map_id [unfolded id_def])
next
  case (Cons item items)
  obtain i p m where item: "item = (i, p, m)" by (cases item)
  have "map_of (mark_items (item # items) states) icao = map_of (mark_items items (mark_fired i p states)) icao"
    by (simp add: mark_items_def item)
  also have "\<dots> = map_option (mark_state icao items) (map_of (mark_fired i p states) icao)" by (rule Cons.IH)
  also have "\<dots> = map_option (mark_state icao (item # items)) (map_of states icao)"
    by (cases "map_of states i"; cases "map_of states icao")
      (auto simp: mark_fired_def item mark_state_def dict_simps)
  finally show ?case .
qed

lemma mark_state_fields:
  "st_sighting_id (mark_state icao items st) = st_sighting_id st"
  "st_interesting (mark_state icao items st) = st_interesting st"
  "st_awaiting_metadata (mark_state icao items st) = st_awaiting_metadata st"
  by (induction items arbitrary: st) (auto simp: mark_state_def split: prod.splits)

lemma mark_state_pending:
  "map_of (st_pending (mark_state icao items st)) k =
     (if \<exists>p m. (icao, p, m) \<in> set items \<and> mp_key p = k then None else map_of (st_pending st) k)"
proof (induction items arbitrary: st)
  case (Cons item items)
  obtain i p m where item: "item = (i, p, m)" by (cases item)
  have "mark_state icao (item # items) st = mark_state icao items (if i = icao
     then st\<lparr>st_pending := AList.delete (mp_key p) (st_pending st),
             st_fired := AList.update (mp_key p) (mp_severity p) (st_fired st)\<rparr> else st)"
    by (simp add: mark_state_def item)
  then show ?case by (auto simp: Cons.IH item dict_simps)
qed (simp add: mark_state_def)

lemma mark_state_fired:
  "map_of (st_fired (mark_state icao items st)) k = None \<longleftrightarrow>
     map_of (st_fired st) k = None \<and> \<not> (\<exists>p m. (icao, p, m) \<in> set items \<and> mp_key p = k)"
proof (induction items arbitrary: st)
  case (Cons item items)
  obtain i p m where item: "item = (i, p, m)" by (cases item)
  have "mark_state icao (item # items) st = mark_state icao items (if i = icao
     then st\<lparr>st_pending := AList.delete (mp_key p) (st_pending st),
             st_fired := AList.update (mp_key p) (mp_severity p) (st_fired st)\<rparr> else st)"
    by (simp add: mark_state_def item)
  then show ?case by (auto simp: Cons.IH item dict_simps)
qed (simp add: mark_state_def)

lemma pending_ok_mark: "pending_ok (st_pending st) \<Longrightarrow> pending_ok (st_pending (mark_state icao items st))"
proof (induction items arbitrary: st)
  case (Cons item items)
  obtain i p m where item: "item = (i, p, m)" by (cases item)
  have "pending_ok (AList.delete (mp_key p) (st_pending st))"
    using Cons.prems by (auto simp: pending_ok_def distinct_delete dict_set_delete)
  then show ?case using Cons by (simp add: mark_state_def item)
qed (simp add: mark_state_def)

lemma states_ok_mark: "states_ok states \<Longrightarrow> states_ok (mark_items items states)"
proof (induction items arbitrary: states)
  case (Cons item items)
  obtain i p m where item: "item = (i, p, m)" by (cases item)
  have "states_ok (mark_fired i p states)"
  proof (cases "map_of states i")
    case (Some st)
    have "pending_ok (AList.delete (mp_key p) (st_pending st))"
      using states_ok_lookup [OF Cons.prems Some] by (auto simp: pending_ok_def distinct_delete dict_set_delete)
    then show ?thesis using Cons.prems by (simp add: mark_fired_def Some states_ok_update)
  qed (simp add: mark_fired_def Cons.prems)
  then show ?case using Cons.IH by (simp add: mark_items_def item)
qed (simp add: mark_items_def)

section \<open>What has fired is on record\<close>

definition fired_recorded :: "alert_engine \<Rightarrow> alert_tables \<Rightarrow> bool" where
  "fired_recorded e db \<longleftrightarrow>
     (\<forall>icao st i k. map_of (en_states e) icao = Some st \<and> st_sighting_id st = Some i \<and> map_of (st_fired st) k \<noteq> None \<longrightarrow>
        (i, k) \<in> match_keys db) \<and>
     (\<forall>i keys k. map_of (en_adopted e) i = Some keys \<and> map_of keys k \<noteq> None \<longrightarrow> (i, k) \<in> match_keys db)"

definition engine_inv :: "alert_engine \<Rightarrow> alert_tables \<Rightarrow> bool" where
  "engine_inv e db \<longleftrightarrow> states_ok (en_states e) \<and> tables_ok db \<and> fired_recorded e db"

lemma collect_events_states:
  "collect_events events wanted states = (wanted', states') \<Longrightarrow> map_of states' icao = Some st \<Longrightarrow>
     map_of states icao = Some st"
proof (induction events wanted states arbitrary: wanted' states' rule: collect_events.induct)
  case (2 a t es wanted states)
  then have "map_of (AList.delete (la_icao a) states) icao = Some st" by simp
  then show ?case by (simp add: dict_simps split: if_splits)
qed auto

lemma map_of_filter_keys:
  "map_of (filter (\<lambda>(k, v). P k) al) k = (if P k then map_of al k else None)"
  by (induction al) auto

lemma cycle_start_states:
  assumes "cycle_start world overflowed events e = (wanted, states)" "map_of states icao = Some st"
  shows "map_of (en_states e) icao = Some st"
proof (cases overflowed)
  case True
  then show ?thesis using assms
    by (auto simp: cycle_start_def resync_alerts_def Let_def map_of_filter_keys split: if_splits)
next
  case False
  then obtain seen where "collect_events events [] (en_states e) = (seen, states)"
    using assms(1) by (auto simp: cycle_start_def collect_def Let_def split: prod.splits)
  then show ?thesis using assms(2) by (rule collect_events_states)
qed

lemma eval_state_sighting:
  assumes "eval_state world w e icao = Some st"
  shows "st_sighting_id st = Option.bind (sighting_for icao w) sg_sighting_id"
proof -
  obtain s where s: "subject_for world w icao = Some s" "st = hold_proposals (evaluate (en_radius e) (en_rules e) s)
      ((state_for e icao s)\<lparr>st_interesting := interesting_of (evaluate (en_radius e) (en_rules e) s)\<rparr>)"
    using assms by (auto simp: eval_state_def Let_def)
  have "sj_sighting_id s = Option.bind (sighting_for icao w) sg_sighting_id"
    using s(1) by (auto simp: subject_for_def Let_def split: option.splits)
  then show ?thesis by (simp add: s(2) state_for_def Let_def)
qed

lemma eval_state_fired:
  assumes "fired_recorded e db" "eval_state world w e icao = Some st" "st_sighting_id st = Some i"
    and "map_of (st_fired st) k \<noteq> None"
  shows "(i, k) \<in> match_keys db"
proof -
  obtain s where st: "st = hold_proposals (evaluate (en_radius e) (en_rules e) s)
      ((state_for e icao s)\<lparr>st_interesting := interesting_of (evaluate (en_radius e) (en_rules e) s)\<rparr>)"
    using assms(2) by (auto simp: eval_state_def Let_def)
  show ?thesis
  proof (cases "sj_sighting_id s = st_sighting_id (case map_of (en_states e) icao of None \<Rightarrow> new_alert_state | Some st \<Rightarrow> st)")
    case True
    then obtain old where "map_of (en_states e) icao = Some old" "st_sighting_id old = Some i" "st_fired st = st_fired old"
      using assms(3,4) by (cases "map_of (en_states e) icao") (simp_all add: st state_for_def Let_def new_alert_state_def)
    with assms(1,4) show ?thesis unfolding fired_recorded_def by metis
  next
    case False
    then have "st_fired st = (case map_of (en_adopted e) i of None \<Rightarrow> [] | Some keys \<Rightarrow> keys)" "sj_sighting_id s = Some i"
      using assms(3) by (simp_all add: st state_for_def Let_def)
    then obtain keys where "map_of (en_adopted e) i = Some keys" "map_of keys k \<noteq> None"
      using assms(4) by (cases "map_of (en_adopted e) i") simp_all
    with assms(1) show ?thesis unfolding fired_recorded_def by metis
  qed
qed

lemma owed_by_pending:
  assumes "(icao', p) \<in> set (owed_by icao st)"
  obtains st' where "icao' = icao" "st = Some st'" "(mp_key p, p) \<in> set (st_pending st') \<or> p \<in> snd ` set (st_pending st')"
  using assms by (cases st) (force simp: owed_by_def)+

lemma evaluated:
  assumes "engine_inv e db" "cycle_start world overflowed events e = (wanted, states)"
    and "evaluate_all world w wanted (e\<lparr>en_states := states\<rparr>) = (e', owed)"
  defines "e0 \<equiv> e\<lparr>en_states := states\<rparr>"
  shows "fired_recorded e0 db" "distinct wanted" "en_rules e' = en_rules e" "en_radius e' = en_radius e"
    "en_adopted e' = en_adopted e" "states_ok (en_states e')"
    "map_of (en_states e') icao = (if icao \<in> set wanted then eval_state world w e0 icao else map_of states icao)"
    "(icao, p) \<in> set owed \<longleftrightarrow> icao \<in> set wanted \<and>
       (\<exists>st. eval_state world w e0 icao = Some st \<and> map_of (st_pending st) (mp_key p) = Some p)"
    "(icao, p) \<in> set owed \<Longrightarrow> proposal_ok p"
proof -
  have start: "distinct wanted" "states_ok states"
    using cycle_start_ok [OF assms(2)] assms(1) by (simp_all add: engine_inv_def)
  have ok: "states_ok (en_states e0)" using start(2) by (simp add: e0_def)
  note spec = evaluate_all_spec [OF assms(3) start(1) ok [unfolded e0_def], folded e0_def]
  show "fired_recorded e0 db"
    using assms(1) cycle_start_states [OF assms(2)] unfolding engine_inv_def fired_recorded_def e0_def
    by simp blast
  show "distinct wanted" by (rule start)
  show "en_rules e' = en_rules e" "en_radius e' = en_radius e" "en_adopted e' = en_adopted e" "states_ok (en_states e')"
    using spec by (simp_all add: e0_def)
  show "map_of (en_states e') icao = (if icao \<in> set wanted then eval_state world w e0 icao else map_of states icao)" for icao
    using spec by (simp add: e0_def)
  have pending: "p \<in> snd ` set (st_pending st) \<longleftrightarrow> map_of (st_pending st) (mp_key p) = Some p"
      "p \<in> snd ` set (st_pending st) \<Longrightarrow> proposal_ok p"
    if "eval_state world w e0 icao = Some st" for icao st p
  proof -
    have "pending_ok (st_pending st)" by (rule pending_ok_eval_state [OF ok that])
    then have d: "distinct (map fst (st_pending st))" "\<And>k p. (k, p) \<in> set (st_pending st) \<Longrightarrow> mp_key p = k \<and> proposal_ok p"
      by (auto simp: pending_ok_def)
    show "p \<in> snd ` set (st_pending st) \<longleftrightarrow> map_of (st_pending st) (mp_key p) = Some p"
      unfolding map_of_eq_Some_iff [OF d(1)]
    proof
      assume "p \<in> snd ` set (st_pending st)"
      then obtain k where "(k, p) \<in> set (st_pending st)" by auto
      with d(2) [OF this] show "(mp_key p, p) \<in> set (st_pending st)" by simp
    next
      assume "(mp_key p, p) \<in> set (st_pending st)"
      from imageI [OF this, of snd] show "p \<in> snd ` set (st_pending st)" by simp
    qed
    show "p \<in> snd ` set (st_pending st) \<Longrightarrow> proposal_ok p" using d(2) by auto
  qed
  have owed: "(icao, p) \<in> set owed \<longleftrightarrow> icao \<in> set wanted \<and>
      (\<exists>st. eval_state world w e0 icao = Some st \<and> p \<in> snd ` set (st_pending st))" for icao p
  proof -
    have "(icao, p) \<in> set (owed_by i st) \<longleftrightarrow> i = icao \<and> (\<exists>st'. st = Some st' \<and> p \<in> snd ` set (st_pending st'))" for i st
      by (cases st) (force simp: owed_by_def)+
    then show ?thesis using spec by auto
  qed
  show "(icao, p) \<in> set owed \<longleftrightarrow> icao \<in> set wanted \<and>
       (\<exists>st. eval_state world w e0 icao = Some st \<and> map_of (st_pending st) (mp_key p) = Some p)"
    unfolding owed using pending(1) by blast
  show "(icao, p) \<in> set owed \<Longrightarrow> proposal_ok p" unfolding owed using pending(2) by blast
qed

lemma fired_recorded_mono:
  "fired_recorded e db \<Longrightarrow> match_keys db \<subseteq> match_keys db' \<Longrightarrow> fired_recorded e db'"
  unfolding fired_recorded_def by blast

lemma fired_recorded_evaluated:
  assumes "engine_inv e db" "cycle_start world overflowed events e = (wanted, states)"
    and "evaluate_all world w wanted (e\<lparr>en_states := states\<rparr>) = (e', owed)"
  shows "fired_recorded e' db"
proof -
  note ev = evaluated [OF assms]
  have "(i, k) \<in> match_keys db"
    if "map_of (en_states e') icao = Some st" "st_sighting_id st = Some i" "map_of (st_fired st) k \<noteq> None" for icao st i k
  proof (cases "icao \<in> set wanted")
    case True
    with that(1) ev(7) [of icao] have "eval_state world w (e\<lparr>en_states := states\<rparr>) icao = Some st" by simp
    from eval_state_fired [OF ev(1) this that(2,3)] show ?thesis .
  next
    case False
    with that(1) ev(7) [of icao] have "map_of states icao = Some st" by simp
    from cycle_start_states [OF assms(2) this] that(2,3) assms(1) show ?thesis
      unfolding engine_inv_def fired_recorded_def by metis
  qed
  moreover have "(i, k) \<in> match_keys db" if "map_of (en_adopted e') i = Some keys" "map_of keys k \<noteq> None" for i keys k
    using that assms(1) ev(5) unfolding engine_inv_def fired_recorded_def by metis
  ultimately show ?thesis unfolding fired_recorded_def by blast
qed

text \<open>A cycle in one fact: either nothing was written, or the rows are those of the write.\<close>

lemma alert_cycle_outcome:
  assumes inv: "engine_inv e db" and out: "out = alert_cycle world later overflowed events e w w' db"
    and start: "cycle_start world overflowed events e = (wanted, states)"
    and eval: "evaluate_all world w wanted (e\<lparr>en_states := states\<rparr>) = (e', owed)"
  obtains (unwritten) "ao_engine out = e'" "ao_worker out = w'" "ao_tables out = db" "ao_facts out = []"
      "\<not> ao_raised out" "ao_failed out \<or> writable world w owed = []"
  | (committed) items created rows k where "\<not> ao_failed out" "set items = set (writable world w owed)"
      "record_matches (map (\<lambda>(icao, p, m). m) items) db = Some (created, ao_tables out)"
      "tables_ok (ao_tables out)" "same_frame db (ao_tables out)" "at_matches (ao_tables out) = at_matches db @ rows"
      "match_keys (ao_tables out) = match_keys db \<union> asked_key ` (\<lambda>(icao, p, m). m) ` set items"
      "ao_engine out = e'\<lparr>en_states := mark_items (take k items) (en_states e')\<rparr>"
      "if ao_raised out then ao_facts out = [] else k = length items \<and> list_all2 fact_of rows (ao_facts out)"
proof -
  have parts: "out = (record_owed world later owed e' w w' db)\<lparr>ao_evaluated := length wanted\<rparr>"
    unfolding out by (rule alert_cycle_parts [OF start eval])
  have ok: "\<forall>(icao, p) \<in> set owed. proposal_ok p"
    using evaluated(9) [OF inv start eval] by blast
  have "tables_ok db" using inv by (simp add: engine_inv_def)
  note result = record_owed_outcome [where owed = owed and world = world and later = later and w = w and e = e' and w' = w',
      OF ok this refl]
  have same: "ao_engine out = ao_engine (record_owed world later owed e' w w' db)"
    "ao_worker out = ao_worker (record_owed world later owed e' w w' db)"
    "ao_tables out = ao_tables (record_owed world later owed e' w w' db)"
    "ao_facts out = ao_facts (record_owed world later owed e' w w' db)"
    "ao_raised out = ao_raised (record_owed world later owed e' w w' db)"
    "ao_failed out = ao_failed (record_owed world later owed e' w w' db)"
    by (simp_all add: parts)
  show thesis
    using result unfolding same [symmetric]
  proof (elim disjE exE conjE)
    assume "ao_engine out = e'" "ao_worker out = w'" "ao_tables out = db" "ao_facts out = []" "\<not> ao_raised out"
      "\<not> ao_failed out \<longrightarrow> writable world w owed = []"
    then show thesis by (intro unwritten) blast+
  qed (rule committed)
qed

lemma engine_inv_cycle:
  assumes inv: "engine_inv e db" and out: "out = alert_cycle world later overflowed events e w w' db"
  shows "engine_inv (ao_engine out) (ao_tables out)"
proof -
  obtain wanted states where start: "cycle_start world overflowed events e = (wanted, states)" by force
  obtain e' owed where eval: "evaluate_all world w wanted (e\<lparr>en_states := states\<rparr>) = (e', owed)" by force
  note ev = evaluated [OF inv start eval]
  have fired: "fired_recorded e' db" by (rule fired_recorded_evaluated [OF inv start eval])
  from inv out start eval show ?thesis
  proof (cases rule: alert_cycle_outcome)
    case unwritten
    then show ?thesis using inv fired ev(6) by (simp add: engine_inv_def)
  next
    case (committed items created rows k)
    let ?e = "e'\<lparr>en_states := mark_items (take k items) (en_states e')\<rparr>"
    have mono: "match_keys db \<subseteq> match_keys (ao_tables out)" using committed(7) by blast
    have "(i, key) \<in> match_keys (ao_tables out)"
      if st: "map_of (en_states ?e) icao = Some st" "st_sighting_id st = Some i" "map_of (st_fired st) key \<noteq> None" for icao st i key
    proof -
      obtain old where old: "map_of (en_states e') icao = Some old" "st = mark_state icao (take k items) old"
        using st(1) by (auto simp: map_of_mark_items)
      have i: "st_sighting_id old = Some i" using st(2) by (simp add: old(2) mark_state_fields)
      show ?thesis
      proof (cases "map_of (st_fired old) key = None")
        case False
        with old(1) i fired mono show ?thesis unfolding fired_recorded_def by blast
      next
        case True
        then obtain p m where m: "(icao, p, m) \<in> set (take k items)" "mp_key p = key"
          using st(3) unfolding old(2) mark_state_fired by blast
        then have item: "(icao, p, m) \<in> set items" by (metis in_set_takeD)
        then have item': "(icao, p, m) \<in> set (writable world w owed)" using committed(2) by simp
        have owed: "(icao, p) \<in> set owed" and ids: "sighting_ids w icao = Some (nm_sighting_id m, nm_aircraft_id m)"
          using writable_item [OF item'] by auto
        obtain st0 where "icao \<in> set wanted" "eval_state world w (e\<lparr>en_states := states\<rparr>) icao = Some st0"
          using owed ev(8) by blast
        then have "st_sighting_id old = Option.bind (sighting_for icao w) sg_sighting_id"
          using ev(7) [of icao] old(1) eval_state_sighting by simp
        then have "nm_sighting_id m = i"
          using ids i by (auto simp: sighting_ids_def split: option.splits bind_splits)
        then have "asked_key m = (i, key)" using writable_key(2) [OF item' ev(9) [OF owed]] m(2) by simp
        then show ?thesis using item committed(7) by force
      qed
    qed
    moreover have "(i, key) \<in> match_keys (ao_tables out)"
      if "map_of (en_adopted ?e) i = Some keys" "map_of keys key \<noteq> None" for i keys key
    proof -
      have "map_of (en_adopted e') i = Some keys" using that(1) by simp
      with that(2) fired have "(i, key) \<in> match_keys db" unfolding fired_recorded_def by metis
      with mono show ?thesis by blast
    qed
    ultimately have "fired_recorded ?e (ao_tables out)" unfolding fired_recorded_def by blast
    then show ?thesis using committed ev(6) by (simp add: engine_inv_def states_ok_mark)
  qed
qed

section \<open>After a restart\<close>

definition adopts :: "(int \<times> (match_key \<times> alert_severity) list) list \<Rightarrow> int \<Rightarrow> match_key \<Rightarrow> bool" where
  "adopts keys i k \<longleftrightarrow> (\<exists>known. map_of keys i = Some known \<and> map_of known k \<noteq> None)"

lemma adopts_update:
  "adopts (AList.update i (AList.update k v (case map_of keys i of None \<Rightarrow> [] | Some ks \<Rightarrow> ks)) keys) j l \<longleftrightarrow>
     adopts keys j l \<or> (i = j \<and> k = l)"
  by (cases "map_of keys i") (auto simp: adopts_def dict_simps)

lemma adopts_fold:
  "adopts (fold (\<lambda>m keys. let known = (case map_of keys (am_sighting_id m) of None \<Rightarrow> [] | Some ks \<Rightarrow> ks)
             in AList.update (am_sighting_id m) (AList.update (row_key m) (am_severity m) known) keys) rows keys) i k \<longleftrightarrow>
     adopts keys i k \<or> (\<exists>m \<in> set rows. am_sighting_id m = i \<and> row_key m = k)"
  by (induction rows arbitrary: keys) (auto simp: Let_def adopts_update)

lemma adopts_recorded:
  "adopts (open_sighting_match_keys db) i k \<longleftrightarrow> (i, k) \<in> match_keys db \<and> map_of (at_sightings db) i = Some False"
  unfolding open_sighting_match_keys_def adopts_fold by (auto simp: adopts_def match_keys_def)

section \<open>Runs\<close>

text \<open>
  What happens between a start and a stop: cycles over whatever the world is, changes of the rules in
  force, and the transactions of other tasks. Deleting a rule, which removes its matches, is left to its
  own theorem.
\<close>

inductive alert_reach :: "alert_engine \<Rightarrow> alert_tables \<Rightarrow> alert_match_fact list \<Rightarrow> bool" where
  reach_start: "tables_ok db \<Longrightarrow> states = [] \<Longrightarrow>
    alert_reach (adopt_open_matches (open_sighting_match_keys db) (new_engine radius)) db states"
| reach_cycle: "alert_reach e db facts \<Longrightarrow> out = alert_cycle world later overflowed events e w w' db \<Longrightarrow>
    alert_reach (ao_engine out) (ao_tables out) (facts @ ao_facts out)"
| reach_rules: "alert_reach e db facts \<Longrightarrow> alert_reach (set_alert_radius radius (set_rules rules e)) db facts"
| reach_created: "alert_reach e db facts \<Longrightarrow>
    alert_reach e (snd (create_rule_row name description severity conditions enabled key now_ms db)) facts"
| reach_updated: "alert_reach e db facts \<Longrightarrow>
    alert_reach e (snd (update_rule_row rule_id name description severity conditions enabled now_ms db)) facts"
| reach_notified: "alert_reach e db facts \<Longrightarrow> alert_reach e (snd (mark_notified match_id db)) facts"
| reach_others: "alert_reach e db facts \<Longrightarrow>
    alert_reach e (db\<lparr>at_sightings := sightings, at_aircraft := aircraft\<rparr>) facts"

definition fact_key :: "alert_match_fact \<Rightarrow> int \<times> match_key" where
  "fact_key f = (af_sighting_id f,
     case af_rule_id f of Some i \<Rightarrow> RuleKey i | None \<Rightarrow> BuiltinKey (the (af_builtin_key f)))"

definition announced_ok :: "alert_tables \<Rightarrow> alert_match_fact list \<Rightarrow> bool" where
  "announced_ok db facts \<longleftrightarrow> distinct (map fact_key facts) \<and>
     (\<forall>f \<in> set facts. \<exists>row \<in> set (at_matches db). fact_of row f)"

lemma facts_of_rows_keys: "list_all2 fact_of rows facts \<Longrightarrow> map fact_key facts = map (\<lambda>r. (am_sighting_id r, row_key r)) rows"
  by (induction rule: list_all2_induct) (auto simp: fact_of_def fact_key_def)

lemma announced_cycle:
  assumes inv: "engine_inv e db" and out: "out = alert_cycle world later overflowed events e w w' db"
    and old: "announced_ok db facts"
  shows "announced_ok (ao_tables out) (facts @ ao_facts out)"
proof -
  obtain wanted states where start: "cycle_start world overflowed events e = (wanted, states)" by force
  obtain e' owed where eval: "evaluate_all world w wanted (e\<lparr>en_states := states\<rparr>) = (e', owed)" by force
  from inv out start eval show ?thesis
  proof (cases rule: alert_cycle_outcome)
    case (committed items created rows k)
    have old_keys: "fact_key ` set facts \<subseteq> match_keys db"
      using old by (force simp: announced_ok_def match_keys_def fact_of_def fact_key_def)
    have keys: "distinct (map (\<lambda>r. (am_sighting_id r, row_key r)) rows)"
        "match_keys db \<inter> set (map (\<lambda>r. (am_sighting_id r, row_key r)) rows) = {}"
      using committed(4,6) by (auto simp: tables_ok_def match_keys_def)
    show ?thesis
    proof (cases "ao_raised out")
      case True
      then show ?thesis using committed(6,9) old by (auto simp: announced_ok_def)
    next
      case False
      with committed(9) have rows: "list_all2 fact_of rows (ao_facts out)" by simp
      have "\<exists>row \<in> set rows. fact_of row f" if "f \<in> set (ao_facts out)" for f
        using rows that by (metis list_all2_conv_all_nth in_set_conv_nth)
      moreover have "fact_key ` set facts \<inter> fact_key ` set (ao_facts out) = {}"
        using old_keys keys(2) unfolding facts_of_rows_keys [OF rows, symmetric] set_map by blast
      moreover have "distinct (map fact_key (ao_facts out))" using keys(1) facts_of_rows_keys [OF rows] by simp
      moreover have "set (at_matches (ao_tables out)) = set (at_matches db) \<union> set rows" using committed(6) by simp
      ultimately show ?thesis
        using old unfolding announced_ok_def by (simp add: ball_Un) blast
    qed
  qed (use old in simp)
qed

definition notified_row :: "int \<Rightarrow> alert_row \<Rightarrow> alert_row" where
  "notified_row match_id m = (if am_id m = match_id \<and> \<not> am_notified m then m\<lparr>am_notified := True\<rparr> else m)"

lemma notified_row_fields:
  "am_sighting_id (notified_row i m) = am_sighting_id m" "row_key (notified_row i m) = row_key m"
  "fact_of (notified_row i m) f = fact_of m f"
  by (simp_all add: notified_row_def row_key_def fact_of_def split: option.split)

lemma at_matches_notified: "at_matches (snd (mark_notified i db)) = map (notified_row i) (at_matches db)"
  by (simp add: mark_notified_def notified_row_def [abs_def])

lemma match_keys_notified: "match_keys (snd (mark_notified match_id db)) = match_keys db"
  by (simp add: match_keys_def at_matches_notified image_image notified_row_fields)

lemma inv_same_matches:
  assumes "engine_inv e db \<and> announced_ok db facts" "tables_ok db'" "at_matches db' = at_matches db"
  shows "engine_inv e db' \<and> announced_ok db' facts"
proof -
  have "match_keys db' = match_keys db" by (simp add: match_keys_def assms(3))
  then have "fired_recorded e db' = fired_recorded e db" by (simp only: fired_recorded_def)
  then show ?thesis using assms by (simp add: engine_inv_def announced_ok_def)
qed

lemma reach_inv: "alert_reach e db facts \<Longrightarrow> engine_inv e db \<and> announced_ok db facts"
proof (induction rule: alert_reach.induct)
  case (reach_start db states radius)
  have "(i, k) \<in> match_keys db" if "map_of (open_sighting_match_keys db) i = Some keys" "map_of keys k \<noteq> None" for i keys k
    using adopts_recorded [of db i k] that by (auto simp: adopts_def)
  then have "fired_recorded (adopt_open_matches (open_sighting_match_keys db) (new_engine radius)) db"
    unfolding fired_recorded_def adopt_open_matches_def new_engine_def by simp
  with reach_start show ?case
    by (simp add: engine_inv_def adopt_open_matches_def new_engine_def states_ok_def announced_ok_def)
next
  case (reach_cycle e db facts out world later overflowed events w w')
  have inv: "engine_inv e db" "announced_ok db facts" using reach_cycle.IH by blast+
  from engine_inv_cycle [OF inv(1) reach_cycle.hyps(2)] announced_cycle [OF inv(1) reach_cycle.hyps(2) inv(2)]
  show ?case by blast
next
  case (reach_rules e db facts radius rules)
  then have "fired_recorded (set_alert_radius radius (set_rules rules e)) db"
    unfolding engine_inv_def fired_recorded_def set_rules_def set_alert_radius_def by simp blast
  with reach_rules show ?case by (simp add: engine_inv_def set_rules_def set_alert_radius_def)
next
  case (reach_created e db facts name description severity conditions enabled key now_ms)
  obtain r db' where r: "create_rule_row name description severity conditions enabled key now_ms db = (r, db')" by force
  then have "at_matches db' = at_matches db" by (auto simp: create_rule_row_def Let_def)
  with inv_same_matches [OF reach_created.IH tables_ok_create [OF _ r]] reach_created.IH show ?case
    by (simp add: r engine_inv_def)
next
  case (reach_updated e db facts rule_id name description severity conditions enabled now_ms)
  obtain r db' where r: "update_rule_row rule_id name description severity conditions enabled now_ms db = (r, db')" by force
  then have "at_matches db' = at_matches db" by (auto simp: update_rule_row_def Let_def split: option.splits)
  with inv_same_matches [OF reach_updated.IH tables_ok_update [OF _ r]] reach_updated.IH show ?case
    by (simp add: r engine_inv_def)
next
  case (reach_notified e db facts match_id)
  have "announced_ok (snd (mark_notified match_id db)) facts"
    using reach_notified by (simp add: announced_ok_def at_matches_notified notified_row_fields)
  moreover have "fired_recorded e (snd (mark_notified match_id db)) = fired_recorded e db"
    by (simp only: fired_recorded_def match_keys_notified)
  ultimately show ?case using reach_notified.IH tables_ok_notified by (simp add: engine_inv_def)
next
  case (reach_others e db facts aircraft sightings)
  have "tables_ok (db\<lparr>at_sightings := sightings, at_aircraft := aircraft\<rparr>)"
    using reach_others.IH by (simp add: engine_inv_def tables_ok_def)
  from inv_same_matches [OF reach_others.IH this] show ?case by simp
qed

end
