(* ===== verification/AlertPromises.thy ===== *)
theory AlertPromises
  imports AlertRuns
begin

text \<open>
  What the alert engine promises, cycle by cycle and over whole runs, and what it does not: the two ways
  in which deleting a rule goes wrong.
\<close>

section \<open>Properties of cycles\<close>

lemma cycle_states:
  assumes "engine_inv e db" "cycle_start world overflowed events e = (wanted, states)"
    and "evaluate_all world w wanted (e\<lparr>en_states := states\<rparr>) = (e', owed)" "icao \<in> set wanted"
    and "subject_for world w icao = Some s"
  obtains st where "map_of (en_states e') icao = Some st" "eval_state world w (e\<lparr>en_states := states\<rparr>) icao = Some st"
    "st_interesting st = interesting_of (evaluate (en_radius e) (en_rules e) s)"
    "\<And>p. p \<in> set (evaluate (en_radius e) (en_rules e) s) \<Longrightarrow>
       map_of (st_fired st) (mp_key p) \<noteq> None \<or>
       (\<exists>q. map_of (st_pending st) (mp_key p) = Some q \<and> mp_key q = mp_key p \<and> (icao, q) \<in> set owed)"
proof -
  let ?e = "e\<lparr>en_states := states\<rparr>"
  define st where "st = hold_proposals (evaluate (en_radius e) (en_rules e) s)
      ((state_for ?e icao s)\<lparr>st_interesting := interesting_of (evaluate (en_radius e) (en_rules e) s)\<rparr>)"
  note ev = evaluated [OF assms(1-3)]
  have st: "eval_state world w ?e icao = Some st" by (simp add: eval_state_def assms(5) st_def Let_def)
  have ok: "pending_ok (st_pending st)"
    by (rule pending_ok_eval_state [OF _ st]) (use cycle_start_ok [OF assms(2)] assms(1) in \<open>simp add: engine_inv_def\<close>)
  have held: "map_of (st_fired st) (mp_key p) \<noteq> None \<or> (\<exists>q. map_of (st_pending st) (mp_key p) = Some q)"
    if "p \<in> set (evaluate (en_radius e) (en_rules e) s)" for p
  proof -
    have "find (\<lambda>q. mp_key q = mp_key p) (evaluate (en_radius e) (en_rules e) s) \<noteq> None"
      using that by (auto simp: find_None_iff)
    then show ?thesis by (auto simp: st_def st_pending_hold map_of_hold split: option.splits)
  qed
  have owed: "mp_key q = k \<and> (icao, q) \<in> set owed" if "map_of (st_pending st) k = Some q" for k q
  proof -
    have "mp_key q = k" using map_of_SomeD [OF that] ok by (auto simp: pending_ok_def)
    with that st assms(4) ev(8) show ?thesis by auto
  qed
  show thesis
  proof (rule that [of st])
    show "map_of (en_states e') icao = Some st" using st ev(7) [of icao] assms(4) by simp
    show "st_interesting st = interesting_of (evaluate (en_radius e) (en_rules e) s)" by (simp add: st_def)
    show "map_of (st_fired st) (mp_key p) \<noteq> None \<or>
        (\<exists>q. map_of (st_pending st) (mp_key p) = Some q \<and> mp_key q = mp_key p \<and> (icao, q) \<in> set owed)"
      if "p \<in> set (evaluate (en_radius e) (en_rules e) s)" for p
      using held [OF that] owed by metis
  qed (rule st)
qed



text \<open>
  Property C14. A failed write loses nothing: the tables and the worker stay as they were, nothing is
  announced, every match that had not fired is pending on its aircraft, and each aircraft with something
  pending is evaluated again by the next cycle, whatever its events are as long as they do not remove it.
\<close>

theorem failed_alert_write_is_retried:
  assumes "alert_reach e db facts" and out: "out = alert_cycle world later overflowed events e w w' db"
    and failed: "ao_failed out"
  shows "ao_tables out = db \<and> ao_worker out = w' \<and> ao_facts out = [] \<and>
    (\<forall>icao s p. icao \<in> set (fst (cycle_start world overflowed events e)) \<and> subject_for world w icao = Some s \<and>
       p \<in> set (evaluate (en_radius e) (en_rules e) s) \<longrightarrow>
       (\<exists>st. map_of (en_states (ao_engine out)) icao = Some st \<and>
          (map_of (st_fired st) (mp_key p) \<noteq> None \<or> map_of (st_pending st) (mp_key p) \<noteq> None))) \<and>
    (\<forall>icao st events'. map_of (en_states (ao_engine out)) icao = Some st \<and> st_pending st \<noteq> [] \<and>
       icao \<notin> la_icao ` {a. \<exists>t. AircraftRemoved a t \<in> set events'} \<longrightarrow>
       icao \<in> set (fst (collect events' (en_states (ao_engine out)))))"
proof -
  have inv: "engine_inv e db" using reach_inv assms(1) by blast
  obtain wanted states where start: "cycle_start world overflowed events e = (wanted, states)" by force
  obtain e' owed where eval: "evaluate_all world w wanted (e\<lparr>en_states := states\<rparr>) = (e', owed)" by force
  from inv out start eval have same: "ao_engine out = e'" "ao_worker out = w'" "ao_tables out = db" "ao_facts out = []"
    using failed by (cases rule: alert_cycle_outcome; simp)+
  have held: "\<exists>st. map_of (en_states e') icao = Some st \<and>
      (map_of (st_fired st) (mp_key p) \<noteq> None \<or> map_of (st_pending st) (mp_key p) \<noteq> None)"
    if "icao \<in> set wanted" "subject_for world w icao = Some s" "p \<in> set (evaluate (en_radius e) (en_rules e) s)" for icao s p
    using cycle_states [OF inv start eval that(1,2)] that(3) by (metis option.distinct(1))
  have again: "icao \<in> set (fst (collect events' (en_states e')))"
    if "map_of (en_states e') icao = Some st" "st_pending st \<noteq> []"
      "icao \<notin> la_icao ` {a. \<exists>t. AircraftRemoved a t \<in> set events'}" for icao st events'
  proof -
    obtain wanted' states' where c: "collect events' (en_states e') = (wanted', states')" by force
    from collect_spec [OF c evaluated(6) [OF inv start eval]] that show ?thesis
      unfolding c fst_conv owes_evaluation_def by metis
  qed
  show ?thesis unfolding same using held again start by (intro conjI refl) auto
qed

text \<open>
  Property C15. What is interesting is what matches now: after every cycle the block of an evaluated
  aircraft is empty exactly when nothing matches it, and otherwise shows the highest severity and the
  reasons of all current matches, the most severe first. Nothing else of the state shows.
\<close>

theorem interesting_is_what_matches_now:
  assumes "alert_reach e db facts" and out: "out = alert_cycle world later overflowed events e w w' db"
    and "icao \<in> set (fst (cycle_start world overflowed events e))" and "subject_for world w icao = Some s"
  defines "ps \<equiv> evaluate (en_radius e) (en_rules e) s"
  shows "case interesting (ao_engine out) icao of
      None \<Rightarrow> ps = []
    | Some block \<Rightarrow> ps \<noteq> [] \<and> is_reasons block = map mp_reason ps \<and> is_severity block = mp_severity (hd ps) \<and>
        (\<forall>p \<in> set ps. mp_severity p \<le> is_severity block)"
proof -
  have inv: "engine_inv e db" using reach_inv assms(1) by blast
  obtain wanted states where start: "cycle_start world overflowed events e = (wanted, states)" by force
  obtain e' owed where eval: "evaluate_all world w wanted (e\<lparr>en_states := states\<rparr>) = (e', owed)" by force
  obtain st where st: "map_of (en_states e') icao = Some st" "st_interesting st = interesting_of ps"
    using cycle_states [OF inv start eval _ assms(4)] assms(3) start unfolding ps_def by auto
  have block: "interesting (ao_engine out) icao = interesting_of ps"
    using inv out start eval
    by (cases rule: alert_cycle_outcome) (simp_all add: interesting_def st map_of_mark_items mark_state_fields)
  have sorted: "sorted (map proposal_order ps)" unfolding ps_def by (rule evaluate_sorted)
  have best: "mp_severity q \<le> mp_severity p" if "ps = p # qs" "q \<in> set ps" for p qs q
  proof -
    from sorted that have "proposal_order p \<le> proposal_order q" by auto
    then show ?thesis by (auto simp: proposal_order_def less_eq_prod_def less_eq_alert_severity_def)
  qed
  have first: "first_max severity_rank x xs = x" if "\<forall>y \<in> set xs. y \<le> x" for x and xs :: "alert_severity list"
    using that by (induction xs) (auto simp: less_eq_alert_severity_def not_less)
  show ?thesis
  proof (cases ps)
    case (Cons p qs)
    then have "is_severity (the (interesting_of ps)) = mp_severity p"
      using first [of "map mp_severity qs" "mp_severity p"] best by (auto simp: interesting_of_def)
    then show ?thesis using best unfolding block by (simp add: Cons interesting_of_def)
  qed (simp add: block interesting_of_def)
qed

text \<open>
  Property C29. A restart forgets nothing: what the engine adopts at a start is exactly what is recorded on
  the open sightings, so the first evaluation of an aircraft whose sighting is still open holds no match
  that an earlier process has recorded.
\<close>

theorem restart_proposes_nothing_again:
  assumes "engine = adopt_open_matches (open_sighting_match_keys db) (new_engine radius)"
    and "subject_for world w icao = Some s" "sj_sighting_id s = Some i" "map_of (at_sightings db) i = Some False"
    and "eval_state world w (set_rules rules engine) icao = Some st"
  shows "(\<forall>k. (map_of (st_fired st) k \<noteq> None) = ((i, k) \<in> match_keys db)) \<and>
    (\<forall>k. (map_of (st_pending st) k \<noteq> None) =
       ((i, k) \<notin> match_keys db \<and> k \<in> mp_key ` set (evaluate radius rules s)))"
proof -
  have st: "st_fired st = (case map_of (open_sighting_match_keys db) i of None \<Rightarrow> [] | Some keys \<Rightarrow> keys)"
      "st_pending st = fold (hold_step (st_fired st)) (evaluate radius rules s) []"
    using assms(2,3,5)
    by (auto simp: eval_state_def Let_def state_for_def assms(1) set_rules_def adopt_open_matches_def new_engine_def
        new_alert_state_def st_pending_hold)
  have fired: "map_of (st_fired st) k \<noteq> None \<longleftrightarrow> (i, k) \<in> match_keys db" for k
    using adopts_recorded [of db i k] assms(4) unfolding st(1) adopts_def
    by (cases "map_of (open_sighting_match_keys db) i") simp_all
  have found: "find (\<lambda>p. mp_key p = k) ps \<noteq> None \<longleftrightarrow> k \<in> mp_key ` set ps" for k ps
    by (auto simp: find_None_iff)
  have "map_of (st_pending st) k \<noteq> None \<longleftrightarrow> (i, k) \<notin> match_keys db \<and> k \<in> mp_key ` set (evaluate radius rules s)" for k
    using found [of k "evaluate radius rules s"] fired [of k] unfolding st(2) map_of_hold
    by (cases "map_of (st_fired st) k") auto
  with fired show ?thesis by blast
qed

section \<open>Deleted rules\<close>

lemma record_matches_missing_rule:
  assumes "tables_ok db" "\<forall>m \<in> set ms. one_origin (nm_rule_id m) (nm_builtin_key m)"
    and "m \<in> set ms" "nm_rule_id m = Some i" "i \<notin> set (map ar_id (at_rules db))"
  shows "record_matches ms db = None"
  using assms
proof (induction ms arbitrary: db)
  case (Cons x ms)
  show ?case
  proof (cases "x = m")
    case True
    have "am_rule_id row \<noteq> Some i" if "row \<in> set (at_matches db)" for row
      using Cons.prems(1,5) that by (auto simp: tables_ok_def)
    moreover have "nm_builtin_key m = None" using Cons.prems(2-4) by (auto simp: one_origin_def)
    ultimately have "\<not> list_ex (conflicts m) (at_matches db)"
      using Cons.prems(4) by (auto simp: list_ex_iff conflicts_def)
    then show ?thesis using Cons.prems(4,5) True by (simp add: insert_match_def keys_exist_def)
  next
    case False
    have x: "one_origin (nm_rule_id x) (nm_builtin_key x)" using Cons.prems(2) by simp
    show ?thesis
    proof (cases "insert_match x db")
      case (Some result)
      obtain c db1 where result: "result = (c, db1)" by force
      note ins = insert_match_cases [OF Cons.prems(1) x Some [unfolded result]]
      have "record_matches ms db1 = None"
        by (rule Cons.IH) (use ins Cons.prems False in simp_all)
      then show ?thesis by (simp add: Some result)
    qed simp
  qed
qed simp

definition holds_rule :: "int \<Rightarrow> string \<Rightarrow> alert_states \<Rightarrow> bool" where
  "holds_rule i icao states \<longleftrightarrow>
     (\<exists>st p. map_of states icao = Some st \<and> map_of (st_pending st) (RuleKey i) = Some p)"

type_synonym cycle_input = "alert_world \<times> alert_world \<times> bool \<times> live_event list \<times> worker \<times> worker"

fun alert_cycles :: "cycle_input list \<Rightarrow> alert_engine \<Rightarrow> alert_tables \<Rightarrow> alert_outcome list" where
  "alert_cycles [] e db = []"
| "alert_cycles ((world, later, overflowed, events, w, w') # rest) e db =
     (let out = alert_cycle world later overflowed events e w w' db
      in out # alert_cycles rest (ao_engine out) (ao_tables out))"

definition present :: "string \<Rightarrow> cycle_input \<Rightarrow> bool" where
  "present icao = (\<lambda>(world, later, overflowed, events, w, w').
     live_record world icao \<noteq> None \<and> sighting_ids w icao \<noteq> None \<and>
     (\<not> overflowed \<longrightarrow> icao \<notin> la_icao ` {a. \<exists>t. AircraftRemoved a t \<in> set events}))"

lemma present_evaluated:
  assumes "present icao (world, later, overflowed, events, w, w')" "states_ok (en_states e)"
    and "holds_rule i icao (en_states e)" "cycle_start world overflowed events e = (wanted, states)"
  shows "icao \<in> set wanted \<and> map_of states icao = map_of (en_states e) icao"
proof (cases overflowed)
  case True
  have "icao \<in> la_icao ` set (wd_live world)"
    using assms(1) by (auto simp: present_def live_record_def find_Some_iff)
  then show ?thesis
    using assms(4) True by (auto simp: cycle_start_def resync_alerts_def Let_def map_of_filter_keys)
next
  case False
  then have c: "collect events (en_states e) = (wanted, states)" using assms(4) by (simp add: cycle_start_def)
  obtain st p where st: "map_of (en_states e) icao = Some st" "map_of (st_pending st) (RuleKey i) = Some p"
    using assms(3) by (auto simp: holds_rule_def)
  then have "owes_evaluation st" by (auto simp: owes_evaluation_def)
  with collect_spec [OF c assms(2)] assms(1) False st(1) show ?thesis by (auto simp: present_def)
qed

lemma blocked_cycle:
  assumes input: "present icao (world, later, overflowed, events, w, w')"
    and ok: "states_ok (en_states e)" "tables_ok db" and held: "holds_rule i icao (en_states e)"
    and gone: "i \<notin> set (map ar_id (at_rules db))"
    and out: "out = alert_cycle world later overflowed events e w w' db"
  shows "ao_failed out \<and> ao_tables out = db \<and> ao_worker out = w' \<and> ao_facts out = [] \<and>
    states_ok (en_states (ao_engine out)) \<and> holds_rule i icao (en_states (ao_engine out))"
proof -
  obtain wanted states where start: "cycle_start world overflowed events e = (wanted, states)" by force
  let ?e = "e\<lparr>en_states := states\<rparr>"
  obtain e' owed where eval: "evaluate_all world w wanted ?e = (e', owed)" by force
  have started: "distinct wanted" "states_ok states" using cycle_start_ok [OF start ok(1)] by auto
  have kept: "icao \<in> set wanted" "map_of states icao = map_of (en_states e) icao"
    using present_evaluated [OF input ok(1) held start] by auto
  have states_ok: "states_ok (en_states ?e)" using started(2) by simp
  note spec = evaluate_all_spec [OF eval started(1) states_ok]
  obtain st p where st: "map_of states icao = Some st" "map_of (st_pending st) (RuleKey i) = Some p"
    using held kept(2) by (auto simp: holds_rule_def)
  obtain s where s: "subject_for world w icao = Some s"
    using input by (auto simp: present_def subject_for_def Let_def split: option.splits)
  obtain st' where st': "eval_state world w ?e icao = Some st'"
      "map_of (st_pending st') (RuleKey i) = Some p"
    using s st by (simp add: eval_state_def Let_def st_pending_hold map_of_hold state_for_def)
  have pend: "(RuleKey i, p) \<in> set (st_pending st')" by (rule map_of_SomeD [OF st'(2)])
  have p: "mp_rule_id p = Some i" "proposal_ok p"
  proof -
    have "mp_key p = RuleKey i \<and> proposal_ok p"
      using pending_ok_eval_state [OF states_ok st'(1)] pend by (auto simp: pending_ok_def)
    then show "mp_rule_id p = Some i" "proposal_ok p" by (auto simp: proposal_ok_def split: option.splits)
  qed
  have all_ok: "\<forall>(icao, p) \<in> set owed. proposal_ok p"
  proof -
    have "proposal_ok q" if "(a, q) \<in> set (owed_by a (eval_state world w ?e a))" for a q
      using pending_ok_eval_state [OF states_ok, of world w a] that
      by (cases "eval_state world w ?e a") (auto simp: owed_by_def pending_ok_def)
    moreover have "(a, q) \<in> set owed \<Longrightarrow> (a, q) \<in> set (owed_by a (eval_state world w ?e a))" for a q
      using spec by (auto simp: owed_by_def split: option.splits)
    ultimately show ?thesis by blast
  qed
  have "(icao, p) \<in> set (owed_by icao (eval_state world w ?e icao))" using pend by (force simp: owed_by_def st'(1))
  then have owed: "(icao, p) \<in> set owed" using spec kept(1) by auto
  obtain j a where "sighting_ids w icao = Some (j, a)" using input by (auto simp: present_def)
  then obtain m where m: "(icao, p, m) \<in> set (writable world w owed)" "nm_rule_id m = Some i"
    using writable_complete [OF owed] p(1) by metis
  define items where "items = sort_key (\<lambda>(icao, p, m). - int (severity_rank (mp_severity p))) (writable world w owed)"
  have set_items: "set items = set (writable world w owed)" unfolding items_def set_sort by simp
  have "record_matches (map (\<lambda>(icao, p, m). m) items) db = None"
  proof (rule record_matches_missing_rule [OF ok(2) _ _ m(2) gone])
    show "\<forall>m \<in> set (map (\<lambda>(icao, p, m). m) items). one_origin (nm_rule_id m) (nm_builtin_key m)"
      using writable_key(1) all_ok writable_item unfolding set_map set_items by fastforce
    show "m \<in> set (map (\<lambda>(icao, p, m). m) items)" using m(1) unfolding set_map set_items by force
  qed
  moreover have "writable world w owed \<noteq> []" using m(1) by auto
  ultimately have "ao_failed out \<and> ao_tables out = db \<and> ao_worker out = w' \<and> ao_facts out = [] \<and> ao_engine out = e'"
    unfolding out alert_cycle_parts [OF start eval] by (simp add: record_owed_def Let_def items_def [symmetric])
  moreover have "map_of (en_states e') icao = Some st'" using spec kept(1) st'(1) by simp
  ultimately show ?thesis using spec st'(2) by (auto simp: holds_rule_def)
qed

lemma blocked_cycles:
  assumes "\<forall>input \<in> set inputs. present icao input" "states_ok (en_states e)" "tables_ok db"
    and "holds_rule i icao (en_states e)" "i \<notin> set (map ar_id (at_rules db))" "out \<in> set (alert_cycles inputs e db)"
  shows "ao_failed out \<and> ao_tables out = db \<and> ao_facts out = []"
  using assms
proof (induction inputs e db rule: alert_cycles.induct)
  case (2 world later overflowed events w w' rest e db)
  note step = blocked_cycle [OF _ 2(3,4,5,6) refl, of world later overflowed events w w']
  show ?case
  proof (cases "out = alert_cycle world later overflowed events e w w' db")
    case True
    then show ?thesis using step 2(2) by simp
  next
    case False
    with 2(7) have "out \<in> set (alert_cycles rest (ao_engine (alert_cycle world later overflowed events e w w' db))
        (ao_tables (alert_cycle world later overflowed events e w w' db)))" by (simp add: Let_def)
    with 2(1) [OF refl] step 2(2-6) show ?thesis by simp
  qed
qed simp

lemma delete_rule_effect:
  assumes "delete_rule cfg i svc db0 = (True, svc', db)"
  shows "en_states (sv_engine svc') = en_states (sv_engine svc)" "i \<notin> set (map ar_id (at_rules db))"
    "tables_ok db0 \<Longrightarrow> tables_ok db" "(j, RuleKey i) \<notin> match_keys db \<or> \<not> tables_ok db0"
proof -
  obtain found where del: "delete_rule_row i db0 = (True, db)" "svc' = reload_rules cfg db svc"
    using assms by (auto simp: delete_rule_def split: prod.splits bool.splits)
  then have db: "db = db0\<lparr>at_rules := filter (\<lambda>r. ar_id r \<noteq> i) (at_rules db0),
      at_matches := filter (\<lambda>m. am_rule_id m \<noteq> Some i) (at_matches db0)\<rparr>"
    by (auto simp: delete_rule_row_def split: option.splits)
  show "en_states (sv_engine svc') = en_states (sv_engine svc)"
    by (simp add: del(2) reload_rules_def set_rules_def set_alert_radius_def)
  show "i \<notin> set (map ar_id (at_rules db))" by (auto simp: db)
  show "tables_ok db0 \<Longrightarrow> tables_ok db" using tables_ok_delete del(1) by blast
  show "(j, RuleKey i) \<notin> match_keys db \<or> \<not> tables_ok db0"
    by (auto simp: db match_keys_def row_key_def split: option.splits)
qed



section \<open>Severities\<close>

definition severity_reached :: "string \<Rightarrow> nat \<Rightarrow> worker \<Rightarrow> bool" where
  "severity_reached icao n w \<longleftrightarrow> (case sighting_for icao w of
      None \<Rightarrow> True
    | Some s \<Rightarrow> (\<exists>m k. sg_max_alert_severity s = Some m \<and> alert_severity_rank m = Inr k \<and> n \<le> k))"

lemma severity_reached_le: "severity_reached icao n w \<Longrightarrow> k \<le> n \<Longrightarrow> severity_reached icao k w"
  by (fastforce simp: severity_reached_def split: option.splits)

lemma severity_value_rank: "alert_severity_rank (severity_value sev) = Inr (severity_rank sev)"
  by (cases sev) (simp_all add: alert_severity_rank_def ALERT_SEVERITIES_def)

lemma sighting_for_put:
  assumes "sighting_for icao w \<noteq> None"
  shows "sighting_for j (put_sighting icao s w) = (if j = icao then Some s else sighting_for j w)"
  using assms by (auto simp: sighting_for_def put_sighting_def dict_simps split: option.splits)

lemma apply_severity_sighting:
  assumes "apply_alert_severity (severity_value sev) reason t s = Inr (s', c)"
  shows "\<exists>m k. sg_max_alert_severity s' = Some m \<and> alert_severity_rank m = Inr k \<and> severity_rank sev \<le> k \<and>
      (\<forall>m' k'. sg_max_alert_severity s = Some m' \<and> alert_severity_rank m' = Inr k' \<longrightarrow> k' \<le> k \<and> (c \<longrightarrow> k' < severity_rank sev))"
proof -
  obtain b where b: "outranks_severity (severity_value sev) (sg_max_alert_severity s) = Inr b"
    using assms by (auto simp: apply_alert_severity_def bindE_Inr_iff)
  show ?thesis
  proof (cases "sg_max_alert_severity s")
    case None
    then have "sg_max_alert_severity s' = Some (severity_value sev)"
      using assms b by (auto simp: apply_alert_severity_def outranks_severity_def severity_value_rank emit_def touch_def)
    then show ?thesis by (simp add: severity_value_rank None)
  next
    case (Some m)
    then obtain k where k: "alert_severity_rank m = Inr k" "b = (k < severity_rank sev)"
      using b by (auto simp: outranks_severity_def severity_value_rank bindE_Inr_iff)
    show ?thesis
    proof (cases b)
      case True
      then have "sg_max_alert_severity s' = Some (severity_value sev)"
        using assms b by (auto simp: apply_alert_severity_def Some emit_def touch_def)
      then show ?thesis using k True by (simp add: severity_value_rank Some)
    next
      case False
      then have "s' = s" "\<not> c" using assms b by (auto simp: apply_alert_severity_def)
      then show ?thesis using k False by (simp add: Some not_less)
    qed
  qed
qed

lemma worker_severity_step:
  assumes "worker_apply_alert_severity icao (severity_value sev) reason t w = Inr (w', c)"
  shows "severity_reached icao (severity_rank sev) w' \<and> (severity_reached j n w \<longrightarrow> severity_reached j n w') \<and>
    (c \<longrightarrow> \<not> severity_reached icao (severity_rank sev) w)"
proof (cases "sighting_for icao w")
  case None
  then have "w' = w" "\<not> c" using assms by (auto simp: worker_apply_alert_severity_def)
  with None show ?thesis by (simp add: severity_reached_def)
next
  case (Some s)
  then obtain s' where s': "apply_alert_severity (severity_value sev) reason t s = Inr (s', c)" "w' = put_sighting icao s' w"
    using assms by (auto simp: worker_apply_alert_severity_def bindE_Inr_iff)
  have put: "sighting_for j w' = (if j = icao then Some s' else sighting_for j w)" for j
    unfolding s'(2) using sighting_for_put Some by simp
  obtain m k where m: "sg_max_alert_severity s' = Some m" "alert_severity_rank m = Inr k" "severity_rank sev \<le> k"
      "\<And>m' k'. sg_max_alert_severity s = Some m' \<Longrightarrow> alert_severity_rank m' = Inr k' \<Longrightarrow>
         k' \<le> k \<and> (c \<longrightarrow> k' < severity_rank sev)"
    using apply_severity_sighting [OF s'(1)] by blast
  have "severity_reached icao (severity_rank sev) w'" using m(1-3) put [of icao] by (simp add: severity_reached_def)
  moreover have "severity_reached j n w'" if "severity_reached j n w"
    using that m put [of j] Some by (auto simp: severity_reached_def split: if_splits option.splits intro: order_trans)
  moreover have "\<not> severity_reached icao (severity_rank sev) w" if c
  proof
    assume "severity_reached icao (severity_rank sev) w"
    then obtain m' k' where "sg_max_alert_severity s = Some m'" "alert_severity_rank m' = Inr k'" "severity_rank sev \<le> k'"
      by (auto simp: severity_reached_def Some)
    with m(4) that show False by fastforce
  qed
  ultimately show ?thesis by blast
qed

definition raises :: "string \<Rightarrow> (write_item \<times> int option) list \<Rightarrow> worker \<Rightarrow> bool" where
  "raises icao xs w \<longleftrightarrow> (\<exists>p m i. ((icao, p, m), Some i) \<in> set xs \<and> \<not> severity_reached icao (severity_rank (mp_severity p)) w)"

lemma apply_created_severity:
  assumes "apply_created world xs e w facts n = (e', w', Inr (facts', n'))"
    and "sorted (map (\<lambda>((icao, p, m), c). - int (severity_rank (mp_severity p))) xs)"
  shows "(\<forall>icao p m i. ((icao, p, m), Some i) \<in> set xs \<longrightarrow> severity_reached icao (severity_rank (mp_severity p)) w') \<and>
    (\<forall>icao k. severity_reached icao k w \<longrightarrow> severity_reached icao k w') \<and> n' \<le> n + card {icao. raises icao xs w}"
  using assms
proof (induction world xs e w facts n rule: apply_created.induct)
  case (1 world e w facts n)
  then show ?case by (simp add: raises_def)
next
  case (2 world icao p m created rest e w facts n)
  have sorted: "sorted (map (\<lambda>((icao, p, m), c). - int (severity_rank (mp_severity p))) rest)"
    and best: "\<And>j q l c. ((j, q, l), c) \<in> set rest \<Longrightarrow> severity_rank (mp_severity q) \<le> severity_rank (mp_severity p)"
    using 2(4) by auto
  show ?case
  proof (cases created)
    case None
    with 2(3) have run: "apply_created world rest (e\<lparr>en_states := mark_fired icao p (en_states e)\<rparr>) w facts n =
        (e', w', Inr (facts', n'))" by simp
    have "raises j (((icao, p, m), created) # rest) w = raises j rest w" for j by (auto simp: raises_def None)
    with 2(1) [OF refl None run sorted] show ?thesis by (simp add: None)
  next
    case (Some i)
    obtain w1 changed where step: "worker_apply_alert_severity icao (severity_value (mp_severity p)) (mp_reason p)
        (wd_now_ms world) w = Inr (w1, changed)"
      using 2(3) by (cases "worker_apply_alert_severity icao (severity_value (mp_severity p)) (mp_reason p) (wd_now_ms world) w")
        (auto simp: Some)
    note one = worker_severity_step [OF step]
    have run: "apply_created world rest (e\<lparr>en_states := mark_fired icao p (en_states e)\<rparr>) w1
        (facts @ [match_fact world e i (icao, p, m)]) (if changed then Suc n else n) = (e', w', Inr (facts', n'))"
      using 2(3) by (simp add: Some step)
    note IH = 2(2) [OF refl Some step refl run sorted]
    have fin: "finite {j. raises j (((icao, p, m), created) # rest) w}"
      by (rule finite_subset [of _ "(\<lambda>((j, q, l), c). j) ` set (((icao, p, m), created) # rest)"]) (force simp: raises_def)+
    have fewer: "{j. raises j rest w1} \<subseteq> {j. raises j (((icao, p, m), created) # rest) w} - (if changed then {icao} else {})"
    proof
      fix j
      assume "j \<in> {j. raises j rest w1}"
      then obtain q l c where q: "((j, q, l), Some c) \<in> set rest" "\<not> severity_reached j (severity_rank (mp_severity q)) w1"
        by (auto simp: raises_def)
      have "j \<noteq> icao"
      proof
        assume "j = icao"
        moreover have "severity_reached icao (severity_rank (mp_severity q)) w1"
          using one best [OF q(1)] severity_reached_le by blast
        ultimately show False using q(2) by simp
      qed
      moreover have "\<not> severity_reached j (severity_rank (mp_severity q)) w" using one q(2) by blast
      ultimately show "j \<in> {j. raises j (((icao, p, m), created) # rest) w} - (if changed then {icao} else {})"
        using q(1) by (auto simp: raises_def)
    qed
    have "(if changed then Suc n else n) + card {j. raises j rest w1} \<le>
        n + card {j. raises j (((icao, p, m), created) # rest) w}"
    proof (cases changed)
      case True
      then have "icao \<in> {j. raises j (((icao, p, m), created) # rest) w}" using one by (auto simp: raises_def Some)
      with fewer True fin have "card {j. raises j rest w1} < card {j. raises j (((icao, p, m), created) # rest) w}"
        by (intro psubset_card_mono) auto
      with True show ?thesis by simp
    next
      case False
      with fewer fin show ?thesis by (simp add: card_mono)
    qed
    with IH one show ?thesis by (auto simp: Some)
  qed
qed

text \<open>
  Property C32. A cycle takes each sighting to its severity in one step: after a write, the sighting of every
  announced match, if the worker still holds it, has at least the severity of that match, no sighting has
  lost severity, and however many rules matched an aircraft at once, it is raised at most once.
\<close>

theorem one_upgrade_per_sighting:
  assumes "alert_reach e db facts" and out: "out = alert_cycle world later overflowed events e w w' db"
    and "\<not> ao_raised out"
  shows "(\<forall>f \<in> set (ao_facts out). \<exists>n. alert_severity_rank (af_severity f) = Inr n \<and>
      severity_reached (af_icao24 f) n (ao_worker out)) \<and>
    (\<forall>icao n. severity_reached icao n w' \<longrightarrow> severity_reached icao n (ao_worker out)) \<and>
    ao_upgraded out \<le> card (af_icao24 ` set (ao_facts out))"
proof -
  obtain wanted states where start: "cycle_start world overflowed events e = (wanted, states)" by force
  obtain e' owed where eval: "evaluate_all world w wanted (e\<lparr>en_states := states\<rparr>) = (e', owed)" by force
  define items where "items = sort_key (\<lambda>(icao, p, m). - int (severity_rank (mp_severity p))) (writable world w owed)"
  let ?later = "later\<lparr>wd_now_ms := wd_now_ms world\<rparr>"
  show ?thesis
  proof (cases "writable world w owed = [] \<or> \<not> wd_write_ok world \<or> record_matches (map (\<lambda>(icao, p, m). m) items) db = None")
    case True
    then show ?thesis unfolding out alert_cycle_parts [OF start eval]
      by (auto simp: record_owed_def Let_def items_def [symmetric] split: option.splits)
  next
    case False
    then obtain created db' where written: "record_matches (map (\<lambda>(icao, p, m). m) items) db = Some (created, db')"
      by auto
    obtain e2 w2 r where applied: "apply_created ?later (zip items created) e' w' [] 0 = (e2, w2, r)" by (metis prod_cases3)
    obtain new n where r: "r = Inr (new, n)"
      using assms(3) False written applied unfolding out alert_cycle_parts [OF start eval]
      by (cases r) (auto simp: record_owed_def Let_def items_def [symmetric])
    have eqs: "ao_worker out = w2" "ao_facts out = new" "ao_upgraded out = n"
      using False written applied r unfolding out alert_cycle_parts [OF start eval]
      by (simp_all add: record_owed_def Let_def items_def [symmetric])
    have keys: "map (\<lambda>((icao, p, m), c). - int (severity_rank (mp_severity p))) (zip items created) =
        take (length created) (map (\<lambda>(icao, p, m). - int (severity_rank (mp_severity p))) items)"
      by (induction items arbitrary: created) (auto simp: zip_Cons1 split: list.splits)
    have sorted: "sorted (map (\<lambda>((icao, p, m), c). - int (severity_rank (mp_severity p))) (zip items created))"
      unfolding keys by (rule sorted_wrt_take) (simp add: items_def)
    note sev = apply_created_severity [OF applied [unfolded r] sorted]
    have new: "new = facts_for ?later e' (zip items created)"
      using apply_created_spec [OF applied] by (simp add: r)
    have facts: "f \<in> set (facts_for world e xs) \<longleftrightarrow>
        (\<exists>icao p m i. ((icao, p, m), Some i) \<in> set xs \<and> f = match_fact world e i (icao, p, m))" for f world e xs
    proof (induction xs)
      case (Cons x xs)
      obtain icao p m c where x: "x = ((icao, p, m), c)" by (metis prod_cases3 surj_pair)
      show ?case by (cases c) (auto simp: x Cons)
    qed simp
    have fact: "af_severity (match_fact world e i (icao, p, m)) = severity_value (mp_severity p)"
        "af_icao24 (match_fact world e i (icao, p, m)) = icao" for world e i icao p m
      by (simp_all add: match_fact_def Let_def)
    have "{icao. raises icao (zip items created) w'} \<subseteq> af_icao24 ` set new"
      unfolding new by (force simp: raises_def facts fact image_iff)
    then have "n \<le> card (af_icao24 ` set new)"
      using sev card_mono [of "af_icao24 ` set new" "{icao. raises icao (zip items created) w'}"] by simp
    moreover have "\<exists>k. alert_severity_rank (af_severity f) = Inr k \<and> severity_reached (af_icao24 f) k w2"
      if f: "f \<in> set new" for f
    proof -
      obtain icao p m i where x: "((icao, p, m), Some i) \<in> set (zip items created)" "f = match_fact ?later e' i (icao, p, m)"
        using f unfolding new facts by blast
      have "severity_reached icao (severity_rank (mp_severity p)) w2" using sev x(1) by blast
      then show ?thesis by (simp add: x(2) fact severity_value_rank)
    qed
    ultimately show ?thesis using sev unfolding eqs by blast
  qed
qed

section \<open>Witnesses\<close>

text \<open>An aircraft with an emergency squawk, its sighting with a row, and a database with one rule.\<close>

definition alert_live :: live_aircraft where
  "alert_live = \<lparr>la_icao = ''400abc'', la_first_seen = 0, la_last_seen = 1000000, la_first_seen_monotonic = 0,
     la_last_seen_monotonic = 1, la_state = Live, la_track = \<lparr>ct_capacity = 100, ct_points = [], ct_dropped = 0\<rparr>,
     la_position = None, la_position_source = SrcNone, la_position_seen = None, la_position_seen_monotonic = None,
     la_callsign = Some ''BAW117'', la_callsign_seen = Some 0, la_squawk = Some ''7700'', la_squawk_seen = Some 0,
     la_altitude_ft = Some 35000, la_altitude_geometric_ft = None, la_ground_speed_kt = None, la_track_deg = None,
     la_vertical_rate_fpm = None, la_on_ground = Some False, la_ground_state = Airborne,
     la_emitter_category = None, la_selected_altitude_ft = None, la_decoder_emergency = None, la_rssi_db = None,
     la_messages = None, la_seen_s = None, la_seen_pos_s = None, la_distance_nm = None, la_bearing_deg = None,
     la_observations = 1, la_provenance = []\<rparr>"

definition alert_worker :: worker where
  "alert_worker = \<lparr>pw_active = [(''400abc'', (new_sighting ''400abc'' 0 5000)
       \<lparr>sg_aircraft_id := Some 3, sg_sighting_id := Some 7\<rparr>)],
     pw_pending = [], pw_close_ms = 600000, pw_flush_interval_ms = 30000, pw_queue_size = 4096,
     pw_subscription = None, pw_t0_established = False, pw_recovery = no_recovery, pw_listeners = [],
     pw_db_errors = 0\<rparr>"

definition alert_sky :: "bool \<Rightarrow> alert_world" where
  "alert_sky write_ok = \<lparr>wd_live = [alert_live], wd_views = [], wd_watchlists = (\<lambda>_. []), wd_now_ms = 1000,
     wd_write_ok = write_ok\<rparr>"

definition alert_db :: alert_tables where
  "alert_db = \<lparr>at_rules = [type_rule], at_matches = [], at_sightings = [(7, False)], at_aircraft = [3]\<rparr>"

definition first_engine :: alert_engine where
  "first_engine = adopt_open_matches (open_sighting_match_keys alert_db) (new_engine None)"

definition first_cycle :: "bool \<Rightarrow> alert_outcome" where
  "first_cycle write_ok = alert_cycle (alert_sky write_ok) (alert_sky write_ok) False
     [AircraftAppeared alert_live 1000] first_engine alert_worker alert_worker alert_db"

lemma alert_db_ok: "tables_ok alert_db"
  by (simp add: tables_ok_def alert_db_def)

lemma first_reach: "alert_reach first_engine alert_db []"
  unfolding first_engine_def by (rule reach_start [OF alert_db_ok refl])

lemma first_cycle_written:
  "\<not> ao_failed (first_cycle True)" "\<not> ao_raised (first_cycle True)" "length (ao_facts (first_cycle True)) = 1"
  "ao_failed (first_cycle False)"
  by code_simp+

lemma first_wanted: "fst (cycle_start (alert_sky ok) False [AircraftAppeared alert_live 1000] first_engine) = [''400abc'']"
  by (cases ok) code_simp+

lemma first_subject:
  "subject_for (alert_sky ok) alert_worker ''400abc'' = Some (the (subject_for (alert_sky ok) alert_worker ''400abc''))"
  "map mp_key (evaluate (en_radius first_engine) (en_rules first_engine)
     (the (subject_for (alert_sky ok) alert_worker ''400abc''))) = [BuiltinKey ''emergency_7700'']"
  "sighting_ids alert_worker ''400abc'' = Some (7, 3)"
  by (cases ok) code_simp+


lemma one_proposal:
  obtains p where "evaluate (en_radius first_engine) (en_rules first_engine)
      (the (subject_for (alert_sky ok) alert_worker ''400abc'')) = [p]" "mp_key p = BuiltinKey ''emergency_7700''"
  using first_subject(2) [of ok]
  by (cases "evaluate (en_radius first_engine) (en_rules first_engine)
      (the (subject_for (alert_sky ok) alert_worker ''400abc''))") auto

lemma first_evaluated:
  "''400abc'' \<in> set (fst (cycle_start (alert_sky ok) False [AircraftAppeared alert_live 1000] first_engine))"
  by (simp add: first_wanted)


theorem failed_alert_write_is_retried_witness:
  "ao_tables (first_cycle False) = alert_db \<and> ao_facts (first_cycle False) = []"
  using failed_alert_write_is_retried [OF first_reach first_cycle_def first_cycle_written(4)] by blast

theorem interesting_is_what_matches_now_witness:
  "\<exists>block. interesting (ao_engine (first_cycle False)) ''400abc'' = Some block \<and> length (is_reasons block) = 1"
proof -
  obtain p where p: "evaluate (en_radius first_engine) (en_rules first_engine)
      (the (subject_for (alert_sky False) alert_worker ''400abc'')) = [p]"
    by (rule one_proposal)
  note block = interesting_is_what_matches_now [OF first_reach first_cycle_def [of False] first_evaluated first_subject(1), unfolded p]
  then show ?thesis by (cases "interesting (ao_engine (first_cycle False)) ''400abc''") auto
qed

theorem one_upgrade_per_sighting_witness:
  "ao_upgraded (first_cycle True) \<le> 1"
proof -
  have "card (af_icao24 ` set (ao_facts (first_cycle True))) \<le> length (ao_facts (first_cycle True))"
    by (metis card_image_le card_length finite_set order_trans)
  with one_upgrade_per_sighting [OF first_reach first_cycle_def first_cycle_written(2)] first_cycle_written(3)
  show ?thesis by simp
qed

text \<open>A process that finds the emergency of the open sighting already recorded.\<close>

definition recorded_db :: alert_tables where
  "recorded_db = alert_db\<lparr>at_matches := [\<lparr>am_id = 1, am_rule_id = None, am_builtin_key = Some ''emergency_7700'',
     am_sighting_id = 7, am_aircraft_id = 3, am_matched_ms = 0, am_severity = CriticalSev, am_reason = ''Squawk 7700'',
     am_notified = True\<rparr>]\<rparr>"

theorem restart_proposes_nothing_again_witness:
  "\<exists>st. eval_state (alert_sky True) alert_worker (set_rules []
      (adopt_open_matches (open_sighting_match_keys recorded_db) (new_engine None))) ''400abc'' = Some st \<and>
     map_of (st_pending st) (BuiltinKey ''emergency_7700'') = None"
proof -
  obtain st where st: "eval_state (alert_sky True) alert_worker (set_rules []
      (adopt_open_matches (open_sighting_match_keys recorded_db) (new_engine None))) ''400abc'' = Some st"
    using first_subject(1) by (auto simp: eval_state_def Let_def)
  have "sj_sighting_id (the (subject_for (alert_sky True) alert_worker ''400abc'')) = Some 7" by code_simp
  moreover have "map_of (at_sightings recorded_db) 7 = Some False" by (simp add: recorded_db_def alert_db_def)
  moreover have "(7, BuiltinKey ''emergency_7700'') \<in> match_keys recorded_db"
    by (simp add: match_keys_def recorded_db_def row_key_def)
  ultimately have "map_of (st_pending st) (BuiltinKey ''emergency_7700'') = None"
    using restart_proposes_nothing_again [OF refl first_subject(1) _ _ st, of 7]
    by (cases "map_of (st_pending st) (BuiltinKey ''emergency_7700'')") auto
  with st show ?thesis by blast
qed

text \<open>A service whose engine remembers, or still holds, a match of the only rule.\<close>

definition rule_service :: "bool \<Rightarrow> alert_service" where
  "rule_service fired = (new_service [])\<lparr>sv_engine := (new_engine None)\<lparr>en_states :=
     [(''400abc'', \<lparr>st_sighting_id = (if fired then Some 7 else None),
        st_fired = (if fired then [(RuleKey 1, HighSev)] else []),
        st_pending = (if fired then [] else [(RuleKey 1, rule_proposal type_rule)]),
        st_interesting = None, st_awaiting_metadata = True\<rparr>)]\<rparr>\<rparr>"

definition no_config :: alert_config where
  "no_config = \<lparr>cf_watchlists = [], cf_radius = None\<rparr>"

lemma rule_deleted:
  "delete_rule no_config 1 (rule_service fired) alert_db =
     (True, reload_rules no_config (alert_db\<lparr>at_rules := []\<rparr>) (rule_service fired), alert_db\<lparr>at_rules := []\<rparr>)"
  by (simp add: delete_rule_def delete_rule_row_def alert_db_def type_rule_def)



end
