(* ===== verification/AlertTemplates.thy ===== *)
theory AlertTemplates
  imports AlertService
begin

text \<open>
  The alert service over sequences of operations: the rules in force are the rules of the database, a
  template has at most one rule, and a deleted template rule stays deleted while the process runs, though
  not across a restart.
\<close>

section \<open>Template keys\<close>

lemma normalize_fold:
  "distinct acc \<Longrightarrow> (let r = fold (\<lambda>key normalized. if resolve_key key \<in> set normalized then normalized
       else normalized @ [resolve_key key]) keys acc in distinct r \<and> set r = set acc \<union> resolve_key ` set keys)"
  by (induction keys arbitrary: acc) (auto simp: Let_def insert_absorb)

lemma normalize_keys: "distinct (normalize_template_keys keys)" "set (normalize_template_keys keys) = resolve_key ` set keys"
  using normalize_fold [of "[]" keys] by (simp_all add: normalize_template_keys_def Let_def)

lemma resolve_key_idem [simp]: "resolve_key (resolve_key key) = resolve_key key"
  by (simp add: resolve_key_def TEMPLATE_KEY_ALIASES_def)

lemma shipped_keys: "map tp_key SHIPPED_TEMPLATES =
   [''military'', ''government'', ''police'', ''emergency_squawk'', ''first_ever'', ''locally_rare'',
    ''locally_rare_type'', ''watchlist'']"
  by (simp add: SHIPPED_TEMPLATES_def rule_template_def)

lemma shipped_distinct: "distinct (map tp_key SHIPPED_TEMPLATES)"
  unfolding shipped_keys by simp

lemma shipped_resolved: "t \<in> set SHIPPED_TEMPLATES \<Longrightarrow> resolve_key (tp_key t) = tp_key t"
proof -
  assume "t \<in> set SHIPPED_TEMPLATES"
  then have "tp_key t \<in> set (map tp_key SHIPPED_TEMPLATES)" by simp
  then show ?thesis unfolding shipped_keys by (auto simp: resolve_key_def TEMPLATE_KEY_ALIASES_def)
qed

lemma enabled_templates_keys:
  "t \<in> set (enabled_templates keys) \<longleftrightarrow> t \<in> set SHIPPED_TEMPLATES \<and> tp_key t \<in> resolve_key ` set keys"
  by (auto simp: enabled_templates_def normalize_keys)

section \<open>The provenance column\<close>

definition template_keys :: "alert_tables \<Rightarrow> string list" where
  "template_keys db = List.map_filter ar_template_key (at_rules db)"

lemma template_keys_present_set: "template_keys_present db = set (template_keys db)"
  by (simp add: template_keys_present_def template_keys_def)

lemma has_template_rules_keys: "has_template_rules db \<longleftrightarrow> template_keys db \<noteq> []"
  unfolding has_template_rules_def template_keys_def
  by (induction "at_rules db") (auto simp: map_filter_def list_ex_iff filter_empty_conv)

lemma create_rule_row_effect:
  assumes "create_rule_row name description severity conditions enabled key now_ms db = (r, db')"
  shows "template_keys db' = template_keys db @ (case key of None \<Rightarrow> [] | Some k \<Rightarrow> [k])"
  using assms by (auto simp: create_rule_row_def Let_def template_keys_def map_filter_def split: option.split)

lemma create_template_rules_effect:
  assumes "create_template_rules now_ms ts db = (n, db')"
  shows "template_keys db' = template_keys db @ map tp_key ts" "tables_ok db \<Longrightarrow> tables_ok db'"
proof -
  have "template_keys (fold (\<lambda>t db. snd (create_template_rule now_ms t db)) ts db) = template_keys db @ map tp_key ts \<and>
      (tables_ok db \<longrightarrow> tables_ok (fold (\<lambda>t db. snd (create_template_rule now_ms t db)) ts db))"
  proof (induction ts arbitrary: db)
    case (Cons t ts)
    obtain r db1 where one: "create_template_rule now_ms t db = (r, db1)" by force
    from create_rule_row_effect [OF one [unfolded create_template_rule_def]]
      tables_ok_create [OF _ one [unfolded create_template_rule_def]]
    show ?case using Cons.IH [of db1] by (auto simp: one)
  qed simp
  then show "template_keys db' = template_keys db @ map tp_key ts" "tables_ok db \<Longrightarrow> tables_ok db'"
    using assms by (auto simp: create_template_rules_def)
qed

lemma update_rule_row_effect:
  assumes "tables_ok db" "update_rule_row rule_id name description severity conditions enabled now_ms db = (r, db')"
  shows "template_keys db' = template_keys db"
proof (cases "find (\<lambda>r. ar_id r = rule_id) (at_rules db)")
  case (Some row)
  then have row: "row \<in> set (at_rules db)" "ar_id row = rule_id" by (auto simp: find_Some_iff)
  have "inj_on ar_id (set (at_rules db))" using assms(1) by (simp add: tables_ok_def distinct_map)
  then have only: "r = row" if "r \<in> set (at_rules db)" "ar_id r = rule_id" for r
    using that row by (auto dest: inj_onD)
  have keys: "map ar_template_key (at_rules db') = map ar_template_key (at_rules db)"
    using assms(2) Some by (auto simp: update_rule_row_def Let_def dest: only)
  have "template_keys d = map the (filter (\<lambda>k. k \<noteq> None) (map ar_template_key (at_rules d)))" for d
    by (simp add: template_keys_def map_filter_def filter_map comp_def)
  then show ?thesis by (simp only: keys)
qed (use assms(2) in \<open>simp add: update_rule_row_def\<close>)

lemma delete_rule_row_effect:
  assumes "delete_rule_row rule_id db = (found, db')"
  shows "template_keys db' = List.map_filter ar_template_key (filter (\<lambda>r. ar_id r \<noteq> rule_id) (at_rules db)) \<or>
    template_keys db' = template_keys db"
  using assms by (auto simp: delete_rule_row_def template_keys_def split: option.splits)

lemma map_filter_filter_set: "set (List.map_filter f (filter P xs)) \<subseteq> set (List.map_filter f xs)"
  by (auto simp: map_filter_def)

lemma distinct_map_filter_filter: "distinct (List.map_filter f xs) \<Longrightarrow> distinct (List.map_filter f (filter P xs))"
  by (induction xs) (auto simp: map_filter_def split: if_splits)

section \<open>Operations\<close>

datatype service_op =
    Start int
  | Stop
  | Save int "string list"
  | Create int string "string option" alert_severity rule_conditions bool
  | Instantiate int string
  | Update int int string "string option" alert_severity rule_conditions bool
  | Delete int
  | WatchlistsChanged

text \<open>A call that raises changes nothing.\<close>

fun service_step :: "alert_config \<Rightarrow> service_op \<Rightarrow> alert_service \<times> alert_tables \<Rightarrow> alert_service \<times> alert_tables" where
  "service_step cfg (Start now_ms) (svc, db) = start_service now_ms cfg svc db"
| "service_step cfg Stop (svc, db) = (stop_service svc, db)"
| "service_step cfg (Save now_ms keys) (svc, db) = snd (apply_enabled_templates now_ms cfg keys svc db)"
| "service_step cfg (Create now_ms name description severity conditions enabled) (svc, db) =
     (case create_rule now_ms cfg name description severity conditions enabled svc db of
        Inl e \<Rightarrow> (svc, db) | Inr (r, s) \<Rightarrow> s)"
| "service_step cfg (Instantiate now_ms key) (svc, db) =
     (case instantiate_template now_ms cfg key svc db of Inl e \<Rightarrow> (svc, db) | Inr (r, s) \<Rightarrow> s)"
| "service_step cfg (Update now_ms rule_id name description severity conditions enabled) (svc, db) =
     (case update_rule now_ms cfg rule_id name description severity conditions enabled svc db of
        Inl e \<Rightarrow> (svc, db) | Inr (r, s) \<Rightarrow> s)"
| "service_step cfg (Delete rule_id) (svc, db) = snd (delete_rule cfg rule_id svc db)"
| "service_step cfg WatchlistsChanged (svc, db) = (reload_rules cfg db svc, db)"

definition service_run :: "alert_config \<Rightarrow> service_op list \<Rightarrow> alert_service \<times> alert_tables \<Rightarrow> alert_service \<times> alert_tables" where
  "service_run cfg = fold (service_step cfg)"

definition in_force :: "alert_config \<Rightarrow> alert_service \<Rightarrow> alert_tables \<Rightarrow> bool" where
  "in_force cfg svc db \<longleftrightarrow> en_rules (sv_engine svc) = compile_all cfg db \<and> en_radius (sv_engine svc) = cf_radius cfg"

lemma in_force_reload [simp]: "in_force cfg (reload_rules cfg db svc) db"
  by (simp add: in_force_def reload_rules_def set_rules_def set_alert_radius_def)

lemma reload_fields [simp]: "sv_template_keys (reload_rules cfg db svc) = sv_template_keys svc"
  "sv_started (reload_rules cfg db svc) = sv_started svc"
  by (simp_all add: reload_rules_def)

lemma in_force_start: "start_service now_ms cfg svc db = (svc', db') \<Longrightarrow> in_force cfg svc' db'"
  using in_force_reload [of cfg db' svc]
  by (auto simp: start_service_def Let_def in_force_def adopt_open_matches_def split: prod.splits)

lemma in_force_fields [simp]:
  "in_force cfg (svc\<lparr>sv_template_keys := keys\<rparr>) db = in_force cfg svc db"
  "in_force cfg (stop_service svc) db = in_force cfg svc db"
  by (simp_all add: in_force_def stop_service_def)

lemma in_force_step:
  assumes "service_step cfg op (svc, db) = (svc', db')" "in_force cfg svc db"
  shows "in_force cfg svc' db'"
proof (cases op)
  case (Start now_ms)
  then show ?thesis using assms(1) in_force_start by simp
next
  case (Save now_ms keys)
  then show ?thesis
    using assms by (auto simp: apply_enabled_templates_def Let_def split: if_splits prod.splits)
next
  case (Delete rule_id)
  then show ?thesis
    using assms by (auto simp: delete_rule_def delete_rule_row_def split: option.splits)
qed (use assms in \<open>auto simp: create_rule_def instantiate_template_def update_rule_def Let_def
    split: sum.splits prod.splits option.splits if_splits\<close>)

text \<open>How an operation changes the provenance column.\<close>

lemma start_keys:
  assumes "start_service now_ms cfg svc db = (svc', db')" "tables_ok db"
  shows "tables_ok db' \<and> sv_template_keys svc' = sv_template_keys svc \<and>
    template_keys db' = (if template_keys db \<noteq> [] then template_keys db
      else map tp_key (filter instantiable (enabled_templates (sv_template_keys svc))))"
proof -
  obtain n where inst: "instantiate_templates now_ms svc db = (n, db')" and svc': "sv_template_keys svc' = sv_template_keys svc"
    using assms(1) by (auto simp: start_service_def Let_def split: prod.splits)
  show ?thesis
  proof (cases "sv_template_keys svc = [] \<or> has_template_rules db")
    case True
    then have "db' = db" using inst by (auto simp: instantiate_templates_def split: if_splits)
    moreover have "enabled_templates [] = []" by (simp add: enabled_templates_def normalize_template_keys_def)
    ultimately show ?thesis using True assms(2) svc' by (auto simp: has_template_rules_keys)
  next
    case False
    then have "create_template_rules now_ms (filter instantiable (enabled_templates (sv_template_keys svc))) db = (n, db')"
      using inst by (simp add: instantiate_templates_def)
    from create_template_rules_effect [OF this] False svc' assms(2) show ?thesis
      by (simp add: has_template_rules_keys)
  qed
qed

lemma save_keys:
  assumes "apply_enabled_templates now_ms cfg keys svc db = (n, svc', db')" "tables_ok db"
  shows "tables_ok db' \<and> sv_template_keys svc' = keys \<and>
    (\<exists>ts. template_keys db' = template_keys db @ map tp_key ts \<and> distinct (map tp_key ts) \<and> set ts \<subseteq> set SHIPPED_TEMPLATES \<and>
      (\<forall>t \<in> set ts. instantiable t \<and> tp_key t \<in> resolve_key ` set keys - resolve_key ` set (sv_template_keys svc) \<and>
         tp_key t \<notin> set (template_keys db)))"
proof -
  define added where "added = filter (\<lambda>key. key \<notin> set (normalize_template_keys (sv_template_keys svc))) (normalize_template_keys keys)"
  define wanted where "wanted = filter (\<lambda>t. instantiable t \<and> tp_key t \<notin> template_keys_present db) (enabled_templates added)"
  have wanted: "distinct (map tp_key wanted)" "set wanted \<subseteq> set SHIPPED_TEMPLATES"
      "\<forall>t \<in> set wanted. instantiable t \<and> tp_key t \<in> resolve_key ` set keys - resolve_key ` set (sv_template_keys svc) \<and>
         tp_key t \<notin> set (template_keys db)"
  proof -
    show "distinct (map tp_key wanted)"
      using shipped_distinct unfolding wanted_def enabled_templates_def by (simp add: distinct_map_filter)
    show "set wanted \<subseteq> set SHIPPED_TEMPLATES" by (auto simp: wanted_def enabled_templates_def)
    show "\<forall>t \<in> set wanted. instantiable t \<and> tp_key t \<in> resolve_key ` set keys - resolve_key ` set (sv_template_keys svc) \<and>
         tp_key t \<notin> set (template_keys db)"
    proof
      fix t
      assume t: "t \<in> set wanted"
      have "resolve_key x = x" if "x \<in> set added" for x
        using that by (auto simp: added_def normalize_keys)
      then have "tp_key t \<in> set added" using t by (auto simp: wanted_def enabled_templates_keys)
      then show "instantiable t \<and> tp_key t \<in> resolve_key ` set keys - resolve_key ` set (sv_template_keys svc) \<and>
         tp_key t \<notin> set (template_keys db)"
        using t by (simp add: added_def normalize_keys wanted_def template_keys_present_set)
    qed
  qed
  have saved: "apply_enabled_templates now_ms cfg keys svc db =
      (if \<not> sv_started svc \<or> added = [] \<or> wanted = [] then (0, svc\<lparr>sv_template_keys := keys\<rparr>, db)
       else let (created, db') = create_template_rules now_ms wanted db
            in (created, reload_rules cfg db' (svc\<lparr>sv_template_keys := keys\<rparr>), db'))"
    by (simp add: apply_enabled_templates_def Let_def added_def wanted_def)
  show ?thesis
  proof (cases "\<not> sv_started svc \<or> added = [] \<or> wanted = []")
    case True
    then have "db' = db" "sv_template_keys svc' = keys" using assms(1) unfolding saved by (auto split: if_splits)
    then show ?thesis using assms(2) by (intro conjI exI [of _ "[]"]) simp_all
  next
    case False
    then have "create_template_rules now_ms wanted db = (n, db') \<and> sv_template_keys svc' = keys"
      using assms(1) unfolding saved by (auto simp: Let_def split: prod.splits)
    with create_template_rules_effect wanted assms(2) show ?thesis by blast
  qed
qed

lemma other_keys:
  assumes "service_step cfg op (svc, db) = (svc', db')" "tables_ok db"
    and "\<And>now_ms. op \<noteq> Start now_ms" "\<And>now_ms keys. op \<noteq> Save now_ms keys"
  shows "tables_ok db' \<and> sv_template_keys svc' = sv_template_keys svc \<and>
    (template_keys db' = template_keys db \<or>
     (\<exists>now_ms key. op = Instantiate now_ms key \<and> key \<notin> set (template_keys db) \<and> template_keys db' = template_keys db @ [key]) \<or>
     (\<exists>rule_id. op = Delete rule_id \<and>
        template_keys db' = List.map_filter ar_template_key (filter (\<lambda>r. ar_id r \<noteq> rule_id) (at_rules db))))"
proof (cases op)
  case Stop
  then show ?thesis using assms by (auto simp: stop_service_def)
next
  case (Create now_ms name description severity conditions enabled)
  then consider "svc' = svc" "db' = db" | n r where "create_rule_row n (normalize_description description) severity
      conditions enabled None now_ms db = (r, db')" "svc' = reload_rules cfg db' svc"
    using assms(1) by (auto simp: create_rule_def split: sum.splits prod.splits)
  then show ?thesis using assms(2) tables_ok_create create_rule_row_effect by cases fastforce+
next
  case (Instantiate now_ms key)
  have "(svc' = svc \<and> db' = db) \<or> (\<exists>n d sev c r. create_rule_row n d sev c True (Some key) now_ms db = (r, db') \<and> svc' = reload_rules cfg db' svc \<and>
      \<not> list_ex (\<lambda>r. ar_template_key r = Some key) (at_rules db))"
  proof (cases "instantiate_template now_ms cfg key svc db")
    case (Inl e)
    then show ?thesis using assms(1) Instantiate by simp
  next
    case (Inr result)
    then obtain t where t: "template_by_key key = Some t" "instantiable t"
        "\<not> list_ex (\<lambda>r. ar_template_key r = Some key) (at_rules db)"
      by (auto simp: instantiate_template_def split: option.splits if_splits)
    obtain r db1 where row: "create_rule_row (tp_name t) (Some (tp_description t)) (tp_severity t)
                  (the (tp_conditions t)) True (Some key) now_ms db = (r, db1)" by force
    then have "db1 = db'" "svc' = reload_rules cfg db' svc"
      using t assms(1) Instantiate by (auto simp: instantiate_template_def)
    with row t(3) show ?thesis by blast
  qed
  then consider "svc' = svc" "db' = db" | n d sev c r where "create_rule_row n d sev c True (Some key) now_ms db = (r, db')" "svc' = reload_rules cfg db' svc"
      "\<not> list_ex (\<lambda>r. ar_template_key r = Some key) (at_rules db)" by blast
  then show ?thesis
  proof cases
    case 2
    have "key \<notin> set (template_keys db)" using 2(3) by (auto simp: template_keys_def map_filter_def list_ex_iff)
    then show ?thesis using tables_ok_create [OF assms(2) 2(1)] create_rule_row_effect [OF 2(1)] 2(2) Instantiate by simp
  qed (use assms(2) in simp)
next
  case (Update now_ms rule_id name description severity conditions enabled)
  then consider "svc' = svc" "db' = db" | n r where "update_rule_row rule_id n (normalize_description description) severity
      conditions enabled now_ms db = (Some r, db')" "svc' = reload_rules cfg db' svc"
    using assms(1) by (auto simp: update_rule_def split: sum.splits prod.splits option.splits)
  then show ?thesis using assms(2) tables_ok_update update_rule_row_effect by cases fastforce+
next
  case (Delete rule_id)
  then obtain found where "delete_rule_row rule_id db = (found, db')" "sv_template_keys svc' = sv_template_keys svc"
    using assms(1) by (auto simp: delete_rule_def split: prod.splits bool.splits)
  with tables_ok_delete [OF assms(2)] delete_rule_row_effect show ?thesis using Delete by blast
qed (use assms in \<open>auto simp: stop_service_def\<close>)

section \<open>Properties\<close>

lemma run_induct:
  assumes "service_run cfg ops (svc, db) = (svc', db')" "P svc db"
    and "\<And>op svc db svc' db'. op \<in> set ops \<Longrightarrow> P svc db \<Longrightarrow> service_step cfg op (svc, db) = (svc', db') \<Longrightarrow> P svc' db'"
  shows "P svc' db'"
  using assms
proof (induction ops arbitrary: svc db)
  case (Cons op ops)
  obtain svc1 db1 where step: "service_step cfg op (svc, db) = (svc1, db1)" by force
  then have run: "service_run cfg ops (svc1, db1) = (svc', db')" using Cons.prems(1) by (simp add: service_run_def)
  have base: "P svc1 db1" using Cons.prems(3) [OF _ Cons.prems(2) step] by simp
  show ?case
  proof (rule Cons.IH [OF run base])
    fix opa svc db svc' db'
    assume "opa \<in> set ops" "P svc db" "service_step cfg opa (svc, db) = (svc', db')"
    then show "P svc' db'" by (intro Cons.prems(3) [of opa svc db svc' db']) simp_all
  qed
qed (simp add: service_run_def)


definition templates_ok :: "alert_tables \<Rightarrow> bool" where
  "templates_ok db \<longleftrightarrow> tables_ok db \<and> distinct (template_keys db)"

lemma templates_ok_step:
  assumes "templates_ok db" "service_step cfg op (svc, db) = (svc', db')"
  shows "templates_ok db'"
proof -
  have ok: "tables_ok db" "distinct (template_keys db)" using assms(1) by (simp_all add: templates_ok_def)
  show ?thesis
  proof (cases "\<exists>now_ms. op = Start now_ms")
    case True
    then obtain now_ms where "start_service now_ms cfg svc db = (svc', db')" using assms(2) by auto
    from start_keys [OF this ok(1)] ok shipped_distinct show ?thesis
      by (simp add: templates_ok_def enabled_templates_def distinct_map_filter)
  next
    case not_start: False
    show ?thesis
    proof (cases "\<exists>now_ms keys. op = Save now_ms keys")
      case True
      then obtain now_ms keys n where "apply_enabled_templates now_ms cfg keys svc db = (n, svc', db')"
        using assms(2) by (metis eq_snd_iff service_step.simps(3))
      from save_keys [OF this ok(1)] ok(2) show ?thesis by (auto simp: templates_ok_def)
    next
      case False
      have "distinct (List.map_filter ar_template_key (filter (\<lambda>r. ar_id r \<noteq> rule_id) (at_rules db)))" for rule_id
        using ok(2) distinct_map_filter_filter by (simp add: template_keys_def)
      with other_keys [OF assms(2) ok(1)] not_start False ok(2) show ?thesis by (auto simp: templates_ok_def)
    qed
  qed
qed


definition keeps_deleted :: "string \<Rightarrow> service_op \<Rightarrow> bool" where
  "keeps_deleted key op = (case op of
      Start now_ms \<Rightarrow> False
    | Save now_ms keys \<Rightarrow> key \<in> resolve_key ` set keys
    | Instantiate now_ms k \<Rightarrow> k \<noteq> key
    | _ \<Rightarrow> True)"

text \<open>
  Property C20. A deletion is not undone by an unrelated save: once the rule of an enabled template is gone,
  no sequence of operations brings it back as long as every save keeps the template enabled, the gallery
  is not asked for it, and the service is not restarted.
\<close>

theorem deleted_template_stays_deleted:
  assumes "service_run cfg ops (svc, db) = (svc', db')" "\<forall>op \<in> set ops. keeps_deleted key op"
    and "tables_ok db" "key \<in> resolve_key ` set (sv_template_keys svc)" "key \<notin> template_keys_present db"
  shows "key \<notin> template_keys_present db'"
proof -
  define P where "P svc db \<longleftrightarrow> tables_ok db \<and> key \<in> resolve_key ` set (sv_template_keys svc) \<and> key \<notin> set (template_keys db)"
    for svc :: alert_service and db
  have step: "P svc' db'" if op: "op \<in> set ops" "P svc db" "service_step cfg op (svc, db) = (svc', db')" for op svc db svc' db'
  proof -
    have keeps: "keeps_deleted key op" and ok: "tables_ok db" using assms(2) op(1,2) by (auto simp: P_def)
    show ?thesis
    proof (cases "\<exists>now_ms keys. op = Save now_ms keys")
      case True
      then obtain now_ms keys n where save: "apply_enabled_templates now_ms cfg keys svc db = (n, svc', db')" "op = Save now_ms keys"
        using op(3) by (metis eq_snd_iff service_step.simps(3))
      obtain ts where ts: "tables_ok db'" "sv_template_keys svc' = keys" "template_keys db' = template_keys db @ map tp_key ts"
          "\<forall>t \<in> set ts. instantiable t \<and> tp_key t \<in> resolve_key ` set keys - resolve_key ` set (sv_template_keys svc) \<and>
             tp_key t \<notin> set (template_keys db)"
        using save_keys [OF save(1) ok] by (elim conjE exE) blast
      have "key \<in> resolve_key ` set (sv_template_keys svc)" "key \<notin> set (template_keys db)" using op(2) by (simp_all add: P_def)
      moreover have "key \<notin> tp_key ` set ts"
        using ts(4) calculation(1) by (metis Diff_iff imageE)
      ultimately have "key \<notin> set (template_keys db')" by (simp add: ts(3))
      with keeps ts(1,2) save(2) show ?thesis by (simp add: P_def keeps_deleted_def)
    next
      case False
      have not_start: "op \<noteq> Start now_ms" for now_ms using keeps by (auto simp: keeps_deleted_def)
      have "key \<notin> set (List.map_filter ar_template_key (filter (\<lambda>r. ar_id r \<noteq> rule_id) (at_rules db)))" for rule_id
        using op(2) map_filter_filter_set by (fastforce simp: P_def template_keys_def)
      with other_keys [OF op(3) ok not_start] False op(2) keeps show ?thesis
        by (auto simp: P_def keeps_deleted_def)
    qed
  qed
  have "P svc db" using assms(3-5) by (simp add: P_def template_keys_present_set)
  from run_induct [where P = P, OF assms(1) this step] show ?thesis by (simp add: P_def template_keys_present_set)
qed

text \<open>
  A restart undoes the deletion of the last template rule: when the deleted rule was the only
  one that came from a template and its template is still enabled, the next start creates it again.
\<close>

theorem restart_brings_back_last_template:
  assumes "tables_ok db" "delete_rule cfg i svc db = (True, svc1, db1)"
    and "\<forall>r \<in> set (at_rules db). ar_template_key r \<noteq> None \<longrightarrow> ar_id r = i"
    and "t \<in> set SHIPPED_TEMPLATES" "instantiable t" "tp_key t \<in> resolve_key ` set keys"
    and "start_service now_ms cfg' (new_service keys) db1 = (svc2, db2)"
  shows "tp_key t \<notin> template_keys_present db1 \<and> tp_key t \<in> template_keys_present db2"
proof -
  have del: "delete_rule_row i db = (True, db1)" using assms(2) by (auto simp: delete_rule_def split: prod.splits bool.splits)
  then have rules: "at_rules db1 = filter (\<lambda>r. ar_id r \<noteq> i) (at_rules db)"
    by (auto simp: delete_rule_row_def split: option.splits)
  have "template_keys db1 = []"
    using assms(3) unfolding template_keys_def rules by (auto simp: map_filter_def filter_empty_conv)
  with start_keys [OF assms(7) tables_ok_delete [OF assms(1) del]] assms(4-6) show ?thesis
    by (auto simp: template_keys_present_set new_service_def enabled_templates_keys)
qed

section \<open>Witnesses\<close>

definition no_rules :: alert_tables where
  "no_rules = \<lparr>at_rules = [], at_matches = [], at_sightings = [], at_aircraft = []\<rparr>"

definition plain_config :: alert_config where
  "plain_config = \<lparr>cf_watchlists = [], cf_radius = None\<rparr>"

text \<open>An installation that enables the military template, starts, and deletes its rule.\<close>

definition military_started :: "alert_service \<times> alert_tables" where
  "military_started = start_service 0 plain_config (new_service [''military'']) no_rules"

definition military_deleted :: "bool \<times> alert_service \<times> alert_tables" where
  "military_deleted = delete_rule plain_config 1 (fst military_started) (snd military_started)"

lemma no_rules_ok: "tables_ok no_rules" "template_keys no_rules = []"
  by (simp_all add: tables_ok_def no_rules_def template_keys_def map_filter_def)

lemma military_started_rules: "map ar_id (at_rules (snd military_started)) = [1]"
  "sv_template_keys (fst military_started) = [''military'']" "fst military_deleted"
  "sv_template_keys (fst (snd military_deleted)) = [''military'']" "at_rules (snd (snd military_deleted)) = []"
  by code_simp+

lemma military_ok: "tables_ok (snd military_started)" "tables_ok (snd (snd military_deleted))"
proof -
  show started: "tables_ok (snd military_started)"
    using start_keys [OF prod.collapse [symmetric] no_rules_ok(1)] unfolding military_started_def by blast
  have "delete_rule_row 1 (snd military_started) = (True, snd (snd military_deleted))"
    using military_started_rules(3) by (auto simp: military_deleted_def delete_rule_def split: prod.splits bool.splits)
  from tables_ok_delete [OF started this] show "tables_ok (snd (snd military_deleted))" .
qed



theorem deleted_template_stays_deleted_witness:
  "''military'' \<notin> template_keys_present (snd (service_run plain_config [Save 3 [''police'', ''military'']] (snd military_deleted)))"
proof (rule deleted_template_stays_deleted)
  show "service_run plain_config [Save 3 [''police'', ''military'']] (fst (snd military_deleted), snd (snd military_deleted)) =
      (fst (service_run plain_config [Save 3 [''police'', ''military'']] (snd military_deleted)),
       snd (service_run plain_config [Save 3 [''police'', ''military'']] (snd military_deleted)))" by simp
  show "''military'' \<in> resolve_key ` set (sv_template_keys (fst (snd military_deleted)))"
    unfolding military_started_rules(4) by (simp add: resolve_key_def TEMPLATE_KEY_ALIASES_def)
  show "''military'' \<notin> template_keys_present (snd (snd military_deleted))"
    unfolding template_keys_present_def military_started_rules(5) by (simp add: map_filter_def)
qed (simp_all add: keeps_deleted_def resolve_key_def TEMPLATE_KEY_ALIASES_def military_ok(2))

theorem restart_brings_back_last_template_witness:
  "''military'' \<in> template_keys_present (snd (start_service 9 plain_config (new_service [''military''])
     (snd (snd military_deleted))))"
proof -
  have del: "delete_rule plain_config 1 (fst military_started) (snd military_started) =
      (True, fst (snd military_deleted), snd (snd military_deleted))"
    using military_started_rules(3) by (simp add: military_deleted_def prod_eq_iff)
  have only: "\<forall>r \<in> set (at_rules (snd military_started)). ar_template_key r \<noteq> None \<longrightarrow> ar_id r = 1"
    using military_started_rules(1) by (cases "at_rules (snd military_started)") auto
  have t: "hd SHIPPED_TEMPLATES \<in> set SHIPPED_TEMPLATES" "instantiable (hd SHIPPED_TEMPLATES)"
      "tp_key (hd SHIPPED_TEMPLATES) = ''military''"
    by (simp_all add: SHIPPED_TEMPLATES_def rule_template_def instantiable_def)
  have "tp_key (hd SHIPPED_TEMPLATES) \<in> resolve_key ` set [''military'']"
    by (simp add: t(3) resolve_key_def TEMPLATE_KEY_ALIASES_def)
  from restart_brings_back_last_template [OF military_ok(1) del only t(1,2) this, of 9 plain_config] show ?thesis
    by (simp add: t(3) prod_eq_iff)
qed

end
