(* ===== verification/Spec2Isabelle.thy ===== *)
theory Spec2Isabelle
  imports Readsb Adapter LiveStore SightingHistory WorkerDurability ProviderLimits AlertPromises AlertTemplates
begin

text \<open>
  FlightSite is a self-hosted observatory for ADS-B receivers. This development models the core of
  its backend, \<^verbatim>\<open>src/backend/src/flightsite/\<close>: the pipeline from a decoder's JSON document to the
  permanent record of what was seen, and the alerts raised on the way.

  \<^bold>\<open>The pipeline.\<close> A poll of the decoder yields a document (\<open>Readsb\<close>, over the value parsing of
  \<open>Bounds\<close> and the records of \<open>IngestTypes\<close>); the adapter loop turns polls into a stream of batches
  and keeps the decoder's health (\<open>Adapter\<close>, \<open>Health\<close>). The live store folds batches into one record
  per aircraft (\<open>LiveStore\<close>, \<open>LiveAircraft\<close>, \<open>Track\<close>, \<open>Geo\<close>) and publishes what changed into one
  bounded queue per subscriber (\<open>Events\<close>). The persistence worker (\<open>Worker\<close>) reads its queue, keeps
  one accumulator per open sighting (\<open>SightingState\<close>) and writes cycles of opens, flushes,
  checkpoints, events and closes through the repository (\<open>Repository\<close>); a close packs the simplified
  path (\<open>SightingTracks\<close>, \<open>TrackCodec\<close>), and a start repairs what the previous process left open
  (\<open>Recovery\<close>).

  \<^bold>\<open>Around the pipeline.\<close> What several sources say of an airframe is normalised and resolved field by
  field (\<open>Metadata\<close>), and from the resolved record and a directory of operators (\<open>Operators\<close>) the
  classifier derives what can be asserted of it (\<open>ClassModel\<close>, \<open>Classify\<close>). The alert engine
  (\<open>AlertEngine\<close>) reads its own queue of the live store, asks for every aircraft that changed which rules
  match (\<open>AlertEvaluator\<close>, over the rule documents of \<open>AlertModel\<close> and the areas of \<open>AlertArea\<close>), writes
  each match once per sighting (\<open>AlertTables\<close>) and raises the severity of the worker's open sighting. The
  alert service (\<open>AlertService\<close>) edits the rules and hands the compiled ones to the engine. Requests to a
  route provider pass a token bucket and a circuit breaker (\<open>ProviderLimits\<close>).

  \<^bold>\<open>Theories and sources.\<close>
  \<^item> \<open>Prelude\<close>: errors as values, Python's arithmetic and strings, dictionaries as association lists
    in insertion order, the last elements of a list.
  \<^item> \<open>Bounds\<close>, \<open>IngestTypes\<close>, \<open>Readsb\<close>, \<open>Health\<close>, \<open>Adapter\<close>: \<^verbatim>\<open>ingest/bounds.py\<close>, \<^verbatim>\<open>types.py\<close>,
    \<^verbatim>\<open>readsb.py\<close>, \<^verbatim>\<open>health.py\<close>, \<^verbatim>\<open>service.py\<close>.
  \<^item> \<open>Track\<close>, \<open>Geo\<close>, \<open>LiveAircraft\<close>, \<open>Events\<close>, \<open>LiveStore\<close>: \<^verbatim>\<open>live/track.py\<close>, \<^verbatim>\<open>geo.py\<close>,
    \<^verbatim>\<open>aircraft.py\<close>, \<^verbatim>\<open>events.py\<close>, \<^verbatim>\<open>store.py\<close>. The contract of a queue that sheds its oldest entry
    is the locale of \<open>BoundedQueue\<close>, interpreted on the subscription.
  \<^item> \<open>Clock\<close>, \<open>SightingVocab\<close>, \<open>SightingTracks\<close>, \<open>TrackCodec\<close>, \<open>SightingState\<close>, \<open>SightingHistory\<close>,
    \<open>Repository\<close>, \<open>Recovery\<close>, \<open>Worker\<close>: \<^verbatim>\<open>db/clock.py\<close> and \<^verbatim>\<open>sightings/vocabulary.py\<close>, \<^verbatim>\<open>tracks.py\<close>,
    \<^verbatim>\<open>track_codec.py\<close>, \<^verbatim>\<open>state.py\<close> (definitions in \<open>SightingState\<close>, theorems in \<open>SightingHistory\<close>),
    \<^verbatim>\<open>repository.py\<close>, \<^verbatim>\<open>recovery.py\<close>, \<^verbatim>\<open>worker.py\<close>. The worker's theorems are in \<open>WorkerLifecycle\<close>
    (one accumulator per aircraft, continued inside the closure gap, over the step relation
    \<open>worker_step\<close>), \<open>WorkerLedger\<close> (what a committed cycle leaves in the tables), \<open>WorkerRuns\<close> (whole
    runs from any start, T0, failed cycles) and \<open>WorkerDurability\<close> (what a flush makes durable). The fields of the track layout share the locale
    \<open>field_codec\<close>; the four running extremes of a sighting share \<open>running_best\<close>.
  \<^item> \<open>Latin1\<close>, \<open>ClassModel\<close>, \<open>Operators\<close>, \<open>Classify\<close>: case conversion for the texts that are compared;
    \<^verbatim>\<open>classification/vocabulary.py\<close>, \<^verbatim>\<open>model.py\<close> and \<^verbatim>\<open>specs.py\<close>; \<^verbatim>\<open>operators.py\<close>; \<^verbatim>\<open>engine.py\<close> with the
    type tables of \<^verbatim>\<open>data/types.py\<close>. Texts are strings of code points below 256.
  \<^item> \<open>Metadata\<close>: \<^verbatim>\<open>metadata/records.py\<close> and \<^verbatim>\<open>precedence.py\<close>.
  \<^item> \<open>AlertArea\<close>, \<open>AlertModel\<close>, \<open>AlertEvaluator\<close>, \<open>AlertTables\<close>, \<open>AlertEngine\<close>, \<open>AlertService\<close>:
    \<^verbatim>\<open>alerts/area.py\<close>; \<^verbatim>\<open>vocabulary.py\<close> and \<^verbatim>\<open>model.py\<close>; \<^verbatim>\<open>builtins.py\<close> and \<^verbatim>\<open>evaluator.py\<close>;
    \<^verbatim>\<open>repository.py\<close> over two tables of \<^verbatim>\<open>db/models.py\<close>; \<^verbatim>\<open>engine.py\<close>; \<^verbatim>\<open>templates.py\<close> and \<^verbatim>\<open>service.py\<close>.
    The engine's theorems are in \<open>AlertRuns\<close> (a cycle described, runs and their invariant) and
    \<open>AlertPromises\<close> (what the engine promises); those of the service are in \<open>AlertTemplates\<close>, over
    sequences of its operations.
  \<^item> \<open>ProviderLimits\<close>: \<^verbatim>\<open>enrichment/limits.py\<close>, and of \<^verbatim>\<open>enrichment/service.py\<close> the guards it builds and the
    attempt that passes them.

  \<^bold>\<open>Conventions.\<close> A dataclass is a record, an enumeration a datatype, a raise a value of \<open>py_exn\<close> in
  the left of a sum. Python's integers are \<open>int\<close>, and the widths of the stored track are written out
  in the codec, which refuses what \<^verbatim>\<open>struct.pack\<close> refuses. Floats are reals: rounding error, NaN and
  infinities are outside the model, except where the code tests for them on input, and integers too
  large for a double keep their \<open>OverflowError\<close>. Instants are microseconds, epoch instants
  milliseconds. A loop over a stack or a queue is a total function with its termination measure; no
  fuel is used anywhere.

  \<^bold>\<open>What the lemmas show.\<close> Per component, an invariant and that every operation keeps it; for each
  operation its result on every branch; equivalence of iterative code with a plain specification (the
  simplification stack, the reverse scan of a track, the entry loop of a document); the event stream
  as a faithful log of the live store; the round trip and the quantization bounds of stored tracks;
  what a close, a flush and a recovery leave in the tables; that a matching rule is recorded exactly once
  per sighting, across failed writes and restarts; that a classification asserts only what its evidence
  supports; the rate a provider can see. Some theorems state where the code departs
  from its own documentation.

  \<^bold>\<open>Not modelled.\<close> HTTP, asyncio scheduling, SQLAlchemy and SQLite enter as parameters: the outcome of a
  fetch, the order of operations, whether a transaction commits. Of the alerts, the task around the cycle,
  the listeners, the paged listings and the parsing of JSON into typed fields are left out, and a stored
  conditions document is taken to parse; of the metadata, the import and the cache; of the enrichment, the
  queue, the policy and the cache. The API, analytics, activity feed, airports, feeders, maintenance,
  receiver metrics, watchlists and the other services that read the live store or the tables are not
  modelled yet; configuration, schemas, migrations, demo data and tools carry no state of the pipeline.
\<close>

end
